(* ===== verification/Rakka_Prelude.thy ===== *)
theory Rakka_Prelude
  imports Main "HOL-Library.Word" "HOL-Library.List_Lexorder" "HOL-Library.Char_ord"
    "HOL-Library.Product_Lexorder"
begin

text \<open>
  The shared vocabulary of the development. It names the Rust types the components use
  (fixed-width unsigned integers, \<open>Result\<close>, byte strings), the saturating arithmetic of
  the standard library, and the standard library's ordered containers: a \<open>BTreeMap\<close> is an
  association list with strictly ascending keys, a \<open>BTreeSet\<close> a strictly ascending list.
  Iterating such a container is reading the list from left to right, as the source does.

  The map operations satisfy the laws of the locale \<open>ordered_map\<close>; the components use the
  facts of its interpretation \<open>bt\<close>. The collections \<open>bt_simps\<close> and \<open>bt_intros\<close> carry
  lookup equations and well-formedness.
\<close>

named_theorems bt_simps \<open>lookup equations of the ordered maps\<close>
named_theorems bt_intros \<open>well-formedness of the ordered maps\<close>

section \<open>Rust types\<close>

type_synonym u16 = "16 word"
type_synonym u32 = "32 word"
type_synonym u64 = "64 word"
type_synonym bytes = "8 word list"

type_synonym ('e, 'a) result = "'e + 'a"

section \<open>Saturating arithmetic\<close>

text \<open>\<open>saturating_add\<close>, \<open>saturating_sub\<close> and \<open>saturating_mul\<close> of the unsigned types.\<close>

definition sat_add :: "'w::len word \<Rightarrow> 'w word \<Rightarrow> 'w word" where
  "sat_add a b = (if unat a + unat b < 2 ^ LENGTH('w) then a + b else - 1)"

definition sat_sub :: "'w::len word \<Rightarrow> 'w word \<Rightarrow> 'w word" where
  "sat_sub a b = (if b \<le> a then a - b else 0)"

definition sat_mul :: "'w::len word \<Rightarrow> 'w word \<Rightarrow> 'w word" where
  "sat_mul a b = (if unat a * unat b < 2 ^ LENGTH('w) then a * b else - 1)"

text \<open>Evaluation of the saturating operations compares integers, which are binary.\<close>

lemma sat_add_code [code]: "sat_add a b = (if uint a + uint b < 2 ^ LENGTH('w) then a + b else - 1)" for a b :: "'w::len word"
proof -
  have "int (unat a + unat b) < int (2 ^ LENGTH('w)) \<longleftrightarrow> unat a + unat b < 2 ^ LENGTH('w)"
    by (rule of_nat_less_iff)
  then show ?thesis
    by (simp add: sat_add_def)
qed

lemma sat_mul_code [code]: "sat_mul a b = (if uint a * uint b < 2 ^ LENGTH('w) then a * b else - 1)" for a b :: "'w::len word"
proof -
  have "int (unat a * unat b) < int (2 ^ LENGTH('w)) \<longleftrightarrow> unat a * unat b < 2 ^ LENGTH('w)"
    by (rule of_nat_less_iff)
  then show ?thesis
    by (simp add: sat_mul_def)
qed

lemma unat_max_word: "unat (- 1 :: 'w::len word) = 2 ^ LENGTH('w) - 1"
  by (simp add: unsigned_minus_1_eq_mask mask_eq_exp_minus_1)

lemma unat_less_two_power: "unat (a :: 'w::len word) < 2 ^ LENGTH('w)"
  by (rule unsigned_less)

lemma unat_sat_add:
  "unat (sat_add a b) = min (unat a + unat b) (2 ^ LENGTH('w) - 1)" for a b :: "'w::len word"
proof (cases "unat a + unat b < 2 ^ LENGTH('w)")
  case True
  then have "unat (a + b) = unat a + unat b"
    by (simp add: unat_word_ariths)
  with True show ?thesis
    by (simp add: sat_add_def)
next
  case False
  then show ?thesis
    by (simp add: sat_add_def unat_max_word)
qed

lemma unat_sat_sub: "unat (sat_sub a b) = unat a - unat b"
  by (simp add: sat_sub_def unat_sub word_le_nat_alt)

lemma unat_sat_mul:
  "unat (sat_mul a b) = min (unat a * unat b) (2 ^ LENGTH('w) - 1)" for a b :: "'w::len word"
proof (cases "unat a * unat b < 2 ^ LENGTH('w)")
  case True
  then have "unat (a * b) = unat a * unat b"
    by (simp add: unat_word_ariths)
  with True show ?thesis
    by (simp add: sat_mul_def)
next
  case False
  then show ?thesis
    by (simp add: sat_mul_def unat_max_word)
qed

lemmas unat_sat = unat_sat_add unat_sat_sub unat_sat_mul

lemma unat_Suc_word: "a \<noteq> - 1 \<Longrightarrow> unat (a + 1) = Suc (unat a)" for a :: "'w::len word"
  by (metis Suc_eq_plus1 add.commute add_eq_0_iff unatSuc)

lemma word_less_Suc: "a \<noteq> - 1 \<Longrightarrow> a < a + 1" for a :: "'w::len word"
  by (simp add: word_less_nat_alt unat_Suc_word)

text \<open>
  A \<open>Duration\<close> is modelled by its whole milliseconds (\<open>Duration::as_millis\<close>, a \<open>u128\<close>);
  the components read it through \<open>u64::try_from(..).unwrap_or(u64::MAX)\<close>.
\<close>

type_synonym duration = nat

definition millis_u64 :: "duration \<Rightarrow> u64" where
  "millis_u64 d = (if d < 2 ^ 64 then of_nat d else - 1)"

section \<open>Strings\<close>

text \<open>\<open>str::split_once\<close> with a one-character pattern: cut at the first occurrence.\<close>

fun split_once :: "char \<Rightarrow> string \<Rightarrow> (string \<times> string) option" where
  "split_once c [] = None"
| "split_once c (x # xs) =
     (if x = c then Some ([], xs)
      else map_option (\<lambda>(a, b). (x # a, b)) (split_once c xs))"

lemma split_once_Some:
  "split_once c s = Some (a, b) \<longleftrightarrow> s = a @ c # b \<and> c \<notin> set a"
proof (induction s arbitrary: a)
  case (Cons x s)
  then show ?case
    by (cases a) auto
qed simp

lemma split_once_None: "split_once c s = None \<longleftrightarrow> c \<notin> set s"
  by (induction s) auto

text \<open>Decimal rendering of an unsigned integer, as \<open>Display\<close> prints it.\<close>

fun show_nat :: "nat \<Rightarrow> string" where
  "show_nat n =
     (if n < 10 then [char_of (48 + n)] else show_nat (n div 10) @ [char_of (48 + n mod 10)])"

declare show_nat.simps [simp del]

section \<open>Results\<close>

definition is_ok :: "('e, 'a) result \<Rightarrow> bool" where
  "is_ok r \<longleftrightarrow> (case r of Inl _ \<Rightarrow> False | Inr _ \<Rightarrow> True)"

lemma is_ok_simps [simp]: "is_ok (Inr a)" "\<not> is_ok (Inl e)"
  by (simp_all add: is_ok_def)

text \<open>Checks joined by the \<open>?\<close> operator: the first failure is the result.\<close>

fun first_failure :: "('e, unit) result list \<Rightarrow> ('e, unit) result" where
  "first_failure [] = Inr ()"
| "first_failure (Inl e # cs) = Inl e"
| "first_failure (Inr _ # cs) = first_failure cs"

lemma first_failure_Inr: "first_failure cs = Inr u \<longleftrightarrow> (\<forall>c \<in> set cs. is_ok c)"
  by (induction cs rule: first_failure.induct) auto

lemma is_ok_unit: "is_ok r \<longleftrightarrow> r = Inr ()"
  by (cases r) simp_all

definition ensure :: "bool \<Rightarrow> 'e \<Rightarrow> ('e, unit) result" where
  "ensure c e = (if c then Inr () else Inl e)"

lemma is_ok_ensure [simp]: "is_ok (ensure c e) \<longleftrightarrow> c"
  by (simp add: ensure_def)

lemma is_ok_first_failure [simp]: "is_ok (first_failure cs) \<longleftrightarrow> list_all is_ok cs"
  by (induction cs rule: first_failure.induct) simp_all

definition bind_result :: "('e, 'a) result \<Rightarrow> ('a \<Rightarrow> ('e, 'b) result) \<Rightarrow> ('e, 'b) result" where
  "bind_result r f = (case r of Inl e \<Rightarrow> Inl e | Inr a \<Rightarrow> f a)"

lemma bind_result_simps [simp]: "bind_result (Inl e) f = Inl e" "bind_result (Inr a) f = f a"
  by (simp_all add: bind_result_def)

lemma bind_result_Inr: "bind_result r f = Inr b \<longleftrightarrow> (\<exists>a. r = Inr a \<and> f a = Inr b)"
  by (cases r) simp_all

lemma bind_check_Inr: "bind_result r f = Inr b \<longleftrightarrow> is_ok r \<and> f () = Inr b" for r :: "('e, unit) result"
  by (cases r) simp_all

text \<open>\<open>Iterator::filter_map\<close>.\<close>

lemma map_filter_Cons [simp]:
  "List.map_filter f [] = []"
  "List.map_filter f (x # xs) = (case f x of None \<Rightarrow> List.map_filter f xs | Some y \<Rightarrow> y # List.map_filter f xs)"
  by (auto simp: List.map_filter_def split: option.splits)

lemma set_map_filter: "set (List.map_filter f xs) = {y. \<exists>x \<in> set xs. f x = Some y}"
  by (induction xs) (auto split: option.splits)

section \<open>Ordered maps (\<open>BTreeMap\<close>)\<close>

type_synonym ('k, 'v) btree = "('k \<times> 'v) list"

fun bt_insert :: "'k::linorder \<Rightarrow> 'v \<Rightarrow> ('k, 'v) btree \<Rightarrow> ('k, 'v) btree" where
  "bt_insert k v [] = [(k, v)]"
| "bt_insert k v ((k', v') # m) =
     (if k < k' then (k, v) # (k', v') # m
      else if k = k' then (k, v) # m
      else (k', v') # bt_insert k v m)"

definition bt_remove :: "'k \<Rightarrow> ('k, 'v) btree \<Rightarrow> ('k, 'v) btree" where
  "bt_remove k m = filter (\<lambda>p. fst p \<noteq> k) m"

text \<open>A map built by collecting key/value pairs: later pairs replace earlier ones.\<close>

definition bt_collect :: "('k::linorder \<times> 'v) list \<Rightarrow> ('k, 'v) btree" where
  "bt_collect ps = foldl (\<lambda>m (k, v). bt_insert k v m) [] ps"

definition bt_ok :: "('k::linorder, 'v) btree \<Rightarrow> bool" where
  "bt_ok m \<longleftrightarrow> sorted_wrt (<) (map fst m)"

lemma bt_ok_Nil [simp, bt_intros]: "bt_ok []"
  by (simp add: bt_ok_def)

lemma bt_ok_Cons [simp]:
  "bt_ok ((k, v) # m) \<longleftrightarrow> (\<forall>p \<in> set m. k < fst p) \<and> bt_ok m"
  by (auto simp: bt_ok_def)

lemma bt_ok_distinct: "bt_ok m \<Longrightarrow> distinct (map fst m)"
  unfolding bt_ok_def by (metis strict_sorted_iff)

lemma map_of_bt_insert [simp, bt_simps]: "map_of (bt_insert k v m) = (map_of m)(k \<mapsto> v)"
  by (induction k v m rule: bt_insert.induct) auto

lemma set_bt_insert_subset: "set (bt_insert k v m) \<subseteq> insert (k, v) (set m)"
  by (induction k v m rule: bt_insert.induct) auto

lemma fst_set_bt_insert [simp]: "fst ` set (bt_insert k v m) = insert k (fst ` set m)"
  by (induction k v m rule: bt_insert.induct) auto

lemma bt_ok_insert [simp, bt_intros]: "bt_ok m \<Longrightarrow> bt_ok (bt_insert k v m)"
proof (induction k v m rule: bt_insert.induct)
  case (2 k v k' v' m)
  have "\<forall>p \<in> set (bt_insert k v m). k' < fst p" if "k' < k"
    using 2 that set_bt_insert_subset [of k v m] by fastforce
  with 2 show ?case
    by auto
qed simp

lemma map_of_bt_remove [simp, bt_simps]: "map_of (bt_remove k m) = (map_of m)(k := None)"
  by (induction m) (auto simp: bt_remove_def fun_eq_iff)

lemma bt_ok_filter [bt_intros]: "bt_ok m \<Longrightarrow> bt_ok (filter P m)"
  by (induction m) auto

lemma bt_ok_remove [simp, bt_intros]: "bt_ok m \<Longrightarrow> bt_ok (bt_remove k m)"
  by (simp add: bt_remove_def bt_ok_filter)

lemma bt_get_iff: "bt_ok m \<Longrightarrow> map_of m k = Some v \<longleftrightarrow> (k, v) \<in> set m"
  by (simp add: bt_ok_distinct)

text \<open>Totals over the entries of a map change with one entry at a time.\<close>

definition bt_sum :: "('v \<Rightarrow> nat) \<Rightarrow> ('k, 'v) btree \<Rightarrow> nat" where
  "bt_sum f m = sum_list (map (\<lambda>(_, v). f v) m)"

lemma bt_sum_simps [simp]: "bt_sum f [] = 0" "bt_sum f ((k, v) # m) = f v + bt_sum f m"
  by (simp_all add: bt_sum_def)

lemma bt_sum_insert_new: "map_of m k = None \<Longrightarrow> bt_sum f (bt_insert k v m) = f v + bt_sum f m"
  by (induction k v m rule: bt_insert.induct) (auto split: if_splits)

lemma bt_sum_insert_old: "bt_ok m \<Longrightarrow> map_of m k = Some u \<Longrightarrow> bt_sum f (bt_insert k v m) + f u = f v + bt_sum f m"
proof (induction k v m rule: bt_insert.induct)
  case (2 k v k' v' m)
  have "\<not> k < k'"
  proof
    assume "k < k'"
    with "2.prems" have "(k, u) \<in> set m"
      by (auto split: if_splits dest: map_of_SomeD)
    with "2.prems"(1) \<open>k < k'\<close> show False
      by auto
  qed
  with 2 show ?case
    by auto
qed simp

lemma bt_sum_remove_absent: "map_of m k = None \<Longrightarrow> bt_sum f (bt_remove k m) = bt_sum f m"
  by (induction m) (auto simp: bt_remove_def split: if_splits)

lemma bt_sum_remove: "bt_ok m \<Longrightarrow> map_of m k = Some u \<Longrightarrow> bt_sum f (bt_remove k m) + f u = bt_sum f m"
proof (induction m)
  case (Cons p m)
  obtain k' v where p: "p = (k', v)" by fastforce
  show ?case
  proof (cases "k' = k")
    case True
    with Cons.prems(1) p have "map_of m k = None"
      by (auto simp: map_of_eq_None_iff)
    then have "bt_sum f (bt_remove k m) = bt_sum f m"
      by (rule bt_sum_remove_absent)
    with True Cons.prems(2) p show ?thesis
      by (simp add: bt_remove_def)
  next
    case False
    with Cons p show ?thesis
      by (simp add: bt_remove_def)
  qed
qed simp

lemma bt_sum_mono: "(\<And>k v. (k, v) \<in> set m \<Longrightarrow> f v \<le> g v) \<Longrightarrow> bt_sum f m \<le> bt_sum g m"
  unfolding bt_sum_def by (rule sum_list_mono) auto

lemma bt_sum_add: "bt_sum (\<lambda>v. f v + g v) m = bt_sum f m + bt_sum g m"
  by (induction m) auto

lemma bt_sum_member: "map_of m k = Some v \<Longrightarrow> f v \<le> bt_sum f m"
  by (induction m) (auto split: if_splits intro: trans_le_add2)

text \<open>Two well-formed maps with the same lookups are the same list.\<close>

lemma bt_ext:
  assumes "bt_ok m" and "bt_ok m'" and "map_of m = map_of m'"
  shows "m = m'"
  using assms
proof (induction m arbitrary: m')
  case Nil
  then show ?case
    by (cases m') (auto simp: fun_eq_iff split: if_splits)
next
  case (Cons p m)
  obtain k v where p: "p = (k, v)" by (cases p)
  have some: "map_of m' k = Some v"
    using Cons.prems(3) by (simp add: p fun_eq_iff) (metis)
  then obtain k' v' n where m': "m' = (k', v') # n"
    by (cases m') auto
  have "map_of ((k, v) # m) k' = Some v'"
    using Cons.prems(3) m' p by (metis map_of_Cons_code(2) )
  then have "k' = k \<or> k < k'"
    using Cons.prems(1) p by (auto dest!: map_of_SomeD split: if_splits)
  moreover have "k = k' \<or> k' < k"
    using Cons.prems(2) m' some by (auto dest!: map_of_SomeD split: if_splits)
  ultimately have kk: "k' = k" by auto
  then have vv: "v' = v" using some m' by simp
  have "map_of m = map_of n"
  proof
    fix x
    have "map_of m k = None" "map_of n k = None"
      using Cons.prems(1,2) p m' kk by (auto simp: map_of_eq_None_iff)
    then show "map_of m x = map_of n x"
      using fun_cong [OF Cons.prems(3), of x] p m' kk by (cases "x = k") auto
  qed
  with Cons.IH [of n] Cons.prems(1,2) p m' kk vv show ?case
    by simp
qed

text \<open>Updating the value stored at a key in place, as \<open>get_mut\<close> does.\<close>

definition bt_adjust :: "'k \<Rightarrow> ('v \<Rightarrow> 'v) \<Rightarrow> ('k, 'v) btree \<Rightarrow> ('k, 'v) btree" where
  "bt_adjust k f m = map (\<lambda>(k', v). (k', if k' = k then f v else v)) m"

lemma map_of_bt_adjust [simp, bt_simps]:
  "map_of (bt_adjust k f m) = (map_of m)(k := map_option f (map_of m k))"
  by (induction m) (auto simp: bt_adjust_def fun_eq_iff)

lemma map_fst_bt_adjust [simp]: "map fst (bt_adjust k f m) = map fst m"
  by (induction m) (auto simp: bt_adjust_def)

lemma bt_ok_adjust [simp, bt_intros]: "bt_ok (bt_adjust k f m) = bt_ok m"
  by (simp add: bt_ok_def)

lemma bt_ok_collect [simp, bt_intros]: "bt_ok (bt_collect ps)"
proof -
  have "bt_ok m \<Longrightarrow> bt_ok (foldl (\<lambda>m (k, v). bt_insert k v m) m ps)" for m :: "('a, 'b) btree"
    by (induction ps arbitrary: m) auto
  then show ?thesis
    by (simp add: bt_collect_def)
qed

lemma map_of_bt_collect: "map_of (bt_collect ps) = map_of (rev ps)"
proof -
  have "map_of (foldl (\<lambda>m (k, v). bt_insert k v m) m ps) = map_of m ++ map_of (rev ps)"
    for m :: "('a, 'b) btree"
    by (induction ps arbitrary: m) (auto simp: fun_eq_iff map_add_def split: option.splits)
  from this [of "[]"] show ?thesis
    by (simp add: bt_collect_def)
qed

text \<open>Lookups in two maps whose entries are related pairwise under equal keys.\<close>

lemma list_all2_map_of:
  assumes "list_all2 (\<lambda>p q. fst p = fst q \<and> R (fst p) (snd p) (snd q)) m m'"
  shows "rel_option (R k) (map_of m k) (map_of m' k)"
  using assms by (induction rule: list_all2_induct) auto

lemma list_all2_map_fst:
  "list_all2 (\<lambda>p q. fst p = fst q \<and> R (fst p) (snd p) (snd q)) m m' \<Longrightarrow> map fst m = map fst m'"
  by (induction rule: list_all2_induct) auto

section \<open>The contract of an ordered map\<close>

text \<open>
  What the components rely on when they hold a \<open>BTreeMap\<close>: lookups after every operation,
  iteration in ascending key order, and that the entries are exactly the lookups. The lemmas of
  the locale count entries and compare maps; they hold for every map that meets the contract.
\<close>

locale ordered_map =
  fixes empty :: "'m"
    and ins :: "'k::linorder \<Rightarrow> 'v \<Rightarrow> 'm \<Rightarrow> 'm"
    and rem :: "'k \<Rightarrow> 'm \<Rightarrow> 'm"
    and look :: "'m \<Rightarrow> 'k \<Rightarrow> 'v option"
    and entries :: "'m \<Rightarrow> ('k \<times> 'v) list"
    and ok :: "'m \<Rightarrow> bool"
  assumes look_empty: "look empty = Map.empty"
    and look_ins: "ok m \<Longrightarrow> look (ins k v m) = (look m)(k \<mapsto> v)"
    and look_rem: "ok m \<Longrightarrow> look (rem k m) = (look m)(k := None)"
    and ok_empty: "ok empty"
    and ok_ins: "ok m \<Longrightarrow> ok (ins k v m)"
    and ok_rem: "ok m \<Longrightarrow> ok (rem k m)"
    and entries_ascending: "ok m \<Longrightarrow> sorted_wrt (<) (map fst (entries m))"
    and entries_look: "ok m \<Longrightarrow> look m k = Some v \<longleftrightarrow> (k, v) \<in> set (entries m)"
    and look_inject: "ok m \<Longrightarrow> ok n \<Longrightarrow> look m = look n \<Longrightarrow> m = n"
begin

lemma ins_ins_same: "ok m \<Longrightarrow> ins k v (ins k u m) = ins k v m"
  by (rule look_inject) (simp_all add: look_ins ok_ins)

lemma ins_ins_swap: "ok m \<Longrightarrow> k \<noteq> l \<Longrightarrow> ins k v (ins l u m) = ins l u (ins k v m)"
  by (rule look_inject) (auto simp: look_ins ok_ins)

lemma rem_ins: "ok m \<Longrightarrow> look m k = None \<Longrightarrow> rem k (ins k v m) = m"
  by (rule look_inject) (auto simp: look_ins look_rem ok_ins ok_rem)

lemma ins_same: "ok m \<Longrightarrow> look m k = Some v \<Longrightarrow> ins k v m = m"
  by (rule look_inject) (auto simp: look_ins ok_ins)

lemma finite_matching: "ok m \<Longrightarrow> finite {k. \<exists>v. look m k = Some v \<and> P v}"
  by (rule finite_subset [of _ "fst ` set (entries m)"]) (force simp: entries_look)+

lemma count_entries:
  assumes "ok m"
  shows "length (filter (\<lambda>p. P (snd p)) (entries m)) = card {k. \<exists>v. look m k = Some v \<and> P v}"
proof -
  let ?f = "filter (\<lambda>p. P (snd p)) (entries m)"
  have "distinct (map fst (entries m))"
    using entries_ascending [OF assms] by (metis strict_sorted_iff)
  then have "distinct (map fst ?f)"
    by (rule distinct_map_filter)
  then have "length ?f = card (set (map fst ?f))"
    by (metis distinct_card length_map)
  also have "set (map fst ?f) = {k. \<exists>v. look m k = Some v \<and> P v}"
    using entries_look [OF assms] by force
  finally show ?thesis .
qed

lemma count_ins_new:
  assumes "ok m" and "look m k = None"
  shows "length (filter (\<lambda>p. P (snd p)) (entries (ins k v m)))
    = length (filter (\<lambda>p. P (snd p)) (entries m)) + of_bool (P v)"
proof -
  let ?A = "{l. \<exists>u. look m l = Some u \<and> P u}"
  have "{l. \<exists>u. look (ins k v m) l = Some u \<and> P u} = (if P v then insert k ?A else ?A)"
    using assms by (auto simp: look_ins)
  then show ?thesis
    using assms finite_matching [OF assms(1), of P]
    by (auto simp: count_entries ok_ins card_insert_if)
qed

lemma count_ins_upd:
  assumes "ok m" and "look m k = Some u"
  shows "length (filter (\<lambda>p. P (snd p)) (entries (ins k v m))) + of_bool (P u)
    = length (filter (\<lambda>p. P (snd p)) (entries m)) + of_bool (P v)"
proof -
  have "ins k v m = ins k v (rem k m)" and "m = ins k u (rem k m)"
    using assms by (auto intro!: look_inject simp: look_ins look_rem ok_ins ok_rem)
  moreover have "look (rem k m) k = None"
    using assms by (simp add: look_rem)
  ultimately show ?thesis
    using count_ins_new [of "rem k m" k P v] count_ins_new [of "rem k m" k P u] assms(1)
    by (simp add: ok_rem)
qed

end

interpretation bt: ordered_map "[]" bt_insert bt_remove map_of "\<lambda>m. m" bt_ok
  by unfold_locales (auto simp: bt_ok_def bt_get_iff [unfolded bt_ok_def] intro: bt_ext
      dest: bt_ok_insert [unfolded bt_ok_def] bt_ok_remove [unfolded bt_ok_def])

section \<open>Ordered sets (\<open>BTreeSet\<close>)\<close>

fun bs_insert :: "'a::linorder \<Rightarrow> 'a list \<Rightarrow> 'a list" where
  "bs_insert x [] = [x]"
| "bs_insert x (y # ys) =
     (if x < y then x # y # ys else if x = y then y # ys else y # bs_insert x ys)"

definition bs_remove :: "'a \<Rightarrow> 'a list \<Rightarrow> 'a list" where
  "bs_remove x xs = filter (\<lambda>y. y \<noteq> x) xs"

definition bs_ok :: "'a::linorder list \<Rightarrow> bool" where
  "bs_ok xs \<longleftrightarrow> sorted_wrt (<) xs"

lemma set_bs_insert [simp]: "set (bs_insert x xs) = insert x (set xs)"
  by (induction x xs rule: bs_insert.induct) auto

lemma set_bs_remove [simp]: "set (bs_remove x xs) = set xs - {x}"
  by (auto simp: bs_remove_def)

lemma bs_ok_simps [simp]: "bs_ok []" "bs_ok (x # xs) \<longleftrightarrow> (\<forall>y \<in> set xs. x < y) \<and> bs_ok xs"
  by (auto simp: bs_ok_def)

lemma bs_ok_insert [simp]: "bs_ok xs \<Longrightarrow> bs_ok (bs_insert x xs)"
  by (induction x xs rule: bs_insert.induct) auto

lemma bs_ok_filter: "bs_ok xs \<Longrightarrow> bs_ok (filter P xs)"
  by (induction xs) auto

lemma bs_ok_remove [simp]: "bs_ok xs \<Longrightarrow> bs_ok (bs_remove x xs)"
  by (simp add: bs_remove_def bs_ok_filter)

end
