(* ===== verification/Cluster_Node.thy ===== *)
theory Cluster_Node
  imports Rakka_Prelude
begin

text \<open>
  Cluster node identity, addressing and protocol compatibility
  (\<open>crates/rakka-cluster/src/node.rs\<close>): node ids with their textual form, the lexicographic
  version order, compatibility ranges and the descriptor a node advertises. Node ids are ordered
  as the derived \<open>Ord\<close> of the struct is, field by field; that order is the iteration order of
  every table keyed by node id.
\<close>

section \<open>Node ids\<close>

datatype node_id = NodeId (logical_id: string) (incarnation: string)

instantiation node_id :: linorder
begin

definition less_eq_node_id :: "node_id \<Rightarrow> node_id \<Rightarrow> bool" where
  "a \<le> b \<longleftrightarrow> (logical_id a, incarnation a) \<le> (logical_id b, incarnation b)"

definition less_node_id :: "node_id \<Rightarrow> node_id \<Rightarrow> bool" where
  "a < b \<longleftrightarrow> (logical_id a, incarnation a) < (logical_id b, incarnation b)"

instance
proof
  fix x y z :: node_id
  show "(x < y) = (x \<le> y \<and> \<not> y \<le> x)"
    unfolding less_eq_node_id_def less_node_id_def by (rule less_le_not_le)
  show "x \<le> x"
    unfolding less_eq_node_id_def less_node_id_def by (rule order_refl)
  show "x \<le> y \<Longrightarrow> y \<le> z \<Longrightarrow> x \<le> z"
    unfolding less_eq_node_id_def less_node_id_def by (rule order_trans)
  show "x \<le> y \<Longrightarrow> y \<le> x \<Longrightarrow> x = y"
    unfolding less_eq_node_id_def less_node_id_def by (rule node_id.expand) (auto dest: antisym)
  show "x \<le> y \<or> y \<le> x"
    unfolding less_eq_node_id_def less_node_id_def by (rule linear)
qed

end

definition node_id_display :: "node_id \<Rightarrow> string" where
  "node_id_display n = logical_id n @ ''#'' @ incarnation n"

datatype parse_node_id_error = ParseNodeIdError string

definition node_id_from_str :: "string \<Rightarrow> (parse_node_id_error, node_id) result" where
  "node_id_from_str v =
     (case split_once CHR ''#'' v of
        None \<Rightarrow> Inl (ParseNodeIdError v)
      | Some (l, i) \<Rightarrow>
          if l = [] \<or> i = [] then Inl (ParseNodeIdError v) else Inr (NodeId l i))"

section \<open>Addresses and protocol versions\<close>

record node_address =
  host :: string
  port :: u16

definition endpoint :: "node_address \<Rightarrow> string" where
  "endpoint a = host a @ '':'' @ show_nat (unat (port a))"

datatype protocol_version = ProtocolVersion (major: u16) (minor: u16)

instantiation protocol_version :: linorder
begin

definition less_eq_protocol_version :: "protocol_version \<Rightarrow> protocol_version \<Rightarrow> bool" where
  "a \<le> b \<longleftrightarrow> (major a, minor a) \<le> (major b, minor b)"

definition less_protocol_version :: "protocol_version \<Rightarrow> protocol_version \<Rightarrow> bool" where
  "a < b \<longleftrightarrow> (major a, minor a) < (major b, minor b)"

instance
proof
  fix x y z :: protocol_version
  show "(x < y) = (x \<le> y \<and> \<not> y \<le> x)"
    unfolding less_eq_protocol_version_def less_protocol_version_def by (rule less_le_not_le)
  show "x \<le> x"
    unfolding less_eq_protocol_version_def less_protocol_version_def by (rule order_refl)
  show "x \<le> y \<Longrightarrow> y \<le> z \<Longrightarrow> x \<le> z"
    unfolding less_eq_protocol_version_def less_protocol_version_def by (rule order_trans)
  show "x \<le> y \<Longrightarrow> y \<le> x \<Longrightarrow> x = y"
    unfolding less_eq_protocol_version_def less_protocol_version_def by (rule protocol_version.expand) (auto dest: antisym)
  show "x \<le> y \<or> y \<le> x"
    unfolding less_eq_protocol_version_def less_protocol_version_def by (rule linear)
qed

end

datatype compatibility_range = CompatibilityRange (min_version: protocol_version) (max_version: protocol_version)

definition range_exact :: "protocol_version \<Rightarrow> compatibility_range" where
  "range_exact v = CompatibilityRange v v"

definition range_n_to_n_plus_one :: "u16 \<Rightarrow> u16 \<Rightarrow> compatibility_range" where
  "range_n_to_n_plus_one mj mn =
     CompatibilityRange (ProtocolVersion mj mn) (ProtocolVersion mj (sat_add mn 1))"

definition range_contains :: "compatibility_range \<Rightarrow> protocol_version \<Rightarrow> bool" where
  "range_contains r v \<longleftrightarrow> min_version r \<le> v \<and> v \<le> max_version r"

datatype cluster_protocol = ClusterProtocol (version: protocol_version) (compatible_with: compatibility_range)

definition protocol_exact :: "protocol_version \<Rightarrow> cluster_protocol" where
  "protocol_exact v = ClusterProtocol v (range_exact v)"

definition protocol_n_to_n_plus_one :: "protocol_version \<Rightarrow> u16 \<Rightarrow> cluster_protocol" where
  "protocol_n_to_n_plus_one v base_minor =
     ClusterProtocol v (range_n_to_n_plus_one (major v) base_minor)"

definition is_compatible_with :: "cluster_protocol \<Rightarrow> cluster_protocol \<Rightarrow> bool" where
  "is_compatible_with a b \<longleftrightarrow>
     range_contains (compatible_with a) (version b) \<and> range_contains (compatible_with b) (version a)"

definition protocol_v1 :: cluster_protocol where
  "protocol_v1 = ClusterProtocol (ProtocolVersion 1 0) (range_n_to_n_plus_one 1 0)"

section \<open>Node descriptors\<close>

record cluster_node =
  cn_id :: node_id
  cn_address :: node_address
  cn_roles :: "string list"
  cn_protocol :: cluster_protocol

definition cluster_node_new :: "node_id \<Rightarrow> node_address \<Rightarrow> cluster_node" where
  "cluster_node_new i a = \<lparr>cn_id = i, cn_address = a, cn_roles = [], cn_protocol = protocol_v1\<rparr>"

definition with_role :: "cluster_node \<Rightarrow> string \<Rightarrow> cluster_node" where
  "with_role n role = n\<lparr>cn_roles := bs_insert role (cn_roles n)\<rparr>"

definition with_address :: "cluster_node \<Rightarrow> node_address \<Rightarrow> cluster_node" where
  "with_address n a = n\<lparr>cn_address := a\<rparr>"

definition with_protocol :: "cluster_node \<Rightarrow> cluster_protocol \<Rightarrow> cluster_node" where
  "with_protocol n p = n\<lparr>cn_protocol := p\<rparr>"

section \<open>Facts\<close>

lemma range_window:
  "range_contains (range_n_to_n_plus_one mj b) (ProtocolVersion mj' v)
     \<longleftrightarrow> mj' = mj \<and> (v = b \<or> v = sat_add b 1)"
proof (cases "b = - 1")
  case True
  then have "sat_add b 1 = b"
    by (simp add: sat_add_def unat_max_word)
  then show ?thesis
    by (auto simp: range_contains_def range_n_to_n_plus_one_def less_eq_protocol_version_def)
next
  case False
  then have s: "unat (b + 1) = Suc (unat b)"
    by (rule unat_Suc_word)
  then have "Suc (unat b) < 2 ^ 16"
    using unat_less_two_power [of "b + 1"] by simp
  then have "sat_add b 1 = b + 1"
    by (simp add: sat_add_def)
  moreover have "b \<le> v \<and> v \<le> b + 1 \<longleftrightarrow> v = b \<or> v = b + 1"
    using s by (auto simp: word_le_nat_alt word_unat_eq_iff)
  ultimately show ?thesis
    by (auto simp: range_contains_def range_n_to_n_plus_one_def less_eq_protocol_version_def)
qed

text \<open>C30: A node id string parses exactly when it is the rendering of a node id whose two
  parts are non-empty and whose logical id does not contain the separator \<open>#\<close>, and it then parses to that id.\<close>

theorem node_id_parse_iff_display:
  "node_id_from_str v = Inr n \<longleftrightarrow>
     v = node_id_display n \<and> logical_id n \<noteq> [] \<and> incarnation n \<noteq> [] \<and> CHR ''#'' \<notin> set (logical_id n)"
proof (cases "split_once CHR ''#'' v")
  case None
  then have "CHR ''#'' \<notin> set v"
    by (simp add: split_once_None)
  with None show ?thesis
    by (auto simp: node_id_from_str_def node_id_display_def)
next
  case (Some p)
  then obtain l i where "split_once CHR ''#'' v = Some (l, i)"
    by (cases p) simp
  moreover from this have "v = l @ CHR ''#'' # i" and "CHR ''#'' \<notin> set l"
    by (simp_all add: split_once_Some)
  moreover have "split_once CHR ''#'' v = Some (logical_id n, incarnation n)
      \<longleftrightarrow> v = node_id_display n \<and> CHR ''#'' \<notin> set (logical_id n)"
    by (simp add: split_once_Some node_id_display_def)
  ultimately show ?thesis
    by (cases n) (auto simp: node_id_from_str_def)
qed

text \<open>C31: Two nodes that use the rolling-update window are compatible exactly when they run the
  same major version and each one's minor version is the base minor of the other or the next one.\<close>

theorem rolling_update_window:
  "is_compatible_with (protocol_n_to_n_plus_one (ProtocolVersion m v) b)
      (protocol_n_to_n_plus_one (ProtocolVersion m' v') b') \<longleftrightarrow>
     m = m' \<and> (v' = b \<or> v' = sat_add b 1) \<and> (v = b' \<or> v = sat_add b' 1)"
  by (auto simp: is_compatible_with_def protocol_n_to_n_plus_one_def range_window)

lemma is_compatible_with_sym: "is_compatible_with a b = is_compatible_with b a"
  by (auto simp: is_compatible_with_def)

end
