(* ===== verification/Cluster_Discovery.thy ===== *)
theory Cluster_Discovery
  imports Cluster_Node
begin

text \<open>
  Discovery snapshots and the two providers of the crate
  (\<open>crates/rakka-cluster/src/discovery.rs\<close>). A snapshot keeps one descriptor per node id, in
  node-id order. The local registry is guarded by a read/write lock; a poisoned lock makes every
  operation fail, which the model keeps as the field \<open>ld_poison\<close>.
\<close>

section \<open>Errors of the cluster crate\<close>

datatype membership_state = Joining | Up | Leaving | Unreachable | Down | Removed

datatype cluster_error =
    UnknownNode node_id
  | InvalidTransition node_id membership_state membership_state
  | IncompatibleNode node_id cluster_protocol cluster_protocol
  | Discovery string string
  | ClusterReceptionist string
  | ReceptionistListingTooLarge string nat nat

section \<open>Snapshots\<close>

record discovery_snapshot =
  ds_provider :: string
  ds_observed_at_millis :: u64
  ds_nodes :: "cluster_node list"

definition discovery_snapshot_new :: "string \<Rightarrow> u64 \<Rightarrow> cluster_node list \<Rightarrow> discovery_snapshot" where
  "discovery_snapshot_new provider observed_at_millis nodes =
     \<lparr>ds_provider = provider, ds_observed_at_millis = observed_at_millis,
      ds_nodes = map snd (bt_collect (map (\<lambda>node. (cn_id node, node)) nodes))\<rparr>"

section \<open>Providers\<close>

record static_discovery =
  sd_provider :: string
  sd_nodes :: "cluster_node list"

definition static_discovery_new :: "cluster_node list \<Rightarrow> static_discovery" where
  "static_discovery_new nodes = \<lparr>sd_provider = ''static'', sd_nodes = nodes\<rparr>"

definition static_discover :: "static_discovery \<Rightarrow> u64 \<Rightarrow> (cluster_error, discovery_snapshot) result" where
  "static_discover d observed_at_millis =
     Inr (discovery_snapshot_new (sd_provider d) observed_at_millis (sd_nodes d))"

record local_discovery =
  ld_provider :: string
  ld_nodes :: "(node_id, cluster_node) btree"
  ld_poison :: "string option"

definition local_discovery_new :: local_discovery where
  "local_discovery_new = \<lparr>ld_provider = ''local'', ld_nodes = [], ld_poison = None\<rparr>"

definition lock_nodes :: "local_discovery \<Rightarrow> (cluster_error, (node_id, cluster_node) btree) result" where
  "lock_nodes d =
     (case ld_poison d of Some message \<Rightarrow> Inl (Discovery (ld_provider d) message) | None \<Rightarrow> Inr (ld_nodes d))"

definition local_register ::
  "local_discovery \<Rightarrow> cluster_node \<Rightarrow> (cluster_error, unit) result \<times> local_discovery" where
  "local_register d node =
     (case lock_nodes d of
        Inl e \<Rightarrow> (Inl e, d)
      | Inr nodes \<Rightarrow> (Inr (), d\<lparr>ld_nodes := bt_insert (cn_id node) node nodes\<rparr>))"

definition local_unregister ::
  "local_discovery \<Rightarrow> node_id \<Rightarrow> (cluster_error, cluster_node option) result \<times> local_discovery" where
  "local_unregister d i =
     (case lock_nodes d of
        Inl e \<Rightarrow> (Inl e, d)
      | Inr nodes \<Rightarrow> (Inr (map_of nodes i), d\<lparr>ld_nodes := bt_remove i nodes\<rparr>))"

definition local_discover :: "local_discovery \<Rightarrow> u64 \<Rightarrow> (cluster_error, discovery_snapshot) result" where
  "local_discover d observed_at_millis =
     (case lock_nodes d of
        Inl e \<Rightarrow> Inl e
      | Inr nodes \<Rightarrow> Inr (discovery_snapshot_new (ld_provider d) observed_at_millis (map snd nodes)))"

section \<open>Facts\<close>

definition snapshot_ok :: "discovery_snapshot \<Rightarrow> bool" where
  "snapshot_ok s \<longleftrightarrow> sorted_wrt (<) (map cn_id (ds_nodes s))"

lemma collect_by_id:
  "\<forall>p \<in> set (bt_collect (map (\<lambda>node. (cn_id node, node)) nodes)). fst p = cn_id (snd p)"
proof -
  let ?ps = "map (\<lambda>node. (cn_id node, node)) nodes"
  have "p \<in> set ?ps" if "p \<in> set (bt_collect ?ps)" for p
  proof -
    from that have "map_of (bt_collect ?ps) (fst p) = Some (snd p)"
      by (simp add: bt_get_iff)
    then have "map_of (rev ?ps) (fst p) = Some (snd p)"
      by (simp add: map_of_bt_collect)
    then show ?thesis
      by (metis map_of_SomeD prod.collapse set_rev)
  qed
  then show ?thesis
    by fastforce
qed

lemma snapshot_ids: "map cn_id (ds_nodes (discovery_snapshot_new p t nodes))
    = map fst (bt_collect (map (\<lambda>node. (cn_id node, node)) nodes))"
  using collect_by_id [of nodes] by (auto simp: discovery_snapshot_new_def)

lemma snapshot_new_ok: "snapshot_ok (discovery_snapshot_new p t nodes)"
  unfolding snapshot_ok_def snapshot_ids using bt_ok_collect bt_ok_def by blast

lemma snapshot_distinct: "snapshot_ok s \<Longrightarrow> distinct (map cn_id (ds_nodes s))"
  unfolding snapshot_ok_def by (metis strict_sorted_iff)

end
