(* ===== verification/Cluster_Membership.thy ===== *)
theory Cluster_Membership
  imports Cluster_Discovery
begin

text \<open>
  The membership table and failure detector (\<open>crates/rakka-cluster/src/membership.rs\<close>). The
  table maps node ids to member records in node-id order and counts its changes in a revision.
  Every operation takes the table and returns its result together with the new table: on an error
  the code may already have changed the table, and the model keeps that change.

  Counters and timestamps are 64-bit words; \<open>self.revision += 1\<close> wraps as it does in a release
  build.
\<close>

section \<open>State\<close>

definition membership_state_as_str :: "membership_state \<Rightarrow> string" where
  "membership_state_as_str s =
     (case s of Joining \<Rightarrow> ''joining'' | Up \<Rightarrow> ''up'' | Leaving \<Rightarrow> ''leaving''
      | Unreachable \<Rightarrow> ''unreachable'' | Down \<Rightarrow> ''down'' | Removed \<Rightarrow> ''removed'')"

record membership_config =
  min_contact_points :: nat
  failure_timeout :: duration
  down_after_unreachable :: duration

definition default_membership_config :: membership_config where
  "default_membership_config =
     \<lparr>min_contact_points = 1, failure_timeout = 10000, down_after_unreachable = 30000\<rparr>"

record member_record =
  mr_node :: cluster_node
  mr_state :: membership_state
  mr_last_seen_millis :: u64
  mr_revision :: u64

datatype membership_event =
    MemberDiscovered node_id
  | MemberUp node_id
  | MemberReachable node_id
  | MemberLeaving node_id
  | MemberUnreachable node_id
  | MemberDown node_id
  | MemberRemoved node_id

fun event_node_id :: "membership_event \<Rightarrow> node_id" where
  "event_node_id (MemberDiscovered n) = n"
| "event_node_id (MemberUp n) = n"
| "event_node_id (MemberReachable n) = n"
| "event_node_id (MemberLeaving n) = n"
| "event_node_id (MemberUnreachable n) = n"
| "event_node_id (MemberDown n) = n"
| "event_node_id (MemberRemoved n) = n"

record membership_snapshot =
  ms_revision :: u64
  ms_members :: "member_record list"

record cluster_membership =
  cm_config :: membership_config
  cm_local_node_id :: node_id
  cm_members :: "(node_id, member_record) btree"
  cm_revision :: u64

definition membership_new :: "cluster_node \<Rightarrow> membership_config \<Rightarrow> cluster_membership" where
  "membership_new local_node config =
     \<lparr>cm_config = config, cm_local_node_id = cn_id local_node,
      cm_members = bt_insert (cn_id local_node)
        \<lparr>mr_node = local_node, mr_state = Joining, mr_last_seen_millis = 0, mr_revision = 0\<rparr> [],
      cm_revision = 0\<rparr>"

section \<open>Queries\<close>

definition membership_member :: "cluster_membership \<Rightarrow> node_id \<Rightarrow> member_record option" where
  "membership_member m n = map_of (cm_members m) n"

definition routable_members :: "cluster_membership \<Rightarrow> member_record list" where
  "routable_members m = filter (\<lambda>r. mr_state r = Up) (map snd (cm_members m))"

definition has_min_contact_points :: "cluster_membership \<Rightarrow> bool" where
  "has_min_contact_points m \<longleftrightarrow>
     min_contact_points (cm_config m)
       \<le> length (filter (\<lambda>r. mr_state r \<noteq> Down \<and> mr_state r \<noteq> Removed) (map snd (cm_members m)))"

definition membership_take_snapshot :: "cluster_membership \<Rightarrow> membership_snapshot" where
  "membership_take_snapshot m = \<lparr>ms_revision = cm_revision m, ms_members = map snd (cm_members m)\<rparr>"

record operational_snapshot =
  os_local_node_id :: node_id
  os_revision :: u64
  os_total_members :: nat
  os_states :: "(membership_state \<times> nat) list"

definition operational_snapshot_new ::
  "node_id \<Rightarrow> u64 \<Rightarrow> (membership_state \<times> nat) list \<Rightarrow> operational_snapshot" where
  "operational_snapshot_new local_node_id revision states =
     \<lparr>os_local_node_id = local_node_id, os_revision = revision,
      os_total_members = sum_list (map snd states), os_states = states\<rparr>"

definition membership_operational_snapshot :: "cluster_membership \<Rightarrow> operational_snapshot" where
  "membership_operational_snapshot m =
     (let states = List.map_filter
            (\<lambda>s. let c = length (filter (\<lambda>r. mr_state r = s) (map snd (cm_members m)))
                 in if 0 < c then Some (s, c) else None)
            [Joining, Up, Leaving, Unreachable, Down, Removed]
      in operational_snapshot_new (cm_local_node_id m) (cm_revision m) states)"

section \<open>State changes\<close>

definition membership_transition ::
  "cluster_membership \<Rightarrow> node_id \<Rightarrow> u64 \<Rightarrow> membership_state \<Rightarrow> (membership_state \<Rightarrow> bool)
     \<Rightarrow> (node_id \<Rightarrow> membership_event)
     \<Rightarrow> (cluster_error, membership_event option) result \<times> cluster_membership" where
  "membership_transition m n now to is_allowed event =
     (case map_of (cm_members m) n of
        None \<Rightarrow> (Inl (UnknownNode n), m)
      | Some r \<Rightarrow>
          if mr_state r = to
          then (Inr None, m\<lparr>cm_members := bt_adjust n (\<lambda>r. r\<lparr>mr_last_seen_millis := now\<rparr>) (cm_members m)\<rparr>)
          else if \<not> is_allowed (mr_state r)
          then (Inl (InvalidTransition n (mr_state r) to), m)
          else
            (let rev = cm_revision m + 1
             in (Inr (Some (event n)),
                 m\<lparr>cm_members := bt_adjust n
                     (\<lambda>r. r\<lparr>mr_state := to, mr_last_seen_millis := now, mr_revision := rev\<rparr>) (cm_members m),
                   cm_revision := rev\<rparr>)))"

definition mark_up :: "cluster_membership \<Rightarrow> node_id \<Rightarrow> u64
    \<Rightarrow> (cluster_error, membership_event option) result \<times> cluster_membership" where
  "mark_up m n now = membership_transition m n now Up (\<lambda>s. s = Joining \<or> s = Unreachable) MemberUp"

definition mark_leaving :: "cluster_membership \<Rightarrow> node_id \<Rightarrow> u64
    \<Rightarrow> (cluster_error, membership_event option) result \<times> cluster_membership" where
  "mark_leaving m n now = membership_transition m n now Leaving (\<lambda>s. s = Joining \<or> s = Up) MemberLeaving"

definition mark_unreachable :: "cluster_membership \<Rightarrow> node_id \<Rightarrow> u64
    \<Rightarrow> (cluster_error, membership_event option) result \<times> cluster_membership" where
  "mark_unreachable m n now =
     membership_transition m n now Unreachable (\<lambda>s. s = Joining \<or> s = Up) MemberUnreachable"

definition leave_local :: "cluster_membership \<Rightarrow> u64
    \<Rightarrow> (cluster_error, membership_event option) result \<times> cluster_membership" where
  "leave_local m now = mark_leaving m (cm_local_node_id m) now"

definition mark_down :: "cluster_membership \<Rightarrow> node_id \<Rightarrow> u64
    \<Rightarrow> (cluster_error, membership_event option) result \<times> cluster_membership" where
  "mark_down m n now = membership_transition m n now Down (\<lambda>s. s \<noteq> Removed) MemberDown"

definition membership_remove :: "cluster_membership \<Rightarrow> node_id \<Rightarrow> u64
    \<Rightarrow> (cluster_error, membership_event option) result \<times> cluster_membership" where
  "membership_remove m n now =
     membership_transition m n now Removed (\<lambda>s. s = Leaving \<or> s = Down) MemberRemoved"

definition heartbeat :: "cluster_membership \<Rightarrow> node_id \<Rightarrow> u64
    \<Rightarrow> (cluster_error, membership_event option) result \<times> cluster_membership" where
  "heartbeat m n now =
     (case map_of (cm_members m) n of
        None \<Rightarrow> (Inl (UnknownNode n), m)
      | Some r \<Rightarrow>
          if mr_state r = Down \<or> mr_state r = Removed
          then (Inl (InvalidTransition n (mr_state r) Up), m)
          else if mr_state r = Unreachable
          then
            (let rev = cm_revision m + 1
             in (Inr (Some (MemberReachable n)),
                 m\<lparr>cm_members := bt_adjust n
                     (\<lambda>r. r\<lparr>mr_last_seen_millis := now, mr_state := Up, mr_revision := rev\<rparr>) (cm_members m),
                   cm_revision := rev\<rparr>))
          else (Inr None, m\<lparr>cm_members := bt_adjust n (\<lambda>r. r\<lparr>mr_last_seen_millis := now\<rparr>) (cm_members m)\<rparr>))"

section \<open>Discovery\<close>

definition local_member :: "cluster_membership \<Rightarrow> (cluster_error, member_record) result" where
  "local_member m =
     (case map_of (cm_members m) (cm_local_node_id m) of
        None \<Rightarrow> Inl (UnknownNode (cm_local_node_id m)) | Some r \<Rightarrow> Inr r)"

definition update_local_descriptor ::
  "cluster_membership \<Rightarrow> cluster_node \<Rightarrow> u64 \<Rightarrow> (cluster_error, unit) result \<times> cluster_membership" where
  "update_local_descriptor m node now =
     (case map_of (cm_members m) (cm_local_node_id m) of
        None \<Rightarrow> (Inl (UnknownNode (cm_local_node_id m)), m)
      | Some r \<Rightarrow>
          (Inr (), m\<lparr>cm_members := bt_adjust (cm_local_node_id m)
             (\<lambda>r. r\<lparr>mr_node := node, mr_last_seen_millis := now\<rparr>) (cm_members m)\<rparr>))"

text \<open>One discovered node that is not the local one: refresh a known record or add a new one.\<close>

definition observe_remote ::
  "cluster_membership \<Rightarrow> cluster_node \<Rightarrow> u64 \<Rightarrow> membership_event list \<times> cluster_membership" where
  "observe_remote m node now =
     (case map_of (cm_members m) (cn_id node) of
        Some r \<Rightarrow>
          if mr_state r = Down \<or> mr_state r = Removed
          then ([], m\<lparr>cm_members := bt_adjust (cn_id node) (\<lambda>r. r\<lparr>mr_node := node\<rparr>) (cm_members m)\<rparr>)
          else if mr_state r = Unreachable
          then
            (let rev = cm_revision m + 1
             in ([MemberReachable (cn_id node)],
                 m\<lparr>cm_members := bt_adjust (cn_id node)
                     (\<lambda>r. r\<lparr>mr_node := node, mr_last_seen_millis := now, mr_state := Up, mr_revision := rev\<rparr>)
                     (cm_members m),
                   cm_revision := rev\<rparr>))
          else ([], m\<lparr>cm_members := bt_adjust (cn_id node)
                  (\<lambda>r. r\<lparr>mr_node := node, mr_last_seen_millis := now\<rparr>) (cm_members m)\<rparr>)
      | None \<Rightarrow>
          (let rev = cm_revision m + 1
           in ([MemberDiscovered (cn_id node)],
               m\<lparr>cm_members := bt_insert (cn_id node)
                   \<lparr>mr_node = node, mr_state = Joining, mr_last_seen_millis = now, mr_revision = rev\<rparr>
                   (cm_members m),
                 cm_revision := rev\<rparr>)))"

fun discover_nodes ::
  "cluster_protocol \<Rightarrow> u64 \<Rightarrow> cluster_membership \<Rightarrow> membership_event list \<Rightarrow> cluster_node list
     \<Rightarrow> (cluster_error, membership_event list) result \<times> cluster_membership" where
  "discover_nodes local_protocol now m events [] = (Inr events, m)"
| "discover_nodes local_protocol now m events (node # nodes) =
     (if \<not> is_compatible_with local_protocol (cn_protocol node)
      then (Inl (IncompatibleNode (cn_id node) local_protocol (cn_protocol node)), m)
      else if cn_id node = cm_local_node_id m
      then (case update_local_descriptor m node now of
              (Inl e, m') \<Rightarrow> (Inl e, m')
            | (Inr _, m') \<Rightarrow> discover_nodes local_protocol now m' events nodes)
      else (case observe_remote m node now of
              (new_events, m') \<Rightarrow> discover_nodes local_protocol now m' (events @ new_events) nodes))"

definition record_discovery ::
  "cluster_membership \<Rightarrow> discovery_snapshot
     \<Rightarrow> (cluster_error, membership_event list) result \<times> cluster_membership" where
  "record_discovery m s =
     (case local_member m of
        Inl e \<Rightarrow> (Inl e, m)
      | Inr r \<Rightarrow> discover_nodes (cn_protocol (mr_node r)) (ds_observed_at_millis s) m [] (ds_nodes s))"

section \<open>Failure detection\<close>

fun tick_members ::
  "node_id \<Rightarrow> u64 \<Rightarrow> u64 \<Rightarrow> u64 \<Rightarrow> u64 \<Rightarrow> (node_id, member_record) btree
     \<Rightarrow> membership_event list \<times> u64 \<times> (node_id, member_record) btree" where
  "tick_members local_id fail_ms down_ms now revn [] = ([], revn, [])"
| "tick_members local_id fail_ms down_ms now revn ((n, r) # rest) =
     (if n = local_id
      then (case tick_members local_id fail_ms down_ms now revn rest of
              (es, revn', rest') \<Rightarrow> (es, revn', (n, r) # rest'))
      else if (mr_state r = Joining \<or> mr_state r = Up) \<and> fail_ms \<le> sat_sub now (mr_last_seen_millis r)
      then (case tick_members local_id fail_ms down_ms now (revn + 1) rest of
              (es, revn', rest') \<Rightarrow>
                (MemberUnreachable n # es, revn',
                 (n, r\<lparr>mr_state := Unreachable, mr_revision := revn + 1\<rparr>) # rest'))
      else if mr_state r = Unreachable \<and> down_ms \<le> sat_sub now (mr_last_seen_millis r)
      then (case tick_members local_id fail_ms down_ms now (revn + 1) rest of
              (es, revn', rest') \<Rightarrow>
                (MemberDown n # es, revn',
                 (n, r\<lparr>mr_state := Down, mr_revision := revn + 1\<rparr>) # rest'))
      else (case tick_members local_id fail_ms down_ms now revn rest of
              (es, revn', rest') \<Rightarrow> (es, revn', (n, r) # rest')))"

definition membership_tick :: "cluster_membership \<Rightarrow> u64 \<Rightarrow> membership_event list \<times> cluster_membership" where
  "membership_tick m now =
     (let fail_ms = millis_u64 (failure_timeout (cm_config m));
          down_ms = sat_add fail_ms (millis_u64 (down_after_unreachable (cm_config m)))
      in case tick_members (cm_local_node_id m) fail_ms down_ms now (cm_revision m) (cm_members m) of
           (es, revn, ms) \<Rightarrow> (es, m\<lparr>cm_members := ms, cm_revision := revn\<rparr>))"

section \<open>The life cycle of a member\<close>

fun lifecycle :: "membership_state \<Rightarrow> membership_state \<Rightarrow> bool" where
  "lifecycle Joining s = (s = Up \<or> s = Leaving \<or> s = Unreachable \<or> s = Down)"
| "lifecycle Up s = (s = Leaving \<or> s = Unreachable \<or> s = Down)"
| "lifecycle Leaving s = (s = Down \<or> s = Removed)"
| "lifecycle Unreachable s = (s = Up \<or> s = Down)"
| "lifecycle Down s = (s = Removed)"
| "lifecycle Removed s = False"

inductive membership_step :: "cluster_membership \<Rightarrow> cluster_membership \<Rightarrow> bool" where
  step_discovery: "membership_step m (snd (record_discovery m s))"
| step_up: "membership_step m (snd (mark_up m n t))"
| step_heartbeat: "membership_step m (snd (heartbeat m n t))"
| step_leaving: "membership_step m (snd (mark_leaving m n t))"
| step_unreachable: "membership_step m (snd (mark_unreachable m n t))"
| step_leave_local: "membership_step m (snd (leave_local m t))"
| step_down: "membership_step m (snd (mark_down m n t))"
| step_remove: "membership_step m (snd (membership_remove m n t))"
| step_tick: "membership_step m (snd (membership_tick m t))"

text \<open>The requests of the table as one operation, with the events each one reports.\<close>

datatype membership_request =
    ReqDiscovery discovery_snapshot
  | ReqUp node_id u64
  | ReqHeartbeat node_id u64
  | ReqLeaving node_id u64
  | ReqUnreachable node_id u64
  | ReqLeaveLocal u64
  | ReqDown node_id u64
  | ReqRemove node_id u64
  | ReqTick u64

definition event_list :: "(cluster_error, membership_event option) result \<times> cluster_membership
    \<Rightarrow> (cluster_error, membership_event list) result \<times> cluster_membership" where
  "event_list x = map_prod (map_sum id (\<lambda>e. case e of None \<Rightarrow> [] | Some e \<Rightarrow> [e])) id x"

fun membership_serve :: "cluster_membership \<Rightarrow> membership_request
    \<Rightarrow> (cluster_error, membership_event list) result \<times> cluster_membership" where
  "membership_serve m (ReqDiscovery s) = record_discovery m s"
| "membership_serve m (ReqUp n t) = event_list (mark_up m n t)"
| "membership_serve m (ReqHeartbeat n t) = event_list (heartbeat m n t)"
| "membership_serve m (ReqLeaving n t) = event_list (mark_leaving m n t)"
| "membership_serve m (ReqUnreachable n t) = event_list (mark_unreachable m n t)"
| "membership_serve m (ReqLeaveLocal t) = event_list (leave_local m t)"
| "membership_serve m (ReqDown n t) = event_list (mark_down m n t)"
| "membership_serve m (ReqRemove n t) = event_list (membership_remove m n t)"
| "membership_serve m (ReqTick t) = (case membership_tick m t of (es, m') \<Rightarrow> (Inr es, m'))"

text \<open>How one table may become another: no member is lost, and every state moves along the life
  cycle.\<close>

definition evolves :: "cluster_membership \<Rightarrow> cluster_membership \<Rightarrow> bool" where
  "evolves m m' \<longleftrightarrow> cm_local_node_id m' = cm_local_node_id m \<and>
     (\<forall>n r. map_of (cm_members m) n = Some r \<longrightarrow>
        (\<exists>r'. map_of (cm_members m') n = Some r' \<and> lifecycle\<^sup>*\<^sup>* (mr_state r) (mr_state r')))"

definition membership_ok :: "cluster_membership \<Rightarrow> bool" where
  "membership_ok m \<longleftrightarrow> bt_ok (cm_members m)
     \<and> (\<forall>n r. map_of (cm_members m) n = Some r \<longrightarrow> cn_id (mr_node r) = n)
     \<and> map_of (cm_members m) (cm_local_node_id m) \<noteq> None"

lemma evolves_refl [simp]: "evolves m m"
  by (auto simp: evolves_def)

lemma evolves_trans: "evolves a b \<Longrightarrow> evolves b c \<Longrightarrow> evolves a c"
  unfolding evolves_def by (metis rtranclp_trans)

text \<open>A table whose records are changed in place under one key.\<close>

lemma evolves_adjust:
  assumes "\<And>r. map_of (cm_members m) n = Some r \<Longrightarrow> lifecycle\<^sup>*\<^sup>* (mr_state r) (mr_state (f r))"
  shows "evolves m (m\<lparr>cm_members := bt_adjust n f (cm_members m)\<rparr>)"
    and "evolves m (m\<lparr>cm_members := bt_adjust n f (cm_members m), cm_revision := v\<rparr>)"
  using assms by (auto simp: evolves_def)

lemma membership_ok_adjust:
  assumes "membership_ok m" and "\<And>r. map_of (cm_members m) n = Some r \<Longrightarrow> cn_id (mr_node (f r)) = n"
  shows "membership_ok (m\<lparr>cm_members := bt_adjust n f (cm_members m)\<rparr>)"
    and "membership_ok (m\<lparr>cm_members := bt_adjust n f (cm_members m), cm_revision := v\<rparr>)"
  using assms by (auto simp: membership_ok_def)

lemma transition_evolves:
  assumes "\<And>s. s \<noteq> to \<Longrightarrow> is_allowed s \<Longrightarrow> lifecycle s to"
  shows "evolves m (snd (membership_transition m n t to is_allowed event))"
  using assms
  by (auto simp: membership_transition_def Let_def split: option.splits
      intro!: evolves_adjust intro: r_into_rtranclp)

lemma transition_ok:
  "membership_ok m \<Longrightarrow> membership_ok (snd (membership_transition m n t to is_allowed event))"
  by (auto simp: membership_transition_def Let_def membership_ok_def split: option.splits)

lemma lifecycle_Down: "s \<noteq> Down \<Longrightarrow> s \<noteq> Removed \<Longrightarrow> lifecycle s Down"
  by (cases s) auto

lemmas transition_defs = mark_up_def mark_leaving_def mark_unreachable_def leave_local_def
  mark_down_def membership_remove_def

lemma heartbeat_evolves: "evolves m (snd (heartbeat m n t))"
  by (auto simp: heartbeat_def Let_def split: option.splits intro!: evolves_adjust intro: r_into_rtranclp)

lemma heartbeat_ok: "membership_ok m \<Longrightarrow> membership_ok (snd (heartbeat m n t))"
  by (auto simp: heartbeat_def Let_def membership_ok_def split: option.splits)

lemma observe_remote_evolves: "evolves m (snd (observe_remote m node t))"
  by (auto simp: observe_remote_def Let_def split: option.splits
      intro!: evolves_adjust intro: r_into_rtranclp) (auto simp: evolves_def)

lemma observe_remote_ok: "membership_ok m \<Longrightarrow> membership_ok (snd (observe_remote m node t))"
  by (auto simp: observe_remote_def Let_def membership_ok_def split: option.splits)

lemma update_local_evolves: "evolves m (snd (update_local_descriptor m node t))"
  by (auto simp: update_local_descriptor_def split: option.splits intro!: evolves_adjust)

lemma update_local_ok:
  "membership_ok m \<Longrightarrow> cn_id node = cm_local_node_id m
    \<Longrightarrow> membership_ok (snd (update_local_descriptor m node t))"
  by (auto simp: update_local_descriptor_def membership_ok_def split: option.splits)

lemma discover_nodes_evolves: "evolves m (snd (discover_nodes p t m es ns))"
proof (induction p t m es ns rule: discover_nodes.induct)
  case (2 p t m es node nodes)
  have "evolves m (snd (discover_nodes p t m' es' nodes))"
    if "evolves m m'" "evolves m' (snd (discover_nodes p t m' es' nodes))" for m' es'
    using that by (rule evolves_trans)
  with 2 show ?case
    using update_local_evolves [of m node t] observe_remote_evolves [of m node t]
    by (auto split: prod.splits sum.splits)
qed simp

lemma discover_nodes_ok: "membership_ok m \<Longrightarrow> membership_ok (snd (discover_nodes p t m es ns))"
proof (induction p t m es ns rule: discover_nodes.induct)
  case (2 p t m es node nodes)
  then show ?case
    using update_local_ok [of m node t] observe_remote_ok [of m node t]
    by (auto split: prod.splits sum.splits)
qed simp

section \<open>Ticks\<close>

text \<open>The state a tick gives to the record of a member.\<close>

definition tick_state :: "node_id \<Rightarrow> u64 \<Rightarrow> u64 \<Rightarrow> u64 \<Rightarrow> node_id \<Rightarrow> member_record \<Rightarrow> membership_state" where
  "tick_state local_id fail_ms down_ms now n r =
     (if n = local_id then mr_state r
      else if (mr_state r = Joining \<or> mr_state r = Up) \<and> fail_ms \<le> sat_sub now (mr_last_seen_millis r)
      then Unreachable
      else if mr_state r = Unreachable \<and> down_ms \<le> sat_sub now (mr_last_seen_millis r) then Down
      else mr_state r)"

definition same_but_state :: "membership_state \<Rightarrow> member_record \<Rightarrow> member_record \<Rightarrow> bool" where
  "same_but_state s r r' \<longleftrightarrow> mr_state r' = s \<and> mr_node r' = mr_node r
     \<and> mr_last_seen_millis r' = mr_last_seen_millis r"

lemma tick_members_rel:
  "tick_members l f d now v ms = (es, v', ms') \<Longrightarrow>
     list_all2 (\<lambda>p q. fst p = fst q
       \<and> same_but_state (tick_state l f d now (fst p) (snd p)) (snd p) (snd q)) ms ms'"
proof (induction l f d now v ms arbitrary: es v' ms' rule: tick_members.induct)
  case (2 l f d now v n r rest)
  then show ?case
    by (auto simp: tick_state_def same_but_state_def split: prod.splits if_splits)
qed simp

lemma tick_members_revision:
  "tick_members l f d now v ms = (es, v', ms') \<Longrightarrow> v' = v + of_nat (length es)"
proof (induction l f d now v ms arbitrary: es v' ms' rule: tick_members.induct)
  case (2 l f d now v n r rest)
  then show ?case
    by (auto split: prod.splits if_splits)
qed simp

definition tick_of :: "cluster_membership \<Rightarrow> u64 \<Rightarrow> node_id \<Rightarrow> member_record \<Rightarrow> membership_state" where
  "tick_of m now =
     tick_state (cm_local_node_id m) (millis_u64 (failure_timeout (cm_config m)))
       (sat_add (millis_u64 (failure_timeout (cm_config m))) (millis_u64 (down_after_unreachable (cm_config m)))) now"

lemma membership_tick_rel:
  "list_all2 (\<lambda>p q. fst p = fst q \<and> same_but_state (tick_of m now (fst p) (snd p)) (snd p) (snd q))
     (cm_members m) (cm_members (snd (membership_tick m now)))"
  by (auto simp: membership_tick_def Let_def tick_of_def split: prod.splits intro: tick_members_rel)

lemma membership_tick_lookup:
  "rel_option (\<lambda>r r'. same_but_state (tick_of m now n r) r r')
     (map_of (cm_members m) n) (map_of (cm_members (snd (membership_tick m now))) n)"
  using list_all2_map_of [OF membership_tick_rel] by simp

lemma tick_local [simp]: "cm_local_node_id (snd (membership_tick m now)) = cm_local_node_id m"
  by (simp add: membership_tick_def Let_def split: prod.splits)

lemma tick_state_lifecycle: "lifecycle\<^sup>*\<^sup>* (mr_state r) (tick_state l f d now n r)"
  by (auto simp: tick_state_def intro!: r_into_rtranclp)

lemma tick_evolves: "evolves m (snd (membership_tick m now))"
proof -
  have "\<exists>r'. map_of (cm_members (snd (membership_tick m now))) n = Some r' \<and> lifecycle\<^sup>*\<^sup>* (mr_state r) (mr_state r')"
    if "map_of (cm_members m) n = Some r" for n r
    using membership_tick_lookup [of m now n] that tick_state_lifecycle
    by (auto simp: option_rel_Some1 same_but_state_def tick_of_def)
  then show ?thesis
    by (simp add: evolves_def)
qed

lemma tick_ok: "membership_ok m \<Longrightarrow> membership_ok (snd (membership_tick m now))"
proof -
  assume ok: "membership_ok m"
  have "bt_ok (cm_members (snd (membership_tick m now)))"
    using ok list_all2_map_fst [OF membership_tick_rel, of m now] by (simp add: membership_ok_def bt_ok_def)
  moreover have "cn_id (mr_node r') = n"
    if "map_of (cm_members (snd (membership_tick m now))) n = Some r'" for n r'
    using membership_tick_lookup [of m now n] that ok
    by (auto simp: option_rel_Some2 same_but_state_def membership_ok_def)
  moreover have "map_of (cm_members (snd (membership_tick m now))) (cm_local_node_id m) \<noteq> None"
    using membership_tick_lookup [of m now "cm_local_node_id m"] ok
    by (cases "map_of (cm_members m) (cm_local_node_id m)") (auto simp: option_rel_Some1 membership_ok_def)
  ultimately show ?thesis
    by (simp add: membership_ok_def)
qed

lemma record_discovery_evolves: "evolves m (snd (record_discovery m s))"
  by (auto simp: record_discovery_def discover_nodes_evolves split: sum.splits)

lemma record_discovery_ok: "membership_ok m \<Longrightarrow> membership_ok (snd (record_discovery m s))"
  by (auto simp: record_discovery_def discover_nodes_ok split: sum.splits)

lemma membership_step_evolves: "membership_step m m' \<Longrightarrow> evolves m m'"
  by (induction rule: membership_step.induct)
    (auto simp: transition_defs record_discovery_evolves heartbeat_evolves tick_evolves lifecycle_Down
      intro!: transition_evolves)

lemma membership_step_ok: "membership_step m m' \<Longrightarrow> membership_ok m \<Longrightarrow> membership_ok m'"
  by (induction rule: membership_step.induct)
    (auto simp: transition_defs record_discovery_ok heartbeat_ok tick_ok intro!: transition_ok)

lemma membership_run_evolves: "membership_step\<^sup>*\<^sup>* m m' \<Longrightarrow> evolves m m'"
  by (induction rule: rtranclp_induct) (auto intro: evolves_trans membership_step_evolves)

lemma membership_run_ok: "membership_step\<^sup>*\<^sup>* m m' \<Longrightarrow> membership_ok m \<Longrightarrow> membership_ok m'"
  by (induction rule: rtranclp_induct) (auto intro: membership_step_ok)

lemma membership_new_ok: "membership_ok (membership_new n c)"
  by (simp add: membership_new_def membership_ok_def)

section \<open>Events report every change\<close>

text \<open>The revision moved by the number of events, and every member whose state differs is named
  by one of them.\<close>

definition reports :: "membership_event list \<Rightarrow> cluster_membership \<Rightarrow> cluster_membership \<Rightarrow> bool" where
  "reports es m m' \<longleftrightarrow> cm_revision m' = cm_revision m + of_nat (length es)
     \<and> (\<forall>n. map_option mr_state (map_of (cm_members m') n) \<noteq> map_option mr_state (map_of (cm_members m) n)
          \<longrightarrow> n \<in> event_node_id ` set es)"

lemma reports_Nil [simp]: "reports [] m m"
  by (simp add: reports_def)

lemma reports_append:
  assumes "reports es a b" and "reports es' b c"
  shows "reports (es @ es') a c"
proof -
  have "n \<in> event_node_id ` set (es @ es')"
    if "map_option mr_state (map_of (cm_members c) n) \<noteq> map_option mr_state (map_of (cm_members a) n)" for n
    using assms that unfolding reports_def set_append image_Un by (metis Un_iff)
  with assms show ?thesis
    by (simp add: reports_def)
qed

lemma reports_transition:
  assumes "\<And>n. event_node_id (event n) = n"
    and "event_list (membership_transition m n t to is_allowed event) = (Inr es, m')"
  shows "reports es m m'"
  using assms
  by (auto simp: event_list_def membership_transition_def reports_def Let_def
      split: option.splits if_splits prod.splits)

lemma reports_heartbeat: "event_list (heartbeat m n t) = (Inr es, m') \<Longrightarrow> reports es m m'"
  by (auto simp: event_list_def heartbeat_def reports_def Let_def
      split: option.splits if_splits prod.splits)

lemma reports_observe_remote: "observe_remote m node t = (es, m') \<Longrightarrow> reports es m m'"
  by (auto simp: observe_remote_def reports_def Let_def split: option.splits if_splits)

lemma reports_update_local: "update_local_descriptor m node t = (Inr u, m') \<Longrightarrow> reports [] m m'"
  by (auto simp: update_local_descriptor_def reports_def split: option.splits)

lemma reports_discover_nodes:
  "discover_nodes p t m es ns = (Inr es', m') \<Longrightarrow> \<exists>new. es' = es @ new \<and> reports new m m'"
proof (induction p t m es ns arbitrary: es' m' rule: discover_nodes.induct)
  case (2 p t m es node nodes)
  from "2.prems" have comp: "is_compatible_with p (cn_protocol node)"
    by (auto split: if_splits)
  show ?case
  proof (cases "cn_id node = cm_local_node_id m")
    case True
    obtain x m1 where u: "update_local_descriptor m node t = (x, m1)"
      by fastforce
    with "2.prems" True comp have x: "x = Inr ()" and d: "discover_nodes p t m1 es nodes = (Inr es', m')"
      by (auto split: sum.splits)
    have "\<exists>new. es' = es @ new \<and> reports new m1 m'"
      using "2.IH"(1) comp True u x d by auto
    with reports_append [OF reports_update_local] u x show ?thesis
      by force
  next
    case False
    obtain e1 m1 where o: "observe_remote m node t = (e1, m1)"
      by fastforce
    with "2.prems" False comp have d: "discover_nodes p t m1 (es @ e1) nodes = (Inr es', m')"
      by auto
    have "\<exists>new. es' = (es @ e1) @ new \<and> reports new m1 m'"
      using "2.IH"(2) comp False o d by auto
    with reports_append [OF reports_observe_remote [OF o]] show ?thesis
      by force
  qed
qed simp

lemma tick_members_events:
  "tick_members l f d now v ms = (es, v', ms') \<Longrightarrow> (n, r) \<in> set ms
     \<Longrightarrow> tick_state l f d now n r \<noteq> mr_state r \<Longrightarrow> n \<in> event_node_id ` set es"
proof (induction l f d now v ms arbitrary: es v' ms' rule: tick_members.induct)
  case (2 l f d now v k q rest)
  show ?case
  proof (cases "(n, r) = (k, q)")
    case True
    with 2 show ?thesis
      by (auto simp: tick_state_def split: prod.splits if_splits)
  next
    case False
    with "2.prems"(2) have "(n, r) \<in> set rest"
      by auto
    with 2 show ?thesis
      by (auto split: prod.splits if_splits)
  qed
qed simp

lemma reports_tick: "membership_tick m t = (es, m') \<Longrightarrow> reports es m m'"
proof -
  assume t: "membership_tick m t = (es, m')"
  then obtain v ms where eq: "tick_members (cm_local_node_id m) (millis_u64 (failure_timeout (cm_config m)))
      (sat_add (millis_u64 (failure_timeout (cm_config m))) (millis_u64 (down_after_unreachable (cm_config m))))
      t (cm_revision m) (cm_members m) = (es, v, ms)" and m': "m' = m\<lparr>cm_members := ms, cm_revision := v\<rparr>"
    by (auto simp: membership_tick_def Let_def split: prod.splits)
  have "n \<in> event_node_id ` set es"
    if ne: "map_option mr_state (map_of ms n) \<noteq> map_option mr_state (map_of (cm_members m) n)" for n
  proof -
    have "rel_option (\<lambda>r r'. same_but_state (tick_of m t n r) r r') (map_of (cm_members m) n) (map_of ms n)"
      using membership_tick_lookup [of m t n] t m' by simp
    then obtain r where "map_of (cm_members m) n = Some r" and "tick_of m t n r \<noteq> mr_state r"
      using ne by (cases "map_of (cm_members m) n") (auto simp: option_rel_Some1 same_but_state_def)
    then show ?thesis
      using tick_members_events [OF eq map_of_SomeD] by (simp add: tick_of_def)
  qed
  then show ?thesis
    using tick_members_revision [OF eq] m' by (simp add: reports_def)
qed

section \<open>Routable members and failing snapshots\<close>

lemma routable_ids:
  "membership_ok m \<Longrightarrow>
     map (cn_id \<circ> mr_node) (routable_members m) = map fst (filter (\<lambda>p. mr_state (snd p) = Up) (cm_members m))"
  by (auto simp: routable_members_def filter_map comp_def membership_ok_def bt_get_iff)

lemma routable_ids_sorted:
  "membership_ok m \<Longrightarrow> sorted_wrt (<) (map (cn_id \<circ> mr_node) (routable_members m))"
  using bt_ok_filter [of "cm_members m" "\<lambda>p. mr_state (snd p) = Up"]
  by (simp add: routable_ids) (simp add: membership_ok_def bt_ok_def)

lemma routable_ids_set:
  "membership_ok m \<Longrightarrow> set (map (cn_id \<circ> mr_node) (routable_members m))
     = {n. \<exists>r. membership_member m n = Some r \<and> mr_state r = Up}"
proof -
  assume ok: "membership_ok m"
  have "set (map fst (filter (\<lambda>p. mr_state (snd p) = Up) (cm_members m)))
      = {n. \<exists>r. (n, r) \<in> set (cm_members m) \<and> mr_state r = Up}"
    by force
  with ok show ?thesis
    by (simp only: routable_ids membership_member_def) (simp add: membership_ok_def bt_get_iff)
qed

definition local_known :: "cluster_membership \<Rightarrow> bool" where
  "local_known m \<longleftrightarrow> map_of (cm_members m) (cm_local_node_id m) \<noteq> None"

lemma local_known_evolves: "local_known m \<Longrightarrow> evolves m m' \<Longrightarrow> local_known m'"
  by (auto simp: local_known_def evolves_def)

lemma discover_nodes_prefix:
  assumes "\<forall>node \<in> set before. is_compatible_with p (cn_protocol node)"
    and "\<not> is_compatible_with p (cn_protocol bad)" and "local_known m"
  shows "is_ok (fst (discover_nodes p t m es before))
    \<and> discover_nodes p t m es (before @ bad # after)
      = (Inl (IncompatibleNode (cn_id bad) p (cn_protocol bad)), snd (discover_nodes p t m es before))"
  using assms
proof (induction "before" arbitrary: m es)
  case Nil
  then show ?case by simp
next
  case (Cons node nodes)
  show ?case
  proof (cases "cn_id node = cm_local_node_id m")
    case True
    obtain m1 where u: "update_local_descriptor m node t = (Inr (), m1)"
      using Cons.prems(3) by (auto simp: update_local_descriptor_def local_known_def split: option.splits)
    moreover have "local_known m1"
      using local_known_evolves [OF Cons.prems(3) update_local_evolves [of m node t]] u by simp
    ultimately show ?thesis
      using Cons True by simp
  next
    case False
    obtain e1 m1 where o: "observe_remote m node t = (e1, m1)"
      by fastforce
    moreover have "local_known m1"
      using local_known_evolves [OF Cons.prems(3) observe_remote_evolves [of m node t]] o by simp
    ultimately show ?thesis
      using Cons False by simp
  qed
qed

section \<open>Properties\<close>

text \<open>C11: Whatever sequence of requests a membership table serves, no member record is ever lost,
  every member moves along the life cycle only, a member that was downed never becomes routable
  again, and a removed member stays removed.\<close>

theorem membership_down_is_final:
  assumes "membership_step\<^sup>*\<^sup>* m m'" and "membership_member m n = Some r"
  shows "\<exists>r'. membership_member m' n = Some r' \<and> lifecycle\<^sup>*\<^sup>* (mr_state r) (mr_state r')
    \<and> (mr_state r = Down \<longrightarrow> mr_state r' = Down \<or> mr_state r' = Removed)
    \<and> (mr_state r = Removed \<longrightarrow> mr_state r' = Removed)"
proof -
  have removed: "lifecycle\<^sup>*\<^sup>* s s' \<Longrightarrow> s = Removed \<Longrightarrow> s' = Removed" for s s'
    by (induction rule: rtranclp_induct) auto
  have down: "lifecycle\<^sup>*\<^sup>* s s' \<Longrightarrow> s = Down \<Longrightarrow> s' = Down \<or> s' = Removed" for s s'
    by (induction rule: rtranclp_induct) auto
  from membership_run_evolves [OF assms(1)] assms(2) obtain r'
    where "membership_member m' n = Some r'" and "lifecycle\<^sup>*\<^sup>* (mr_state r) (mr_state r')"
    by (auto simp: evolves_def membership_member_def)
  then show ?thesis
    using removed down by blast
qed

text \<open>A small table for the witnesses: the local node \<open>a\<close> and one peer \<open>b\<close>.\<close>

abbreviation sample_address :: node_address where
  "sample_address \<equiv> \<lparr>host = ''h'', port = 1\<rparr>"

abbreviation sample_a :: cluster_node where
  "sample_a \<equiv> cluster_node_new (NodeId ''a'' ''1'') sample_address"

abbreviation sample_b :: cluster_node where
  "sample_b \<equiv> cluster_node_new (NodeId ''b'' ''1'') sample_address"

abbreviation sample_table :: cluster_membership where
  "sample_table \<equiv> snd (mark_down (membership_new sample_a default_membership_config) (NodeId ''a'' ''1'') 5)"

lemmas membership_eval = record_discovery_def membership_new_def local_member_def
  discovery_snapshot_new_def bt_collect_def cluster_node_new_def is_compatible_with_def protocol_v1_def
  range_window observe_remote_def less_node_id_def bt_adjust_def default_membership_config_def
  millis_u64_def sat_sub_def sat_add_def membership_member_def membership_transition_def

theorem membership_down_is_final_witness:
  "\<exists>r'. membership_member (snd (membership_remove sample_table (NodeId ''a'' ''1'') 7)) (NodeId ''a'' ''1'') = Some r'
     \<and> (mr_state r' = Down \<or> mr_state r' = Removed)"
proof -
  have step: "membership_step\<^sup>*\<^sup>* sample_table (snd (membership_remove sample_table (NodeId ''a'' ''1'') 7))"
    by (intro r_into_rtranclp step_remove)
  have "membership_member sample_table (NodeId ''a'' ''1'')
      = Some \<lparr>mr_node = sample_a, mr_state = Down, mr_last_seen_millis = 5, mr_revision = 1\<rparr>"
    by (simp add: membership_eval mark_down_def)
  from membership_down_is_final [OF step this] show ?thesis
    by auto
qed

text \<open>C12: A request that succeeds moves the table revision by exactly the number of events it
  reports, and every member whose state it changed, or that it added, is named by one of them.\<close>

theorem membership_events_report_changes:
  assumes "membership_serve m q = (Inr es, m')"
  shows "cm_revision m' = cm_revision m + of_nat (length es)
    \<and> {n. map_option mr_state (membership_member m' n) \<noteq> map_option mr_state (membership_member m n)}
        \<subseteq> event_node_id ` set es"
proof -
  have "reports es m m'"
  proof (cases q)
    case (ReqDiscovery s)
    with assms show ?thesis
      by (auto simp: record_discovery_def split: sum.splits dest: reports_discover_nodes)
  next
    case (ReqTick t)
    with assms show ?thesis
      by (auto split: prod.splits dest: reports_tick)
  qed (use assms in \<open>auto simp: transition_defs intro: reports_transition [rotated] reports_heartbeat\<close>)
  then show ?thesis
    by (auto simp: reports_def membership_member_def)
qed

theorem membership_events_report_changes_witness:
  "cm_revision (snd (membership_tick (snd (record_discovery (membership_new sample_a default_membership_config)
     (discovery_snapshot_new ''p'' 5 [sample_b]))) 20000)) = 2"
proof -
  let ?m = "snd (record_discovery (membership_new sample_a default_membership_config)
    (discovery_snapshot_new ''p'' 5 [sample_b]))"
  have rev1: "cm_revision ?m = 1"
    by (simp add: membership_eval)
  have serve: "membership_serve ?m (ReqTick 20000)
      = (Inr [MemberUnreachable (NodeId ''b'' ''1'')], snd (membership_tick ?m 20000))"
    by (simp add: membership_eval membership_tick_def)
  from membership_events_report_changes [OF serve] rev1 show ?thesis
    by simp
qed

text \<open>C10: A failure-detection tick never changes the local member; it marks a joining or active
  peer unreachable exactly when the peer has been silent for the failure timeout, downs an
  unreachable peer exactly when it has been silent for both timeouts together, and leaves every
  other member's state alone.\<close>

theorem tick_detects_failures:
  assumes "membership_member m n = Some r"
    and "failure_timeout (cm_config m) + down_after_unreachable (cm_config m) < 2 ^ 64"
  shows "\<exists>r'. membership_member (snd (membership_tick m now)) n = Some r' \<and> mr_node r' = mr_node r
    \<and> mr_last_seen_millis r' = mr_last_seen_millis r
    \<and> mr_state r' =
        (if n = cm_local_node_id m then mr_state r
         else if mr_state r \<in> {Joining, Up}
           \<and> failure_timeout (cm_config m) \<le> unat now - unat (mr_last_seen_millis r) then Unreachable
         else if mr_state r = Unreachable
           \<and> failure_timeout (cm_config m) + down_after_unreachable (cm_config m)
               \<le> unat now - unat (mr_last_seen_millis r) then Down
         else mr_state r)"
proof -
  let ?f = "failure_timeout (cm_config m)" and ?d = "down_after_unreachable (cm_config m)"
  have bounds: "?f < 2 ^ 64" "?d < 2 ^ 64"
    using assms(2) by auto
  then have "unat (millis_u64 ?f) = ?f" and "unat (millis_u64 ?d) = ?d"
    by (simp_all add: millis_u64_def unat_of_nat take_bit_nat_eq_self)
  then have f: "millis_u64 ?f \<le> x \<longleftrightarrow> ?f \<le> unat x"
    and d: "sat_add (millis_u64 ?f) (millis_u64 ?d) \<le> x \<longleftrightarrow> ?f + ?d \<le> unat x" for x
    using assms(2) by (simp_all add: word_le_nat_alt unat_sat_add)
  obtain r' where r': "membership_member (snd (membership_tick m now)) n = Some r'"
    and same: "same_but_state (tick_of m now n r) r r'"
    using membership_tick_lookup [of m now n] assms(1)
    by (auto simp: membership_member_def option_rel_Some1)
  then show ?thesis
    by (simp add: same_but_state_def tick_of_def tick_state_def f d unat_sat_sub)
qed

theorem tick_detects_failures_witness:
  "\<exists>r'. membership_member (snd (membership_tick (snd (record_discovery
       (membership_new sample_a default_membership_config) (discovery_snapshot_new ''p'' 5 [sample_b]))) 20000))
       (NodeId ''b'' ''1'') = Some r' \<and> mr_state r' = Unreachable"
proof -
  let ?m = "snd (record_discovery (membership_new sample_a default_membership_config)
    (discovery_snapshot_new ''p'' 5 [sample_b]))"
  have member: "membership_member ?m (NodeId ''b'' ''1'')
      = Some \<lparr>mr_node = sample_b, mr_state = Joining, mr_last_seen_millis = 5, mr_revision = 1\<rparr>"
    and config: "cm_config ?m = default_membership_config" and local: "cm_local_node_id ?m = NodeId ''a'' ''1''"
    by (simp_all add: membership_eval)
  have bound: "failure_timeout (cm_config ?m) + down_after_unreachable (cm_config ?m) < 2 ^ 64"
    unfolding config by (simp add: default_membership_config_def)
  from tick_detects_failures [OF member bound, of 20000] config local show ?thesis
    by (auto simp: default_membership_config_def)
qed

text \<open>C13: In every table a node can reach from its initial one, the members that may own shards
  are exactly the active ones, listed in strictly ascending node-id order, each stored under its
  own id, and the local node is a member.\<close>

theorem routable_members_sorted:
  assumes "membership_step\<^sup>*\<^sup>* (membership_new node config) m"
  shows "sorted_wrt (<) (map (cn_id \<circ> mr_node) (routable_members m))
    \<and> set (map (cn_id \<circ> mr_node) (routable_members m))
        = {n. \<exists>r. membership_member m n = Some r \<and> mr_state r = Up}
    \<and> membership_member m (cn_id node) \<noteq> None"
proof -
  have ok: "membership_ok m"
    using membership_run_ok [OF assms membership_new_ok] .
  have local: "cm_local_node_id m = cn_id node"
    using membership_run_evolves [OF assms] by (simp add: evolves_def membership_new_def)
  have "membership_member m (cn_id node) \<noteq> None"
    using ok local by (simp add: membership_ok_def membership_member_def)
  with routable_ids_sorted [OF ok] routable_ids_set [OF ok] show ?thesis
    by (intro conjI)
qed

theorem routable_members_sorted_witness:
  "sorted_wrt (<) (map (cn_id \<circ> mr_node) (routable_members
     (snd (mark_up (membership_new sample_a default_membership_config) (NodeId ''a'' ''1'') 5))))"
proof -
  have "membership_step\<^sup>*\<^sup>* (membership_new sample_a default_membership_config)
      (snd (mark_up (membership_new sample_a default_membership_config) (NodeId ''a'' ''1'') 5))"
    by (intro r_into_rtranclp step_up)
  from routable_members_sorted [OF this] show ?thesis by (rule conjunct1)
qed

text \<open>C34: A discovery snapshot that meets an incompatible node fails with that node, but the nodes
  listed before it have already been applied to the table: the table is the one a snapshot of just
  those nodes leaves, and the events for them are not reported.\<close>

theorem discovery_error_keeps_prefix:
  assumes "local_member m = Inr self"
    and "\<forall>node \<in> set before. is_compatible_with (cn_protocol (mr_node self)) (cn_protocol node)"
    and "\<not> is_compatible_with (cn_protocol (mr_node self)) (cn_protocol bad)"
  shows "record_discovery m \<lparr>ds_provider = p, ds_observed_at_millis = t, ds_nodes = before @ bad # after\<rparr>
    = (Inl (IncompatibleNode (cn_id bad) (cn_protocol (mr_node self)) (cn_protocol bad)),
       snd (record_discovery m \<lparr>ds_provider = p, ds_observed_at_millis = t, ds_nodes = before\<rparr>))
    \<and> is_ok (fst (record_discovery m \<lparr>ds_provider = p, ds_observed_at_millis = t, ds_nodes = before\<rparr>))"
proof -
  let ?p = "cn_protocol (mr_node self)"
  have "local_known m" using assms(1)
    by (auto simp: local_member_def local_known_def split: option.splits)
  then have "is_ok (fst (discover_nodes ?p t m [] before))
      \<and> discover_nodes ?p t m [] (before @ bad # after)
        = (Inl (IncompatibleNode (cn_id bad) ?p (cn_protocol bad)), snd (discover_nodes ?p t m [] before))"
    using discover_nodes_prefix [OF assms(2,3)] by blast
  then show ?thesis
    using assms(1) by (simp add: record_discovery_def)
qed

theorem discovery_error_keeps_prefix_witness:
  "cm_revision (snd (record_discovery (membership_new sample_a default_membership_config)
     \<lparr>ds_provider = ''p'', ds_observed_at_millis = 5,
      ds_nodes = [sample_b] @ [with_protocol (cluster_node_new (NodeId ''c'' ''1'') sample_address)
        (protocol_exact (ProtocolVersion 2 0))]\<rparr>)) = 1"
proof -
  let ?m = "membership_new sample_a default_membership_config"
  let ?c = "with_protocol (cluster_node_new (NodeId ''c'' ''1'') sample_address) (protocol_exact (ProtocolVersion 2 0))"
  let ?self = "\<lparr>mr_node = sample_a, mr_state = Joining, mr_last_seen_millis = 0, mr_revision = 0\<rparr>"
  have self: "local_member ?m = Inr ?self"
    by (simp add: membership_eval)
  have good: "\<forall>node \<in> set [sample_b]. is_compatible_with (cn_protocol (mr_node ?self)) (cn_protocol node)"
    by (simp add: membership_eval)
  have bad: "\<not> is_compatible_with (cn_protocol (mr_node ?self)) (cn_protocol ?c)"
    by (simp add: membership_eval with_protocol_def protocol_exact_def)
  show ?thesis
    using discovery_error_keeps_prefix [OF self good bad, of "''p''" 5 "[]"]
    by (simp add: membership_eval)
qed

end
