(* ===== verification/Self_Fence.thy ===== *)
theory Self_Fence
  imports Rakka_Prelude
begin

text \<open>
  Peer-reachability self-fencing (\<open>crates/rakka-cluster/src/self_fence.rs\<close>): the detector's
  record, its \<open>observe\<close> step, and the run over a sequence of observations. The detector keeps only
  the start of the current streak; the property below states what it decides in terms of the whole
  history of observations, without that state.
\<close>

section \<open>The detector\<close>

datatype self_health = Healthy | Fenced

definition is_fenced :: "self_health \<Rightarrow> bool" where
  "is_fenced h \<longleftrightarrow> h = Fenced"

record self_fence_config =
  fence_after :: duration
  rejoin_after :: duration

definition default_self_fence_config :: self_fence_config where
  "default_self_fence_config = \<lparr>fence_after = 15000, rejoin_after = 10000\<rparr>"

record self_fence_detector =
  sf_config :: self_fence_config
  sf_health :: self_health
  unreachable_since :: "u64 option"
  reachable_since :: "u64 option"

definition self_fence_new :: "self_fence_config \<Rightarrow> self_fence_detector" where
  "self_fence_new config =
     \<lparr>sf_config = config, sf_health = Healthy, unreachable_since = None, reachable_since = None\<rparr>"

text \<open>\<open>Option::get_or_insert\<close>: the value read, which is also the value stored.\<close>

definition get_or_insert :: "'a option \<Rightarrow> 'a \<Rightarrow> 'a" where
  "get_or_insert slot v = (case slot of Some x \<Rightarrow> x | None \<Rightarrow> v)"

definition observe :: "self_fence_detector \<Rightarrow> u64 \<Rightarrow> bool \<Rightarrow> self_health \<times> self_fence_detector" where
  "observe d now_millis peers_reachable =
     (let d' =
        (case sf_health d of
          Healthy \<Rightarrow>
            if peers_reachable then d\<lparr>unreachable_since := None\<rparr>
            else
              let since = get_or_insert (unreachable_since d) now_millis in
              if millis_u64 (fence_after (sf_config d)) \<le> sat_sub now_millis since
              then d\<lparr>sf_health := Fenced, unreachable_since := None, reachable_since := None\<rparr>
              else d\<lparr>unreachable_since := Some since\<rparr>
        | Fenced \<Rightarrow>
            if peers_reachable then
              let since = get_or_insert (reachable_since d) now_millis in
              if millis_u64 (rejoin_after (sf_config d)) \<le> sat_sub now_millis since
              then d\<lparr>sf_health := Healthy, unreachable_since := None, reachable_since := None\<rparr>
              else d\<lparr>reachable_since := Some since\<rparr>
            else d\<lparr>reachable_since := None\<rparr>)
      in (sf_health d', d'))"

type_synonym observation = "u64 \<times> bool"

definition observe_all :: "self_fence_config \<Rightarrow> observation list \<Rightarrow> self_fence_detector" where
  "observe_all config obs = foldl (\<lambda>d (t, r). snd (observe d t r)) (self_fence_new config) obs"

section \<open>Streaks in a history\<close>

text \<open>
  A streak of value \<open>b\<close> is a non-empty block of consecutive observations that all report \<open>b\<close>; it
  spans a duration when its last observation is at least that much later than its first.
\<close>

definition streak :: "bool \<Rightarrow> duration \<Rightarrow> observation list \<Rightarrow> bool" where
  "streak b d run \<longleftrightarrow> run \<noteq> [] \<and> (\<forall>x \<in> set run. snd x = b)
     \<and> unat (millis_u64 d) \<le> unat (fst (last run)) - unat (fst (hd run))"

definition has_streak :: "bool \<Rightarrow> duration \<Rightarrow> observation list \<Rightarrow> bool" where
  "has_streak b d obs \<longleftrightarrow> (\<exists>pre run post. obs = pre @ run @ post \<and> streak b d run)"

definition sustained_outage :: "self_fence_config \<Rightarrow> observation list \<Rightarrow> bool" where
  "sustained_outage config obs \<longleftrightarrow> (\<exists>pre run post. obs = pre @ run @ post
     \<and> streak False (fence_after config) run \<and> \<not> has_streak True (rejoin_after config) post)"

text \<open>The start of the block of equal observations that ends a history (latest observation first).\<close>

fun run_start :: "bool \<Rightarrow> observation list \<Rightarrow> u64 option" where
  "run_start b [] = None"
| "run_start b ((t, r) # past) = (if r = b then Some (get_or_insert (run_start b past) t) else None)"

lemma run_start_block:
  "run_start b (rev obs) = Some s \<Longrightarrow>
     \<exists>pre run. obs = pre @ run \<and> run \<noteq> [] \<and> (\<forall>x \<in> set run. snd x = b) \<and> fst (hd run) = s
       \<and> (pre = [] \<or> snd (last pre) \<noteq> b)"
proof (induction obs arbitrary: s rule: rev_induct)
  case Nil
  then show ?case by simp
next
  case (snoc x obs)
  obtain t r where x: "x = (t, r)" by fastforce
  show ?case
  proof (cases "run_start b (rev obs)")
    case None
    then have "obs = [] \<or> snd (last obs) \<noteq> b"
      by (cases obs rule: rev_cases) (auto split: if_splits)
    with snoc.prems None x show ?thesis
      by (intro exI [of _ obs] exI [of _ "[x]"]) (auto simp: get_or_insert_def split: if_splits)
  next
    case (Some s0)
    with snoc.IH obtain pre run where "obs = pre @ run" "run \<noteq> []" "\<forall>x \<in> set run. snd x = b"
      "fst (hd run) = s0" "pre = [] \<or> snd (last pre) \<noteq> b"
      by blast
    with snoc.prems Some x show ?thesis
      by (intro exI [of _ pre] exI [of _ "run @ [x]"]) (auto simp: get_or_insert_def split: if_splits)
  qed
qed

lemma run_start_snoc:
  "\<exists>pre run. obs @ [(t, b)] = pre @ run \<and> run \<noteq> [] \<and> (\<forall>x \<in> set run. snd x = b)
     \<and> fst (hd run) = the (run_start b (rev (obs @ [(t, b)])))"
proof -
  obtain s where s: "run_start b (rev (obs @ [(t, b)])) = Some s"
    by simp
  from run_start_block [OF s] show ?thesis
    unfolding s option.sel by blast
qed

lemma run_start_early:
  assumes "run \<noteq> []" and "\<forall>x \<in> set run. snd x = b" and "sorted (map fst (pre @ run))"
  shows "\<exists>s. run_start b (rev (pre @ run)) = Some s \<and> s \<le> fst (hd run)"
  using assms
proof (induction run rule: rev_induct)
  case Nil
  then show ?case by simp
next
  case (snoc x run)
  show ?case
  proof (cases "run = []")
    case True
    with snoc.prems have "\<forall>s. run_start b (rev pre) = Some s \<longrightarrow> s \<le> fst x"
      by (auto simp: sorted_append neq_Nil_conv dest!: run_start_block)
    with True snoc.prems show ?thesis
      by (cases x) (auto simp: get_or_insert_def split: option.splits)
  next
    case False
    then obtain s where "run_start b (rev (pre @ run)) = Some s" "s \<le> fst (hd run)"
      using snoc by (auto simp: sorted_append)
    with False snoc.prems show ?thesis
      by (cases x) (auto simp: get_or_insert_def)
  qed
qed

text \<open>The detector's two fields are the starts of the current streaks.\<close>

lemma observe_all_snoc: "observe_all c (obs @ [(t, r)]) = snd (observe (observe_all c obs) t r)"
  by (simp add: observe_all_def)

lemma observe_all_fields:
  "sf_config (observe_all c obs) = c
   \<and> (sf_health (observe_all c obs) = Healthy \<longrightarrow> unreachable_since (observe_all c obs) = run_start False (rev obs))
   \<and> (sf_health (observe_all c obs) = Fenced \<longrightarrow> reachable_since (observe_all c obs) = run_start True (rev obs))"
proof (induction obs rule: rev_induct)
  case Nil
  then show ?case by (simp add: observe_all_def self_fence_new_def)
next
  case (snoc x obs)
  obtain t r where "x = (t, r)" by fastforce
  with snoc show ?case
    by (cases "sf_health (observe_all c obs)")
      (auto simp: observe_all_snoc observe_def Let_def)
qed

lemma health_snoc:
  "sf_health (observe_all c (obs @ [(t, r)])) = Fenced \<longleftrightarrow>
     (if r then sf_health (observe_all c obs) = Fenced
           \<and> \<not> unat (millis_u64 (rejoin_after c)) \<le> unat t - unat (the (run_start True (rev (obs @ [(t, r)]))))
      else sf_health (observe_all c obs) = Fenced
           \<or> unat (millis_u64 (fence_after c)) \<le> unat t - unat (the (run_start False (rev (obs @ [(t, r)])))))"
  using observe_all_fields [of c obs]
  by (cases "sf_health (observe_all c obs)")
    (auto simp: observe_all_snoc observe_def Let_def word_le_nat_alt unat_sat_sub)

lemma has_streak_append: "has_streak b d obs \<Longrightarrow> has_streak b d (obs @ later)"
  unfolding has_streak_def by (metis append.assoc)

lemma append_eq_snoc_last: "obs @ [x] = pre @ run \<Longrightarrow> run \<noteq> [] \<Longrightarrow> last run = x"
  by (metis last_appendR last_snoc)

lemma has_streak_snoc_other: "r \<noteq> b \<Longrightarrow> has_streak b d (obs @ [(t, r)]) \<longleftrightarrow> has_streak b d obs"
proof
  assume "r \<noteq> b" and "has_streak b d (obs @ [(t, r)])"
  then obtain pre run post where eq: "obs @ [(t, r)] = pre @ run @ post" and s: "streak b d run"
    by (auto simp: has_streak_def)
  from s have "snd (last run) = b" "run \<noteq> []"
    by (simp_all add: streak_def)
  with \<open>r \<noteq> b\<close> have "last run \<noteq> (t, r)" "run \<noteq> []"
    by auto
  then obtain post' where "post = post' @ [(t, r)]"
    using eq by (cases post rule: rev_cases) (auto simp: append_eq_snoc_last)
  with eq s show "has_streak b d obs"
    by (auto simp: has_streak_def)
next
  assume "has_streak b d obs"
  then show "has_streak b d (obs @ [(t, r)])"
    by (rule has_streak_append)
qed

lemma has_streak_snoc:
  assumes "has_streak b d (obs @ [x])" and "\<not> has_streak b d obs"
  shows "\<exists>pre run. obs @ [x] = pre @ run \<and> streak b d run"
proof -
  obtain pre run post where eq: "obs @ [x] = pre @ run @ post" and s: "streak b d run"
    using assms(1) by (auto simp: has_streak_def)
  have "post = []"
  proof (rule ccontr)
    assume "post \<noteq> []"
    then obtain post' where "obs = pre @ run @ post'"
      using eq by (cases post rule: rev_cases) auto
    with s assms(2) show False by (auto simp: has_streak_def)
  qed
  with eq s show ?thesis by auto
qed

lemma sustained_outageI:
  "obs = pre @ run @ post \<Longrightarrow> streak False (fence_after c) run \<Longrightarrow>
     \<not> has_streak True (rejoin_after c) post \<Longrightarrow> sustained_outage c obs"
  by (auto simp: sustained_outage_def)

text \<open>
  The step cases of the main equivalence: an unreachable observation can only complete an outage
  that ends with it, a reachable one can only complete a recovery that ends with it.
\<close>

lemma outage_unreachable:
  assumes "sorted (map fst (obs @ [(t, False)]))"
  shows "sustained_outage c (obs @ [(t, False)]) \<longleftrightarrow> sustained_outage c obs
     \<or> unat (millis_u64 (fence_after c)) \<le> unat t - unat (the (run_start False (rev (obs @ [(t, False)]))))"
    (is "?new \<longleftrightarrow> ?old \<or> ?fires")
proof
  assume ?new
  then obtain pre run post where eq: "obs @ [(t, False)] = pre @ run @ post"
    and s: "streak False (fence_after c) run" and quiet: "\<not> has_streak True (rejoin_after c) post"
    by (auto simp: sustained_outage_def)
  show "?old \<or> ?fires"
  proof (cases post rule: rev_cases)
    case Nil
    obtain s0 where "run_start False (rev (pre @ run)) = Some s0" "s0 \<le> fst (hd run)"
      using run_start_early [of run False pre] s assms eq Nil by (auto simp: streak_def)
    moreover have "fst (last run) = t"
      using append_eq_snoc_last [of obs _ pre run] eq s Nil by (simp add: streak_def)
    ultimately have ?fires
      using eq s Nil by (auto simp: streak_def word_le_nat_alt)
    then show ?thesis ..
  next
    case (snoc post' x)
    with eq quiet has_streak_snoc_other [of False True] have "obs = pre @ run @ post'"
      and "\<not> has_streak True (rejoin_after c) post'"
      by auto
    with s show ?thesis by (auto simp: sustained_outage_def)
  qed
next
  assume "?old \<or> ?fires"
  then show ?new
  proof
    assume ?old
    then obtain pre run post where "obs = pre @ run @ post"
      "streak False (fence_after c) run" "\<not> has_streak True (rejoin_after c) post"
      by (auto simp: sustained_outage_def)
    then show ?new
      by (intro sustained_outageI [of _ pre run "post @ [(t, False)]"]) (simp_all add: has_streak_snoc_other)
  next
    assume fires: ?fires
    obtain pre run where "obs @ [(t, False)] = pre @ run" "run \<noteq> []" "\<forall>x \<in> set run. snd x = False"
      "fst (hd run) = the (run_start False (rev (obs @ [(t, False)])))"
      using run_start_snoc by blast
    moreover from this have "fst (last run) = t"
      by (simp add: append_eq_snoc_last)
    ultimately show ?new
      using fires by (intro sustained_outageI [of _ pre run "[]"]) (auto simp: streak_def has_streak_def)
  qed
qed

lemma suffix_after:
  assumes "xs @ ys = zs @ ws" and "xs \<noteq> []" and "last xs \<notin> set ws"
  shows "\<exists>us. ys = us @ ws"
  using assms(1) unfolding append_eq_append_conv2
proof (elim exE disjE conjE)
  fix us
  assume "xs = zs @ us" and "us @ ys = ws"
  with assms(2,3) show ?thesis
    by (cases "us = []") auto
next
  fix us
  assume "xs @ us = zs" and "ys = us @ ws"
  then show ?thesis by blast
qed

lemma outage_reachable:
  assumes "sorted (map fst (obs @ [(t, True)]))"
  shows "sustained_outage c (obs @ [(t, True)]) \<longleftrightarrow> sustained_outage c obs
     \<and> \<not> unat (millis_u64 (rejoin_after c)) \<le> unat t - unat (the (run_start True (rev (obs @ [(t, True)]))))"
    (is "?new \<longleftrightarrow> ?old \<and> \<not> ?clears")
proof
  assume ?new
  then obtain pre run post where eq: "obs @ [(t, True)] = pre @ run @ post"
    and s: "streak False (fence_after c) run" and quiet: "\<not> has_streak True (rejoin_after c) post"
    by (auto simp: sustained_outage_def)
  have run: "run \<noteq> []" "\<not> snd (last run)"
    using s by (auto simp: streak_def)
  obtain post' where post: "post = post' @ [(t, True)]"
  proof (cases post rule: rev_cases)
    case Nil
    with eq run(1) have "last run = (t, True)"
      by (simp add: append_eq_snoc_last)
    with run(2) show ?thesis by simp
  qed (use eq that in auto)
  have "\<not> has_streak True (rejoin_after c) post'"
    using quiet has_streak_append unfolding post by blast
  with eq s post have ?old
    by (auto simp: sustained_outage_def)
  moreover have "\<not> ?clears"
  proof
    assume clears: ?clears
    obtain pre1 run1 where block: "obs @ [(t, True)] = pre1 @ run1" "run1 \<noteq> []"
        "\<forall>x \<in> set run1. snd x = True" "fst (hd run1) = the (run_start True (rev (obs @ [(t, True)])))"
      using run_start_snoc by blast
    then have "fst (last run1) = t"
      by (simp add: append_eq_snoc_last)
    with block clears have "streak True (rejoin_after c) run1"
      by (simp add: streak_def)
    moreover have "\<exists>pre2. post = pre2 @ run1"
    proof -
      have "(pre @ run) @ post = pre1 @ run1"
        using block(1) eq by simp
      moreover have "last (pre @ run) \<notin> set run1"
        using run block(3) by auto
      ultimately show ?thesis
        using suffix_after run(1) by blast
    qed
    ultimately show False
      using quiet unfolding has_streak_def by (metis append_Nil2)
  qed
  ultimately show "?old \<and> \<not> ?clears" ..
next
  assume both: "?old \<and> \<not> ?clears"
  then obtain pre run post where eq: "obs = pre @ run @ post"
    and s: "streak False (fence_after c) run" and quiet: "\<not> has_streak True (rejoin_after c) post"
    by (auto simp: sustained_outage_def)
  have "\<not> has_streak True (rejoin_after c) (post @ [(t, True)])"
  proof
    assume "has_streak True (rejoin_after c) (post @ [(t, True)])"
    then obtain pre1 run1 where b: "post @ [(t, True)] = pre1 @ run1" and s1: "streak True (rejoin_after c) run1"
      using has_streak_snoc quiet by blast
    have all: "obs @ [(t, True)] = (pre @ run @ pre1) @ run1"
      using eq b by simp
    have last: "fst (last run1) = t"
      using append_eq_snoc_last [OF b] s1 by (simp add: streak_def)
    obtain s0 where "run_start True (rev (obs @ [(t, True)])) = Some s0" "s0 \<le> fst (hd run1)"
      using run_start_early [of run1 True "pre @ run @ pre1"] s1 assms
      unfolding all by (auto simp: streak_def)
    with s1 both last show False
      by (auto simp: streak_def word_le_nat_alt)
  qed
  with eq s show ?new
    by (intro sustained_outageI [of _ pre run "post @ [(t, True)]"]) simp_all
qed

section \<open>Properties\<close>

text \<open>C14: Fed with observations in time order, the detector is fenced exactly when the history
  contains an unbroken streak of unreachable observations spanning the fencing window that is not
  followed by an unbroken streak of reachable observations spanning the rejoin window.\<close>

theorem self_fence_hysteresis:
  assumes "sorted (map fst obs)"
  shows "is_fenced (sf_health (observe_all config obs)) \<longleftrightarrow> sustained_outage config obs"
  using assms
proof (induction obs rule: rev_induct)
  case Nil
  then show ?case
    by (simp add: is_fenced_def observe_all_def self_fence_new_def sustained_outage_def streak_def)
next
  case (snoc x obs)
  obtain t r where x: "x = (t, r)" by fastforce
  have IH: "sf_health (observe_all config obs) = Fenced \<longleftrightarrow> sustained_outage config obs"
    using snoc by (simp add: is_fenced_def sorted_append)
  show ?case
    using snoc.prems unfolding x is_fenced_def health_snoc
    by (cases r) (simp_all only: IH outage_unreachable outage_reachable if_True if_False)
qed

theorem self_fence_hysteresis_witness:
  "sustained_outage default_self_fence_config [(0, True), (1000, False), (9000, False), (16000, False), (17000, True)]"
proof -
  let ?obs = "[(0, True), (1000, False), (9000, False), (16000, False), (17000, True)] :: observation list"
  have sorted: "sorted (map fst ?obs)"
    by simp
  have "is_fenced (sf_health (observe_all default_self_fence_config ?obs))"
    by (simp add: observe_all_def self_fence_new_def observe_def default_self_fence_config_def
        get_or_insert_def millis_u64_def sat_sub_def is_fenced_def)
  with self_fence_hysteresis [OF sorted] show ?thesis
    by blast
qed

end
