(* ===== verification/Sharding_Identity.thy ===== *)
theory Sharding_Identity
  imports Cluster_Node
begin

text \<open>
  Sharded entity identity (\<open>crates/rakka-sharding/src/identity.rs\<close>) and the sharding errors
  (\<open>error.rs\<close>): the stable hash of an entity, the shard it maps to and the shard count's
  configuration. Texts are sequences of bytes; since they are UTF-8, the byte \<open>0xff\<close> that
  separates the two parts of the hash input never occurs in them.
\<close>

unbundle bit_operations_syntax

section \<open>Identities and errors\<close>

type_synonym entity_type = string
type_synonym entity_id = string
type_synonym shard_id = u32

datatype shard_key = ShardKey (sk_entity_type: entity_type) (sk_shard_id: shard_id)

record sharding_config =
  number_of_shards :: u32

datatype sharding_error =
    InvalidShardCount
  | UnknownShard shard_id u32
  | NoShardOwner entity_type shard_id
  | NoEntityOwner entity_type entity_id shard_id
  | EntityTypeMismatch entity_type entity_type
  | OwnershipSnapshotMismatch entity_type entity_type u32 u32
  | PersistedCoordinatorSnapshotMismatch entity_type entity_type u32 u32
  | CoordinatorRevisionConflict entity_type u64 u64
  | CoordinatorStore string string
  | CoordinatorLease string string
  | RememberedEntityStore string string
  | RememberedEntityReplay entity_type entity_id shard_id string
  | CoordinatorLeaseRejected string entity_type node_id "node_id option" "u64 option"
  | CoordinatorLeaseLost string entity_type node_id u64 "node_id option" "u64 option"
  | AsyncCoordinatorStoreRequiresAsyncApi string
  | AsyncCoordinatorLeaseRequiresAsyncApi string

definition sharding_config_new :: "u32 \<Rightarrow> (sharding_error, sharding_config) result" where
  "sharding_config_new n = (if n = 0 then Inl InvalidShardCount else Inr \<lparr>number_of_shards = n\<rparr>)"

definition default_sharding_config :: sharding_config where
  "default_sharding_config = \<lparr>number_of_shards = 128\<rparr>"

definition contains_shard :: "sharding_config \<Rightarrow> shard_id \<Rightarrow> bool" where
  "contains_shard config shard_id \<longleftrightarrow> shard_id < number_of_shards config"

section \<open>The stable hash\<close>

definition as_bytes :: "string \<Rightarrow> bytes" where
  "as_bytes s = map (\<lambda>c. of_nat (of_char c)) s"

definition hash_step :: "u64 \<Rightarrow> 8 word \<Rightarrow> u64" where
  "hash_step hash byte = (hash XOR ucast byte) * 0x100000001b3"

definition stable_hash :: "string \<Rightarrow> string \<Rightarrow> u64" where
  "stable_hash entity_type entity_id =
     foldl hash_step 0xcbf29ce484222325 (as_bytes entity_type @ [0xff] @ as_bytes entity_id)"

definition for_entity :: "entity_type \<Rightarrow> entity_id \<Rightarrow> sharding_config \<Rightarrow> shard_id" where
  "for_entity entity_type entity_id config =
     ucast (stable_hash entity_type entity_id mod ucast (number_of_shards config))"

text \<open>A typed entity reference; the message type is a phantom of the source.\<close>

record entity_ref =
  er_entity_type :: entity_type
  er_entity_id :: entity_id

definition entity_ref_shard_id :: "entity_ref \<Rightarrow> sharding_config \<Rightarrow> shard_id" where
  "entity_ref_shard_id e config = for_entity (er_entity_type e) (er_entity_id e) config"

definition entity_ref_shard_key :: "entity_ref \<Rightarrow> sharding_config \<Rightarrow> shard_key" where
  "entity_ref_shard_key e config = ShardKey (er_entity_type e) (entity_ref_shard_id e config)"

section \<open>The hash step is invertible\<close>

lemma hash_prime_inverse: "(0x100000001b3 :: u64) * 0xce965057aff6957b = 1"
  by simp

lemma hash_mult_inj: "(a :: u64) * 0x100000001b3 = b * 0x100000001b3 \<longleftrightarrow> a = b"
proof
  assume "a * 0x100000001b3 = b * 0x100000001b3"
  then have "a * (0x100000001b3 * 0xce965057aff6957b) = b * (0x100000001b3 * 0xce965057aff6957b)"
    by (simp only: mult.assoc [symmetric])
  then show "a = b"
    by (simp only: hash_prime_inverse mult_1_right)
qed simp

lemma xor_left_inj: "(a :: 'a::len word) XOR c = b XOR c \<longleftrightarrow> a = b"
  by (metis xor.assoc xor.right_neutral xor_self_eq)

lemma xor_right_inj: "c XOR (a :: 'a::len word) = c XOR b \<longleftrightarrow> a = b"
  by (metis xor.commute xor_left_inj)

lemma hash_step_inj_hash: "hash_step h x = hash_step h' x \<longleftrightarrow> h = h'"
  by (simp add: hash_step_def hash_mult_inj xor_left_inj)

lemma unat_byte_ucast: "unat (ucast (x :: 8 word) :: u64) = unat x"
  using unat_less_two_power [of x] by (simp add: unsigned_ucast_eq take_bit_nat_eq_self)

lemma hash_step_inj_byte: "hash_step h x = hash_step h y \<longleftrightarrow> x = y"
  by (simp add: hash_step_def hash_mult_inj xor_right_inj unat_byte_ucast flip: word_unat_eq_iff)
    (metis unat_byte_ucast word_unat_eq_iff)

lemma hash_fold_inj: "foldl hash_step h xs = foldl hash_step h' xs \<longleftrightarrow> h = h'"
  by (induction xs arbitrary: h h') (simp_all add: hash_step_inj_hash)

lemma as_bytes_append [simp]: "as_bytes (xs @ ys) = as_bytes xs @ as_bytes ys"
  by (simp add: as_bytes_def)

lemma as_bytes_inj: "as_bytes xs = as_bytes ys \<longleftrightarrow> xs = ys"
proof
  have byte: "unat (of_nat (of_char c) :: 8 word) = of_char c" for c
    by (simp add: unat_of_nat take_bit_nat_def of_char_mod_256)
  have "inj (\<lambda>c. of_nat (of_char c) :: 8 word)"
    by (rule injI) (metis byte of_char_eq_iff)
  then have "inj (map (\<lambda>c. of_nat (of_char c) :: 8 word))"
    by simp
  then show "as_bytes xs = as_bytes ys \<Longrightarrow> xs = ys"
    unfolding as_bytes_def by (rule injD)
qed simp

section \<open>The shard of an entity\<close>

lemma for_entity_value:
  assumes "sharding_config_new n = Inr config"
  shows "contains_shard config (for_entity entity_type entity_id config)
    \<and> unat (for_entity entity_type entity_id config) = unat (stable_hash entity_type entity_id) mod unat n"
proof -
  have n: "n \<noteq> 0" "number_of_shards config = n"
    using assms by (auto simp: sharding_config_new_def split: if_splits)
  have up: "unat (ucast n :: u64) = unat n"
    using unat_less_two_power [of n] by (simp add: unsigned_ucast_eq take_bit_nat_eq_self)
  have pos: "0 < unat n"
    using n(1) by (simp add: unat_gt_0)
  then have less: "unat (stable_hash entity_type entity_id) mod unat n < unat n"
    by simp
  then have "unat (for_entity entity_type entity_id config) = unat (stable_hash entity_type entity_id) mod unat n"
    using unat_less_two_power [of n]
    by (simp add: for_entity_def n(2) unsigned_ucast_eq unat_mod_distrib up take_bit_nat_eq_self)
  with less n(2) show ?thesis
    by (simp add: contains_shard_def word_less_nat_alt)
qed

lemma for_entity_contained:
  "sharding_config_new n = Inr config \<Longrightarrow> contains_shard config (for_entity entity_type entity_id config)"
  using for_entity_value by blast

section \<open>Properties\<close>

text \<open>C27: A configuration that the constructor accepts has at least one shard, and every entity of
  every type then maps to a shard of its range, namely the hash modulo the shard count (the cast
  to 32 bits loses nothing).\<close>

theorem for_entity_in_range:
  assumes "sharding_config_new n = Inr config"
  shows "contains_shard config (for_entity entity_type entity_id config)
    \<and> unat (for_entity entity_type entity_id config) = unat (stable_hash entity_type entity_id) mod unat n"
  using assms by (rule for_entity_value)

theorem for_entity_in_range_witness:
  "contains_shard \<lparr>number_of_shards = 10\<rparr> (for_entity ''cart'' ''42'' \<lparr>number_of_shards = 10\<rparr>)"
proof -
  have "sharding_config_new 10 = Inr \<lparr>number_of_shards = 10\<rparr>"
    by (simp add: sharding_config_new_def)
  from for_entity_in_range [OF this] show ?thesis by blast
qed

text \<open>C28: The hash keeps entities apart as far as its input allows: two entities whose ids differ
  in a single byte, or whose types do, never have the same 64-bit hash.\<close>

theorem stable_hash_single_byte:
  "(stable_hash entity_type (before @ [x] @ after) = stable_hash entity_type (before @ [y] @ after)
      \<longleftrightarrow> x = y)
   \<and> (stable_hash (before @ [x] @ after) entity_id = stable_hash (before @ [y] @ after) entity_id
      \<longleftrightarrow> x = y)"
proof -
  have "as_bytes [x] = as_bytes [y] \<longleftrightarrow> x = y"
    by (simp only: as_bytes_inj) simp
  then show ?thesis
    by (simp add: stable_hash_def as_bytes_def hash_fold_inj hash_step_inj_byte hash_step_inj_hash)
qed

end
