(* ===== verification/Sharding_Allocation.thy ===== *)
theory Sharding_Allocation
  imports Cluster_Membership Sharding_Identity
begin

text \<open>
  Shard allocation strategies (\<open>crates/rakka-sharding/src/allocation.rs\<close>): the read-only context a
  strategy sees, the deterministic modulo strategy and the least-shard strategy with its rebalance
  loop. A strategy of the source is a trait object; here it is the record of its two methods. The
  locale \<open>lawful_strategy\<close> is the contract the coordinator's properties rest on; both strategies
  are shown to meet it.
\<close>

section \<open>Contexts and requests\<close>

type_synonym shard_assignments = "(shard_id, node_id) btree"

record shard_context =
  sx_entity_type :: entity_type
  sx_config :: sharding_config
  sx_membership :: cluster_membership
  sx_routable_nodes :: "node_id list"
  sx_assignments :: shard_assignments

datatype shard_reassignment = ShardReassignment (ra_shard_id: shard_id) (ra_to: node_id)

record allocation_strategy =
  allocate_shard :: "shard_context \<Rightarrow> shard_id \<Rightarrow> node_id option"
  rebalance :: "shard_context \<Rightarrow> shard_reassignment list"

datatype shard_owner_count = ShardOwnerCount (oc_owner: node_id) (oc_count: nat)

section \<open>Counting\<close>

definition desired_owner :: "node_id list \<Rightarrow> shard_id \<Rightarrow> node_id option" where
  "desired_owner routable_nodes shard_id =
     (if routable_nodes = [] then None
      else
        let index = unat shard_id mod length routable_nodes in
        if index < length routable_nodes then Some (routable_nodes ! index) else None)"

definition owned_shard_count :: "shard_assignments \<Rightarrow> node_id \<Rightarrow> nat" where
  "owned_shard_count assignments owner = length (filter (\<lambda>p. snd p = owner) assignments)"

definition owner_counts :: "shard_assignments \<Rightarrow> shard_owner_count list" where
  "owner_counts assignments =
     map (\<lambda>(owner, count). ShardOwnerCount owner count)
       (foldl (\<lambda>counts (shard_id, owner).
          bt_insert owner (Suc (case map_of counts owner of Some c \<Rightarrow> c | None \<Rightarrow> 0)) counts) [] assignments)"

definition routable_owner_counts :: "node_id list \<Rightarrow> shard_assignments \<Rightarrow> (node_id, nat) btree" where
  "routable_owner_counts routable_nodes assignments =
     foldl (\<lambda>counts (shard_id, owner). bt_adjust owner Suc counts)
       (bt_collect (map (\<lambda>node_id. (node_id, 0)) routable_nodes)) assignments"

text \<open>
  \<open>Iterator::min_by\<close> keeps the earlier of two equal elements, \<open>max_by\<close> the later one; both
  comparators order by count and break ties by node id.
\<close>

fun min_owner :: "(node_id, nat) btree \<Rightarrow> (node_id \<times> nat) option" where
  "min_owner [] = None"
| "min_owner (p # ps) =
     Some (foldl (\<lambda>best q. if snd q < snd best \<or> snd q = snd best \<and> fst q < fst best then q else best) p ps)"

fun max_owner :: "(node_id, nat) btree \<Rightarrow> (node_id \<times> nat) option" where
  "max_owner [] = None"
| "max_owner (p # ps) =
     Some (foldl (\<lambda>best q. if snd q < snd best \<or> snd q = snd best \<and> fst best < fst q then best else q) p ps)"

section \<open>Deterministic modulo strategy\<close>

record deterministic_modulo =
  dm_max_simultaneous_rebalance :: nat

definition deterministic_new :: deterministic_modulo where
  "deterministic_new = \<lparr>dm_max_simultaneous_rebalance = 0\<rparr>"

definition with_max_simultaneous_rebalance :: "deterministic_modulo \<Rightarrow> nat \<Rightarrow> deterministic_modulo" where
  "with_max_simultaneous_rebalance s n = s\<lparr>dm_max_simultaneous_rebalance := n\<rparr>"

definition deterministic_allocate :: "deterministic_modulo \<Rightarrow> shard_context \<Rightarrow> shard_id \<Rightarrow> node_id option" where
  "deterministic_allocate s ctx shard_id = desired_owner (sx_routable_nodes ctx) shard_id"

definition deterministic_moves :: "shard_context \<Rightarrow> shard_reassignment list" where
  "deterministic_moves ctx = List.map_filter (\<lambda>(shard_id, owner).
     case desired_owner (sx_routable_nodes ctx) shard_id of
       None \<Rightarrow> None
     | Some desired \<Rightarrow> if owner \<noteq> desired then Some (ShardReassignment shard_id desired) else None)
     (sx_assignments ctx)"

definition deterministic_rebalance :: "deterministic_modulo \<Rightarrow> shard_context \<Rightarrow> shard_reassignment list" where
  "deterministic_rebalance s ctx =
     (if dm_max_simultaneous_rebalance s = 0 then deterministic_moves ctx
      else take (dm_max_simultaneous_rebalance s) (deterministic_moves ctx))"

definition deterministic_strategy :: "deterministic_modulo \<Rightarrow> allocation_strategy" where
  "deterministic_strategy s = \<lparr>allocate_shard = deterministic_allocate s, rebalance = deterministic_rebalance s\<rparr>"

section \<open>Least-shard strategy\<close>

record least_shard =
  ls_rebalance_threshold :: nat
  ls_max_simultaneous_rebalance :: nat

definition default_least_shard :: least_shard where
  "default_least_shard = \<lparr>ls_rebalance_threshold = 1, ls_max_simultaneous_rebalance = 10\<rparr>"

definition least_allocate :: "least_shard \<Rightarrow> shard_context \<Rightarrow> shard_id \<Rightarrow> node_id option" where
  "least_allocate s ctx shard_id =
     map_option fst (min_owner (routable_owner_counts (sx_routable_nodes ctx) (sx_assignments ctx)))"

text \<open>
  The rebalance loop. Its first argument is the number of moves still allowed
  (\<open>max_simultaneous_rebalance - reassignments.len()\<close>): every round that does not stop pushes one.
\<close>

fun least_loop ::
  "nat \<Rightarrow> nat \<Rightarrow> shard_assignments \<Rightarrow> (node_id, nat) btree \<Rightarrow> shard_id list \<Rightarrow> shard_reassignment list
     \<Rightarrow> shard_reassignment list"
where
  "least_loop 0 threshold assignments counts moved reassignments = reassignments"
| "least_loop (Suc room) threshold assignments counts moved reassignments =
     (case (max_owner counts, min_owner counts) of
        (Some (from, max_count), Some (to, min_count)) \<Rightarrow>
          if max_count - min_count \<le> threshold then reassignments
          else
            (case find (\<lambda>(shard_id, owner). owner = from \<and> shard_id \<notin> set moved) assignments of
               None \<Rightarrow> reassignments
             | Some (shard_id, _) \<Rightarrow>
                 least_loop room threshold
                   (bt_insert shard_id to assignments)
                   (bt_insert to (min_count + 1) (bt_insert from (max_count - 1) counts))
                   (bs_insert shard_id moved)
                   (reassignments @ [ShardReassignment shard_id to]))
      | _ \<Rightarrow> reassignments)"

definition least_rebalance :: "least_shard \<Rightarrow> shard_context \<Rightarrow> shard_reassignment list" where
  "least_rebalance s ctx =
     (if ls_max_simultaneous_rebalance s = 0 then []
      else least_loop (ls_max_simultaneous_rebalance s) (max (ls_rebalance_threshold s) 1)
        (sx_assignments ctx) (routable_owner_counts (sx_routable_nodes ctx) (sx_assignments ctx)) [] [])"

definition least_strategy :: "least_shard \<Rightarrow> allocation_strategy" where
  "least_strategy s = \<lparr>allocate_shard = least_allocate s, rebalance = least_rebalance s\<rparr>"

section \<open>The contract of a strategy\<close>

text \<open>
  A context as the coordinator builds it: assignments keyed in ascending order and the ids of the
  routable members in ascending order.
\<close>

definition context_ok :: "shard_context \<Rightarrow> bool" where
  "context_ok ctx \<longleftrightarrow> bt_ok (sx_assignments ctx) \<and> sorted_wrt (<) (sx_routable_nodes ctx)"

locale lawful_strategy =
  fixes strategy :: allocation_strategy
  assumes allocates: "context_ok ctx \<Longrightarrow> sx_routable_nodes ctx \<noteq> [] \<Longrightarrow>
      \<exists>n \<in> set (sx_routable_nodes ctx). allocate_shard strategy ctx s = Some n"
    and moves_routable: "context_ok ctx \<Longrightarrow> r \<in> set (rebalance strategy ctx) \<Longrightarrow>
      ra_to r \<in> set (sx_routable_nodes ctx)"
    and moves_owned: "context_ok ctx \<Longrightarrow> r \<in> set (rebalance strategy ctx) \<Longrightarrow>
      map_of (sx_assignments ctx) (ra_shard_id r) \<notin> {None, Some (ra_to r)}"
    and moves_once: "context_ok ctx \<Longrightarrow> distinct (map ra_shard_id (rebalance strategy ctx))"

section \<open>The deterministic strategy meets it\<close>

lemma desired_owner_Nil [simp]: "desired_owner [] s = None"
  by (simp add: desired_owner_def)

lemma desired_owner_nonempty:
  "routable \<noteq> [] \<Longrightarrow> desired_owner routable s = Some (routable ! (unat s mod length routable))"
  by (simp add: desired_owner_def Let_def)

lemma desired_owner_routable: "desired_owner routable s = Some n \<Longrightarrow> n \<in> set routable"
  by (auto simp: desired_owner_def Let_def split: if_splits)

lemma deterministic_moves_iff:
  assumes "bt_ok (sx_assignments ctx)"
  shows "r \<in> set (deterministic_moves ctx) \<longleftrightarrow>
    (\<exists>owner. map_of (sx_assignments ctx) (ra_shard_id r) = Some owner \<and> owner \<noteq> ra_to r)
    \<and> desired_owner (sx_routable_nodes ctx) (ra_shard_id r) = Some (ra_to r)"
  using assms
  by (cases r)
    (auto simp: deterministic_moves_def set_map_filter bt_get_iff split: option.splits if_splits
      intro!: bexI [rotated])

lemma deterministic_moves_ascending:
  assumes "bt_ok (sx_assignments ctx)"
  shows "sorted_wrt (<) (map ra_shard_id (deterministic_moves ctx))"
proof -
  have "sorted_wrt (<) (map ra_shard_id (List.map_filter (\<lambda>(shard_id, owner).
      case desired_owner R shard_id of
        None \<Rightarrow> None
      | Some desired \<Rightarrow> if owner \<noteq> desired then Some (ShardReassignment shard_id desired) else None) m))"
    if "bt_ok m" for m :: shard_assignments and R
    using that
    by (induction m) (fastforce simp: set_map_filter split: option.splits if_splits)+
  with assms show ?thesis
    by (simp add: deterministic_moves_def)
qed

lemma deterministic_rebalance_take:
  "\<exists>k. deterministic_rebalance s ctx = take k (deterministic_moves ctx)"
  unfolding deterministic_rebalance_def by (metis order_refl take_all)

lemma set_deterministic_rebalance: "set (deterministic_rebalance s ctx) \<subseteq> set (deterministic_moves ctx)"
  using deterministic_rebalance_take [of s ctx] by (metis set_take_subset)

interpretation deterministic: lawful_strategy "deterministic_strategy s"
proof unfold_locales
  fix ctx :: shard_context and sh
  assume "sx_routable_nodes ctx \<noteq> []"
  then show "\<exists>n \<in> set (sx_routable_nodes ctx). allocate_shard (deterministic_strategy s) ctx sh = Some n"
    by (simp add: deterministic_strategy_def deterministic_allocate_def desired_owner_nonempty)
next
  fix ctx :: shard_context and r
  assume ok: "context_ok ctx" and r: "r \<in> set (rebalance (deterministic_strategy s) ctx)"
  then have "r \<in> set (deterministic_moves ctx)"
    using set_deterministic_rebalance by (auto simp: deterministic_strategy_def)
  with ok show "ra_to r \<in> set (sx_routable_nodes ctx)"
    and "map_of (sx_assignments ctx) (ra_shard_id r) \<notin> {None, Some (ra_to r)}"
    by (auto simp: context_ok_def deterministic_moves_iff dest: desired_owner_routable)
next
  fix ctx :: shard_context
  assume "context_ok ctx"
  then have "distinct (map ra_shard_id (deterministic_moves ctx))"
    using deterministic_moves_ascending strict_sorted_iff by (auto simp: context_ok_def)
  then show "distinct (map ra_shard_id (rebalance (deterministic_strategy s) ctx))"
    using deterministic_rebalance_take [of s ctx]
    by (auto simp: deterministic_strategy_def take_map [symmetric])
qed

section \<open>Counting shards per owner\<close>

lemma foldl_select:
  assumes sel: "\<And>p q. f p q \<in> {p, q}" and best: "\<And>p q. R (f p q) p \<and> R (f p q) q"
    and "reflp R" and "transp R"
  shows "foldl f p ps \<in> set (p # ps) \<and> (\<forall>q \<in> set (p # ps). R (foldl f p ps) q)"
proof (induction ps arbitrary: p)
  case Nil
  then show ?case using assms(3) by (simp add: reflpD)
next
  case (Cons a ps)
  let ?b = "foldl f (f p a) ps"
  have IH: "?b \<in> set (f p a # ps)" "R ?b (f p a)" "\<forall>q \<in> set ps. R ?b q"
    using Cons [of "f p a"] by auto
  have "R ?b p" "R ?b a"
    using IH(2) best [of p a] assms(4) by (auto dest: transpD)
  then show ?case
    using IH(1,3) sel [of p a] by auto
qed

lemma min_owner_Some:
  assumes "min_owner counts = Some (n, c)"
  shows "(n, c) \<in> set counts" and "\<forall>q \<in> set counts. c \<le> snd q"
proof -
  obtain p ps where "counts = p # ps"
    using assms by (cases counts) auto
  then show "(n, c) \<in> set counts" and "\<forall>q \<in> set counts. c \<le> snd q"
    using assms foldl_select [of "\<lambda>best q. if snd q < snd best \<or> snd q = snd best \<and> fst q < fst best then q else best"
        "\<lambda>x y. snd x \<le> snd y" p ps]
    by (auto simp: reflp_def transp_def)
qed

lemma max_owner_Some:
  assumes "max_owner counts = Some (n, c)"
  shows "(n, c) \<in> set counts" and "\<forall>q \<in> set counts. snd q \<le> c"
proof -
  obtain p ps where "counts = p # ps"
    using assms by (cases counts) auto
  then show "(n, c) \<in> set counts" and "\<forall>q \<in> set counts. snd q \<le> c"
    using assms foldl_select [of "\<lambda>best q. if snd q < snd best \<or> snd q = snd best \<and> fst best < fst q then best else q"
        "\<lambda>x y. snd y \<le> snd x" p ps]
    by (auto simp: reflp_def transp_def)
qed

lemma owner_None_iff: "min_owner counts = None \<longleftrightarrow> counts = []" "max_owner counts = None \<longleftrightarrow> counts = []"
  by (cases counts; simp)+

lemma owned_shard_count_Cons [simp]:
  "owned_shard_count [] n = 0"
  "owned_shard_count (p # A) n = (if snd p = n then Suc (owned_shard_count A n) else owned_shard_count A n)"
  by (simp_all add: owned_shard_count_def)

lemma owned_shard_count_insert:
  "bt_ok A \<Longrightarrow> map_of A s = Some u \<Longrightarrow>
     owned_shard_count (bt_insert s v A) n + of_bool (u = n) = owned_shard_count A n + of_bool (v = n)"
  using bt.count_ins_upd [of A s u "\<lambda>x. x = n" v] by (simp add: owned_shard_count_def)

lemma counts_fold:
  fixes counts :: "(node_id, nat) btree"
  shows "map_of (foldl (\<lambda>counts (shard_id, owner). bt_adjust owner Suc counts) counts A) n
    = map_option (\<lambda>c. c + owned_shard_count A n) (map_of counts n)"
  by (induction A arbitrary: counts) (auto simp: option.map_comp comp_def option.map_ident)

lemma counts_fold_ok:
  "bt_ok counts \<Longrightarrow> bt_ok (foldl (\<lambda>counts (shard_id, owner). bt_adjust owner Suc counts) counts A)"
  by (induction A arbitrary: counts) auto

lemma routable_owner_counts_lookup:
  "map_of (routable_owner_counts R A) n = (if n \<in> set R then Some (owned_shard_count A n) else None)"
proof -
  have "map_of (bt_collect (map (\<lambda>node_id. (node_id, 0 :: nat)) R)) n = (if n \<in> set R then Some 0 else None)"
    unfolding map_of_bt_collect by (induction R rule: rev_induct) auto
  then show ?thesis
    by (simp add: routable_owner_counts_def counts_fold)
qed

lemma routable_owner_counts_ok: "bt_ok (routable_owner_counts R A)"
  by (simp add: routable_owner_counts_def counts_fold_ok)

section \<open>The least-shard loop\<close>

definition apply_moves :: "shard_reassignment list \<Rightarrow> shard_assignments \<Rightarrow> shard_assignments" where
  "apply_moves ms A = foldl (\<lambda>A r. bt_insert (ra_shard_id r) (ra_to r) A) A ms"

definition balanced :: "nat \<Rightarrow> node_id list \<Rightarrow> shard_assignments \<Rightarrow> bool" where
  "balanced threshold R A \<longleftrightarrow>
     (\<forall>n \<in> set R. \<forall>m \<in> set R. owned_shard_count A n \<le> owned_shard_count A m + threshold)"

text \<open>
  Between rounds the counts are those of the working assignment, and a node that received a shard
  owns at most one more than the least loaded node. A node that must give a shard away owns at
  least two more, so it never received one: a shard that has not moved is always found.
\<close>

definition loop_inv :: "node_id list \<Rightarrow> shard_assignments \<Rightarrow> (node_id, nat) btree \<Rightarrow> shard_id list \<Rightarrow> bool" where
  "loop_inv R A counts moved \<longleftrightarrow> bt_ok A \<and> bt_ok counts
     \<and> (\<forall>n. map_of counts n = (if n \<in> set R then Some (owned_shard_count A n) else None))
     \<and> (\<forall>s \<in> set moved. \<exists>n. map_of A s = Some n
          \<and> (\<forall>m \<in> set R. owned_shard_count A n \<le> owned_shard_count A m + 1))"

lemma loop_inv_owner:
  assumes "loop_inv R A counts moved" and "(n, c) \<in> set counts"
  shows "n \<in> set R \<and> c = owned_shard_count A n"
proof -
  have "bt_ok counts"
    using assms(1) by (simp add: loop_inv_def)
  with assms(2) have "map_of counts n = Some c"
    by (simp add: bt_get_iff)
  then show ?thesis
    using assms(1) by (simp add: loop_inv_def split: if_splits)
qed

lemma loop_inv_entry:
  assumes "loop_inv R A counts moved" and "n \<in> set R"
  shows "(n, owned_shard_count A n) \<in> set counts"
proof -
  have "map_of counts n = Some (owned_shard_count A n)"
    using assms by (simp add: loop_inv_def)
  then show ?thesis by (rule map_of_SomeD)
qed

lemma loop_extremes:
  assumes inv: "loop_inv R A counts moved" and ne: "R \<noteq> []"
  shows "\<exists>giver taker. max_owner counts = Some (giver, owned_shard_count A giver) \<and> giver \<in> set R
    \<and> min_owner counts = Some (taker, owned_shard_count A taker) \<and> taker \<in> set R
    \<and> (\<forall>n \<in> set R. owned_shard_count A taker \<le> owned_shard_count A n
         \<and> owned_shard_count A n \<le> owned_shard_count A giver)"
proof -
  have "counts \<noteq> []"
    using ne loop_inv_entry [OF inv, of "hd R"] by auto
  then obtain giver cf taker ct where max: "max_owner counts = Some (giver, cf)"
    and min: "min_owner counts = Some (taker, ct)"
    using owner_None_iff by (metis option.exhaust surj_pair)
  note mx = max_owner_Some [OF max] and mn = min_owner_Some [OF min]
  have "giver \<in> set R \<and> cf = owned_shard_count A giver" "taker \<in> set R \<and> ct = owned_shard_count A taker"
    using loop_inv_owner [OF inv] mx(1) mn(1) by blast+
  moreover have "\<forall>n \<in> set R. ct \<le> owned_shard_count A n \<and> owned_shard_count A n \<le> cf"
    using loop_inv_entry [OF inv] mx(2) mn(2) by fastforce
  ultimately show ?thesis
    using max min by auto
qed

lemma owned_shard_count_pos:
  "0 < owned_shard_count A n \<Longrightarrow> \<exists>s. (s, n) \<in> set A"
  by (induction A) (auto split: if_splits)

lemma loop_finds_shard:
  assumes inv: "loop_inv R A counts moved" and "taker \<in> set R"
    and "owned_shard_count A taker + 1 < owned_shard_count A giver"
  shows "\<exists>s. find (\<lambda>(shard_id, owner). owner = giver \<and> shard_id \<notin> set moved) A = Some (s, giver)
    \<and> map_of A s = Some giver \<and> s \<notin> set moved"
proof -
  obtain s where s: "(s, giver) \<in> set A"
    using owned_shard_count_pos [of A "giver"] assms(3) by auto
  have "s \<notin> set moved"
    using inv s assms(2,3) unfolding loop_inv_def by (metis bt_get_iff leD option.inject)
  with s have "find (\<lambda>(shard_id, owner). owner = giver \<and> shard_id \<notin> set moved) A \<noteq> None"
    by (auto simp: find_None_iff)
  then obtain p where p: "find (\<lambda>(shard_id, owner). owner = giver \<and> shard_id \<notin> set moved) A = Some p"
    by blast
  then have "p \<in> set A" "snd p = giver" "fst p \<notin> set moved"
    by (force simp: find_Some_iff in_set_conv_nth)+
  with p inv show ?thesis
    by (cases p) (auto simp: loop_inv_def bt_get_iff)
qed

lemma loop_inv_step:
  assumes inv: "loop_inv R A counts moved"
    and "giver \<in> set R" "taker \<in> set R" and gap: "owned_shard_count A taker + 1 < owned_shard_count A giver"
    and least: "\<forall>n \<in> set R. owned_shard_count A taker \<le> owned_shard_count A n"
    and s: "map_of A s = Some giver" "s \<notin> set moved"
  shows "loop_inv R (bt_insert s taker A)
    (bt_insert taker (owned_shard_count A taker + 1) (bt_insert giver (owned_shard_count A giver - 1) counts))
    (bs_insert s moved)"
proof -
  have ok: "bt_ok A" "bt_ok counts" and neq: "giver \<noteq> taker"
    using inv gap by (auto simp: loop_inv_def)
  have cnt: "owned_shard_count (bt_insert s taker A) n =
      (if n = taker then owned_shard_count A taker + 1
       else if n = giver then owned_shard_count A giver - 1 else owned_shard_count A n)" for n
    using owned_shard_count_insert [OF ok(1) s(1), of taker n] neq by (auto split: if_splits)
  have low: "owned_shard_count A taker \<le> owned_shard_count (bt_insert s taker A) m" if "m \<in> set R" for m
    using that least gap by (auto simp: cnt)
  have "\<exists>n. map_of (bt_insert s taker A) x = Some n
      \<and> (\<forall>m \<in> set R. owned_shard_count (bt_insert s taker A) n \<le> owned_shard_count (bt_insert s taker A) m + 1)"
    if x: "x \<in> insert s (set moved)" for x
  proof (cases "x = s")
    case True
    with low show ?thesis by (auto simp: cnt)
  next
    case False
    with x obtain n where n: "map_of A x = Some n" and "\<forall>m \<in> set R. owned_shard_count A n \<le> owned_shard_count A m + 1"
      using inv by (auto simp: loop_inv_def)
    with \<open>taker \<in> set R\<close> gap have "n \<noteq> giver" "owned_shard_count A n \<le> owned_shard_count A taker + 1"
      by auto
    then have "owned_shard_count (bt_insert s taker A) n \<le> owned_shard_count A taker + 1"
      by (simp add: cnt)
    with low have "\<forall>m \<in> set R. owned_shard_count (bt_insert s taker A) n \<le> owned_shard_count (bt_insert s taker A) m + 1"
      by (meson add_le_mono1 order_trans)
    with n False show ?thesis by auto
  qed
  then show ?thesis
    using inv ok neq assms(2,3) by (auto simp: loop_inv_def cnt)
qed

text \<open>What a run of the loop adds to the requests made so far.\<close>

definition loop_moves :: "nat \<Rightarrow> nat \<Rightarrow> node_id list \<Rightarrow> shard_assignments \<Rightarrow> shard_id list \<Rightarrow> shard_reassignment list \<Rightarrow> bool"
where
  "loop_moves room threshold R A moved ms \<longleftrightarrow> length ms \<le> room
     \<and> distinct (map ra_shard_id ms) \<and> ra_shard_id ` set ms \<inter> set moved = {}
     \<and> (\<forall>r \<in> set ms. ra_to r \<in> set R
          \<and> (\<exists>owner \<in> set R. map_of A (ra_shard_id r) = Some owner \<and> owner \<noteq> ra_to r))
     \<and> (length ms < room \<longrightarrow> balanced threshold R (apply_moves ms A))"

lemma loop_moves_Nil: "balanced threshold R A \<Longrightarrow> loop_moves room threshold R A moved []"
  by (simp add: loop_moves_def apply_moves_def)

lemma loop_moves_Cons:
  assumes "loop_moves room threshold R (bt_insert s to A) (bs_insert s moved) ms"
    and "s \<notin> set moved" and "map_of A s = Some owner" and "owner \<in> set R" and "to \<in> set R" and "owner \<noteq> to"
  shows "loop_moves (Suc room) threshold R A moved (ShardReassignment s to # ms)"
proof -
  have "ra_shard_id r \<noteq> s" if "r \<in> set ms" for r
    using assms(1) that by (auto simp: loop_moves_def)
  then show ?thesis
    using assms by (auto simp: loop_moves_def apply_moves_def)
qed

lemma least_loop_moves:
  assumes "loop_inv R A counts moved" and "1 \<le> threshold"
  shows "\<exists>ms. least_loop room threshold A counts moved acc = acc @ ms \<and> loop_moves room threshold R A moved ms"
  using assms(1)
proof (induction room arbitrary: A counts moved acc)
  case 0
  then show ?case by (simp add: loop_moves_def)
next
  case (Suc room)
  show ?case
  proof (cases "R = []")
    case True
    then have "counts = []"
      using Suc.prems by (cases counts) (auto simp: loop_inv_def fun_eq_iff split: if_splits)
    with True show ?thesis
      by (auto intro!: exI [of _ "[]"] loop_moves_Nil simp: balanced_def)
  next
    case False
    obtain giver taker where ext: "max_owner counts = Some (giver, owned_shard_count A giver)" "giver \<in> set R"
      "min_owner counts = Some (taker, owned_shard_count A taker)" "taker \<in> set R"
      and bounds: "\<forall>n \<in> set R. owned_shard_count A taker \<le> owned_shard_count A n
        \<and> owned_shard_count A n \<le> owned_shard_count A giver"
      using loop_extremes [OF Suc.prems False] by blast
    show ?thesis
    proof (cases "owned_shard_count A giver - owned_shard_count A taker \<le> threshold")
      case True
      have "balanced threshold R A"
        unfolding balanced_def
      proof (intro ballI)
        fix n m assume "n \<in> set R" "m \<in> set R"
        with bounds have "owned_shard_count A n \<le> owned_shard_count A giver"
          "owned_shard_count A taker \<le> owned_shard_count A m"
          by blast+
        with True show "owned_shard_count A n \<le> owned_shard_count A m + threshold"
          by linarith
      qed
      with True ext show ?thesis
        by (auto intro!: exI [of _ "[]"] loop_moves_Nil)
    next
      case unbalanced: False
      then have gap: "owned_shard_count A taker + 1 < owned_shard_count A giver"
        using assms(2) by auto
      obtain s where found: "find (\<lambda>(shard_id, owner). owner = giver \<and> shard_id \<notin> set moved) A = Some (s, giver)"
        and s: "map_of A s = Some giver" "s \<notin> set moved"
        using loop_finds_shard [OF Suc.prems ext(4) gap] by blast
      have "loop_inv R (bt_insert s taker A)
          (bt_insert taker (owned_shard_count A taker + 1) (bt_insert giver (owned_shard_count A giver - 1) counts))
          (bs_insert s moved)"
        using loop_inv_step [OF Suc.prems ext(2,4) gap _ s] bounds by blast
      from Suc.IH [OF this] obtain ms where
        eq: "least_loop room threshold (bt_insert s taker A)
          (bt_insert taker (owned_shard_count A taker + 1) (bt_insert giver (owned_shard_count A giver - 1) counts))
          (bs_insert s moved) (acc @ [ShardReassignment s taker]) = (acc @ [ShardReassignment s taker]) @ ms"
        and ms: "loop_moves room threshold R (bt_insert s taker A) (bs_insert s moved) ms"
        by blast
      have "giver \<noteq> taker"
        using gap by auto
      then have "loop_moves (Suc room) threshold R A moved (ShardReassignment s taker # ms)"
        by (rule loop_moves_Cons [OF ms s(2,1) ext(2,4)])
      with eq ext found unbalanced show ?thesis
        by (auto intro!: exI [of _ "ShardReassignment s taker # ms"])
    qed
  qed
qed

lemma least_rebalance_moves:
  assumes "context_ok ctx"
  shows "loop_moves (ls_max_simultaneous_rebalance s) (max (ls_rebalance_threshold s) 1)
    (sx_routable_nodes ctx) (sx_assignments ctx) [] (least_rebalance s ctx)"
proof (cases "ls_max_simultaneous_rebalance s = 0")
  case True
  then show ?thesis by (simp add: least_rebalance_def loop_moves_def)
next
  case False
  have "loop_inv (sx_routable_nodes ctx) (sx_assignments ctx)
      (routable_owner_counts (sx_routable_nodes ctx) (sx_assignments ctx)) []"
    using assms by (simp add: loop_inv_def context_ok_def routable_owner_counts_lookup routable_owner_counts_ok)
  from least_loop_moves [OF this, of "max (ls_rebalance_threshold s) 1" "ls_max_simultaneous_rebalance s" "[]"]
  show ?thesis
    using False by (auto simp: least_rebalance_def)
qed

lemma least_allocate_minimal:
  assumes "sx_routable_nodes ctx \<noteq> []"
  shows "\<exists>n \<in> set (sx_routable_nodes ctx). least_allocate s ctx sh = Some n
    \<and> (\<forall>m \<in> set (sx_routable_nodes ctx).
          owned_shard_count (sx_assignments ctx) n \<le> owned_shard_count (sx_assignments ctx) m)"
proof -
  let ?R = "sx_routable_nodes ctx" and ?A = "sx_assignments ctx"
  let ?c = "routable_owner_counts ?R ?A"
  have entry: "(n, c) \<in> set ?c \<longleftrightarrow> n \<in> set ?R \<and> c = owned_shard_count ?A n" for n c
    using bt_get_iff [OF routable_owner_counts_ok, of ?R ?A n c]
    by (auto simp: routable_owner_counts_lookup split: if_splits)
  have "?c \<noteq> []"
    using entry [of "hd ?R"] assms by fastforce
  then obtain n c where min: "min_owner ?c = Some (n, c)"
    using owner_None_iff(1) [of ?c] by (metis option.exhaust surj_pair)
  note mn = min_owner_Some [OF min]
  have "c \<le> owned_shard_count ?A m" if "m \<in> set ?R" for m
    using mn(2) entry [of m] that by fastforce
  with mn(1) entry min show ?thesis
    by (auto simp: least_allocate_def)
qed

interpretation least: lawful_strategy "least_strategy s"
proof unfold_locales
  fix ctx :: shard_context and sh
  assume "sx_routable_nodes ctx \<noteq> []"
  then show "\<exists>n \<in> set (sx_routable_nodes ctx). allocate_shard (least_strategy s) ctx sh = Some n"
    using least_allocate_minimal [of ctx s sh] by (auto simp: least_strategy_def)
next
  fix ctx :: shard_context and r
  assume "context_ok ctx" and "r \<in> set (rebalance (least_strategy s) ctx)"
  then show "ra_to r \<in> set (sx_routable_nodes ctx)"
    and "map_of (sx_assignments ctx) (ra_shard_id r) \<notin> {None, Some (ra_to r)}"
    using least_rebalance_moves [of ctx s] by (auto simp: loop_moves_def least_strategy_def)
next
  fix ctx :: shard_context
  assume "context_ok ctx"
  then show "distinct (map ra_shard_id (rebalance (least_strategy s) ctx))"
    using least_rebalance_moves [of ctx s] by (simp add: loop_moves_def least_strategy_def)
qed

section \<open>Properties\<close>

text \<open>C9: One least-shard rebalance pass asks for at most the configured number of moves, each of a
  different shard from one routable node to another; when it asks for fewer, the shard counts of
  any two routable nodes differ afterwards by at most the threshold (at least one).\<close>

theorem least_rebalance_balances:
  assumes "bt_ok (sx_assignments ctx)" and "sorted_wrt (<) (sx_routable_nodes ctx)"
  shows "length (least_rebalance s ctx) \<le> ls_max_simultaneous_rebalance s
    \<and> distinct (map ra_shard_id (least_rebalance s ctx))
    \<and> (\<forall>r \<in> set (least_rebalance s ctx). ra_to r \<in> set (sx_routable_nodes ctx)
         \<and> (\<exists>owner \<in> set (sx_routable_nodes ctx).
              map_of (sx_assignments ctx) (ra_shard_id r) = Some owner \<and> owner \<noteq> ra_to r))
    \<and> (length (least_rebalance s ctx) < ls_max_simultaneous_rebalance s \<longrightarrow>
         balanced (max (ls_rebalance_threshold s) 1) (sx_routable_nodes ctx)
           (apply_moves (least_rebalance s ctx) (sx_assignments ctx)))"
  using least_rebalance_moves [of ctx s] assms by (simp add: context_ok_def loop_moves_def)

abbreviation sample_context :: shard_context where
  "sample_context \<equiv> \<lparr>sx_entity_type = ''cart'', sx_config = \<lparr>number_of_shards = 3\<rparr>,
     sx_membership = sample_table, sx_routable_nodes = [NodeId ''a'' ''1'', NodeId ''b'' ''1''],
     sx_assignments = [(0, NodeId ''a'' ''1''), (1, NodeId ''a'' ''1''), (2, NodeId ''a'' ''1'')]\<rparr>"

theorem least_rebalance_balances_witness:
  "balanced 1 [NodeId ''a'' ''1'', NodeId ''b'' ''1'']
     (apply_moves [ShardReassignment 0 (NodeId ''b'' ''1'')]
        [(0, NodeId ''a'' ''1''), (1, NodeId ''a'' ''1''), (2, NodeId ''a'' ''1'')])"
proof -
  have ok: "bt_ok (sx_assignments sample_context)" "sorted_wrt (<) (sx_routable_nodes sample_context)"
    by (simp_all add: less_node_id_def)
  have "least_rebalance default_least_shard sample_context = [ShardReassignment 0 (NodeId ''b'' ''1'')]"
    by (simp add: least_rebalance_def default_least_shard_def routable_owner_counts_def bt_collect_def
        bt_adjust_def less_node_id_def eval_nat_numeral)
  with least_rebalance_balances [OF ok, of default_least_shard] show ?thesis
    by (simp add: default_least_shard_def)
qed

end
