(* ===== verification/Shard_Coordinator.thy ===== *)
theory Shard_Coordinator
  imports Sharding_Allocation
begin

text \<open>
  The shard ownership coordinator (\<open>crates/rakka-sharding/src/coordinator.rs\<close>): its assignments,
  the reconciliation pass against the membership table with the plan of decisions it returns, the
  ownership snapshot and the restore from it. The allocation strategy is a parameter of the state,
  as in the source; facts about an arbitrary strategy come first, facts that need the strategy's
  contract are proved inside the locale \<open>lawful_strategy\<close>.
\<close>

section \<open>Data\<close>

datatype shard_assignment = ShardAssignment (as_shard: shard_key) (as_owner: node_id)

datatype shard_move_reason =
  InitialAllocation | RebalanceMove | GracefulLeave | OwnerUnavailable | NoRoutableMembers

datatype shard_decision =
    Assign shard_key node_id shard_move_reason
  | Move shard_key node_id node_id shard_move_reason
  | Unassign shard_key node_id shard_move_reason

fun decision_shard :: "shard_decision \<Rightarrow> shard_key" where
  "decision_shard (Assign shard _ _) = shard"
| "decision_shard (Move shard _ _ _) = shard"
| "decision_shard (Unassign shard _ _) = shard"

fun decision_reason :: "shard_decision \<Rightarrow> shard_move_reason" where
  "decision_reason (Assign _ _ reason) = reason"
| "decision_reason (Move _ _ _ reason) = reason"
| "decision_reason (Unassign _ _ reason) = reason"

record shard_ownership_snapshot =
  ow_revision :: u64
  ow_entity_type :: entity_type
  ow_number_of_shards :: u32
  ow_assignments :: "shard_assignment list"

record shard_rebalance_plan =
  rp_previous_revision :: u64
  rp_new_revision :: u64
  rp_decisions :: "shard_decision list"

definition plan_is_empty :: "shard_rebalance_plan \<Rightarrow> bool" where
  "plan_is_empty plan \<longleftrightarrow> rp_decisions plan = []"

record shard_coordinator =
  sc_entity_type :: entity_type
  sc_config :: sharding_config
  sc_assignments :: shard_assignments
  sc_revision :: u64
  sc_strategy :: allocation_strategy

section \<open>Construction, lookup and snapshots\<close>

definition coordinator_with_strategy :: "entity_type \<Rightarrow> sharding_config \<Rightarrow> allocation_strategy \<Rightarrow> shard_coordinator" where
  "coordinator_with_strategy entity_type config strategy =
     \<lparr>sc_entity_type = entity_type, sc_config = config, sc_assignments = [], sc_revision = 0,
      sc_strategy = strategy\<rparr>"

definition coordinator_new :: "entity_type \<Rightarrow> sharding_config \<Rightarrow> shard_coordinator" where
  "coordinator_new entity_type config =
     coordinator_with_strategy entity_type config (deterministic_strategy deterministic_new)"

fun restore_assignments ::
  "entity_type \<Rightarrow> sharding_config \<Rightarrow> u32 \<Rightarrow> shard_assignment list \<Rightarrow> shard_assignments
     \<Rightarrow> (sharding_error, shard_assignments) result"
where
  "restore_assignments entity_type config shards [] acc = Inr acc"
| "restore_assignments entity_type config shards (a # as) acc =
     (if sk_entity_type (as_shard a) \<noteq> entity_type then
        Inl (PersistedCoordinatorSnapshotMismatch entity_type (sk_entity_type (as_shard a))
          (number_of_shards config) shards)
      else if \<not> contains_shard config (sk_shard_id (as_shard a)) then
        Inl (UnknownShard (sk_shard_id (as_shard a)) (number_of_shards config))
      else restore_assignments entity_type config shards as
        (bt_insert (sk_shard_id (as_shard a)) (as_owner a) acc))"

definition from_snapshot_with_strategy ::
  "entity_type \<Rightarrow> sharding_config \<Rightarrow> shard_ownership_snapshot \<Rightarrow> allocation_strategy
     \<Rightarrow> (sharding_error, shard_coordinator) result"
where
  "from_snapshot_with_strategy entity_type config snapshot strategy =
     (if ow_entity_type snapshot \<noteq> entity_type \<or> ow_number_of_shards snapshot \<noteq> number_of_shards config then
        Inl (PersistedCoordinatorSnapshotMismatch entity_type (ow_entity_type snapshot)
          (number_of_shards config) (ow_number_of_shards snapshot))
      else
        (case restore_assignments entity_type config (ow_number_of_shards snapshot) (ow_assignments snapshot) [] of
           Inl e \<Rightarrow> Inl e
         | Inr assignments \<Rightarrow>
             Inr \<lparr>sc_entity_type = entity_type, sc_config = config, sc_assignments = assignments,
                  sc_revision = ow_revision snapshot, sc_strategy = strategy\<rparr>))"

definition from_snapshot ::
  "entity_type \<Rightarrow> sharding_config \<Rightarrow> shard_ownership_snapshot \<Rightarrow> (sharding_error, shard_coordinator) result"
where
  "from_snapshot entity_type config snapshot =
     from_snapshot_with_strategy entity_type config snapshot (deterministic_strategy deterministic_new)"

definition coordinator_shard_key :: "shard_coordinator \<Rightarrow> shard_id \<Rightarrow> shard_key" where
  "coordinator_shard_key c shard_id = ShardKey (sc_entity_type c) shard_id"

definition coordinator_snapshot :: "shard_coordinator \<Rightarrow> shard_ownership_snapshot" where
  "coordinator_snapshot c =
     \<lparr>ow_revision = sc_revision c, ow_entity_type = sc_entity_type c,
      ow_number_of_shards = number_of_shards (sc_config c),
      ow_assignments = map (\<lambda>(shard_id, owner). ShardAssignment (coordinator_shard_key c shard_id) owner)
        (sc_assignments c)\<rparr>"

definition snapshot_owned_shard_count :: "shard_ownership_snapshot \<Rightarrow> node_id \<Rightarrow> nat" where
  "snapshot_owned_shard_count snapshot owner = length (filter (\<lambda>a. as_owner a = owner) (ow_assignments snapshot))"

definition shard_for_entity :: "shard_coordinator \<Rightarrow> entity_id \<Rightarrow> shard_id" where
  "shard_for_entity c entity_id = for_entity (sc_entity_type c) entity_id (sc_config c)"

definition ensure_known_shard :: "shard_coordinator \<Rightarrow> shard_id \<Rightarrow> (sharding_error, unit) result" where
  "ensure_known_shard c shard_id =
     (if contains_shard (sc_config c) shard_id then Inr ()
      else Inl (UnknownShard shard_id (number_of_shards (sc_config c))))"

definition owner_for_shard :: "shard_coordinator \<Rightarrow> shard_id \<Rightarrow> (sharding_error, node_id) result" where
  "owner_for_shard c shard_id =
     (case ensure_known_shard c shard_id of
        Inl e \<Rightarrow> Inl e
      | Inr _ \<Rightarrow>
          (case map_of (sc_assignments c) shard_id of
             Some owner \<Rightarrow> Inr owner
           | None \<Rightarrow> Inl (NoShardOwner (sc_entity_type c) shard_id)))"

definition owner_for_entity :: "shard_coordinator \<Rightarrow> entity_id \<Rightarrow> (sharding_error, node_id) result" where
  "owner_for_entity c entity_id =
     (let shard_id = shard_for_entity c entity_id in
      case map_of (sc_assignments c) shard_id of
        Some owner \<Rightarrow> Inr owner
      | None \<Rightarrow> Inl (NoEntityOwner (sc_entity_type c) entity_id shard_id))"

section \<open>Reconciliation\<close>

definition is_routable_node :: "node_id list \<Rightarrow> node_id \<Rightarrow> bool" where
  "is_routable_node routable_nodes node_id \<longleftrightarrow> node_id \<in> set routable_nodes"

definition move_reason :: "cluster_membership \<Rightarrow> node_id \<Rightarrow> shard_move_reason" where
  "move_reason membership current_owner =
     (case map_option mr_state (membership_member membership current_owner) of
        Some Up \<Rightarrow> RebalanceMove
      | Some Leaving \<Rightarrow> GracefulLeave
      | _ \<Rightarrow> OwnerUnavailable)"

definition bump_revision_if_changed :: "u64 \<Rightarrow> shard_decision list \<Rightarrow> u64" where
  "bump_revision_if_changed revision decisions = (if decisions = [] then revision else revision + 1)"

definition shard_context_of :: "shard_coordinator \<Rightarrow> cluster_membership \<Rightarrow> node_id list \<Rightarrow> shard_assignments \<Rightarrow> shard_context"
where
  "shard_context_of c membership routable_nodes assignments =
     \<lparr>sx_entity_type = sc_entity_type c, sx_config = sc_config c, sx_membership = membership,
      sx_routable_nodes = routable_nodes, sx_assignments = assignments\<rparr>"

text \<open>The strategy's choice for a shard, kept only if it is routable.\<close>

definition choose_owner ::
  "shard_coordinator \<Rightarrow> cluster_membership \<Rightarrow> node_id list \<Rightarrow> shard_assignments \<Rightarrow> shard_id \<Rightarrow> node_id option"
where
  "choose_owner c membership routable_nodes assignments shard_id =
     (case allocate_shard (sc_strategy c) (shard_context_of c membership routable_nodes assignments) shard_id of
        Some owner \<Rightarrow> if is_routable_node routable_nodes owner then Some owner else None
      | None \<Rightarrow> None)"

text \<open>One round of the allocation loop, for a shard of the configured range.\<close>

definition allocate_one ::
  "shard_coordinator \<Rightarrow> cluster_membership \<Rightarrow> node_id list \<Rightarrow> shard_id
     \<Rightarrow> shard_assignments \<times> shard_decision list \<Rightarrow> shard_assignments \<times> shard_decision list"
where
  "allocate_one c membership routable_nodes shard_id st =
     (let (assignments, decisions) = st;
          current_owner = map_of assignments shard_id;
          needs_allocation = (case current_owner of
            Some owner \<Rightarrow> \<not> is_routable_node routable_nodes owner | None \<Rightarrow> True)
      in
      if \<not> needs_allocation then st
      else
        (case (current_owner, choose_owner c membership routable_nodes assignments shard_id) of
           (None, Some to) \<Rightarrow>
             (bt_insert shard_id to assignments,
              decisions @ [Assign (coordinator_shard_key c shard_id) to InitialAllocation])
         | (Some from, Some to) \<Rightarrow>
             if from \<noteq> to then
               (bt_insert shard_id to assignments,
                decisions @ [Move (coordinator_shard_key c shard_id) from to (move_reason membership from)])
             else st
         | (Some from, None) \<Rightarrow>
             (bt_remove shard_id assignments,
              decisions @ [Unassign (coordinator_shard_key c shard_id) from (move_reason membership from)])
         | (None, None) \<Rightarrow> st))"

fun allocate_all ::
  "shard_coordinator \<Rightarrow> cluster_membership \<Rightarrow> node_id list \<Rightarrow> shard_id list
     \<Rightarrow> shard_assignments \<times> shard_decision list \<Rightarrow> shard_assignments \<times> shard_decision list"
where
  "allocate_all c membership routable_nodes [] st = st"
| "allocate_all c membership routable_nodes (shard_id # shard_ids) st =
     allocate_all c membership routable_nodes shard_ids (allocate_one c membership routable_nodes shard_id st)"

text \<open>The loop over the strategy's requests; the first list holds the shards already handled.\<close>

fun apply_reassignments ::
  "shard_coordinator \<Rightarrow> cluster_membership \<Rightarrow> node_id list \<Rightarrow> shard_id list \<Rightarrow> shard_reassignment list
     \<Rightarrow> shard_assignments \<times> shard_decision list \<Rightarrow> shard_assignments \<times> shard_decision list"
where
  "apply_reassignments c membership routable_nodes reassigned [] st = st"
| "apply_reassignments c membership routable_nodes reassigned (r # rs) st =
     (let (assignments, decisions) = st; shard_id = ra_shard_id r; to = ra_to r in
      if \<not> contains_shard (sc_config c) shard_id \<or> shard_id \<in> set reassigned then
        apply_reassignments c membership routable_nodes reassigned rs st
      else if \<not> is_routable_node routable_nodes to then
        apply_reassignments c membership routable_nodes (bs_insert shard_id reassigned) rs st
      else
        apply_reassignments c membership routable_nodes (bs_insert shard_id reassigned) rs
          (case map_of assignments shard_id of
             None \<Rightarrow>
               (bt_insert shard_id to assignments,
                decisions @ [Assign (coordinator_shard_key c shard_id) to InitialAllocation])
           | Some from \<Rightarrow>
               if from \<noteq> to then
                 (bt_insert shard_id to assignments,
                  decisions @ [Move (coordinator_shard_key c shard_id) from to (move_reason membership from)])
               else st))"

definition shard_range :: "sharding_config \<Rightarrow> shard_id list" where
  "shard_range config = map of_nat [0..<unat (number_of_shards config)]"

definition routable_ids_of :: "cluster_membership \<Rightarrow> node_id list" where
  "routable_ids_of membership = map (\<lambda>member. cn_id (mr_node member)) (routable_members membership)"

definition reconcile :: "shard_coordinator \<Rightarrow> cluster_membership \<Rightarrow> shard_rebalance_plan \<times> shard_coordinator" where
  "reconcile c membership =
     (let routable_nodes = routable_ids_of membership;
          (assignments, decisions) =
            (if routable_nodes = [] then
               ([], map (\<lambda>(shard_id, from). Unassign (coordinator_shard_key c shard_id) from NoRoutableMembers)
                  (sc_assignments c))
             else
               let (assignments, decisions) =
                     allocate_all c membership routable_nodes (shard_range (sc_config c)) (sc_assignments c, []);
                   reassignments =
                     rebalance (sc_strategy c) (shard_context_of c membership routable_nodes assignments)
               in apply_reassignments c membership routable_nodes [] reassignments (assignments, decisions));
          new_revision = bump_revision_if_changed (sc_revision c) decisions
      in (\<lparr>rp_previous_revision = sc_revision c, rp_new_revision = new_revision, rp_decisions = decisions\<rparr>,
          c\<lparr>sc_assignments := assignments, sc_revision := new_revision\<rparr>))"

section \<open>What a plan means\<close>

fun apply_decision :: "shard_assignments \<Rightarrow> shard_decision \<Rightarrow> shard_assignments" where
  "apply_decision A (Assign k to _) = bt_insert (sk_shard_id k) to A"
| "apply_decision A (Move k _ to _) = bt_insert (sk_shard_id k) to A"
| "apply_decision A (Unassign k _ _) = bt_remove (sk_shard_id k) A"

text \<open>A decision is truthful when it names the shard's owner at the moment it is taken.\<close>

fun truthful :: "shard_assignments \<Rightarrow> shard_decision \<Rightarrow> bool" where
  "truthful A (Assign k _ _) \<longleftrightarrow> map_of A (sk_shard_id k) = None"
| "truthful A (Move k from to _) \<longleftrightarrow> map_of A (sk_shard_id k) = Some from \<and> from \<noteq> to"
| "truthful A (Unassign k from _) \<longleftrightarrow> map_of A (sk_shard_id k) = Some from"

fun truthful_plan :: "shard_assignments \<Rightarrow> shard_decision list \<Rightarrow> bool" where
  "truthful_plan A [] \<longleftrightarrow> True"
| "truthful_plan A (d # ds) \<longleftrightarrow> truthful A d \<and> truthful_plan (apply_decision A d) ds"

definition decided :: "shard_decision list \<Rightarrow> shard_id set" where
  "decided ds = (\<lambda>d. sk_shard_id (decision_shard d)) ` set ds"

lemma decided_simps [simp]:
  "decided [] = {}" "decided (ds @ [d]) = insert (sk_shard_id (decision_shard d)) (decided ds)"
  by (auto simp: decided_def)

lemma truthful_plan_snoc [simp]:
  "truthful_plan A (ds @ [d]) \<longleftrightarrow> truthful_plan A ds \<and> truthful (foldl apply_decision A ds) d"
  by (induction ds arbitrary: A) auto

lemma shard_key_simps [simp]:
  "sk_shard_id (coordinator_shard_key c s) = s" "sk_entity_type (coordinator_shard_key c s) = sc_entity_type c"
  by (simp_all add: coordinator_shard_key_def)

text \<open>
  The plan built so far: it leads from the assignments at the start to the working ones, names the
  owners truthfully, and names a shard exactly when its owner has changed. A shard named before
  the requests are handled had no routable owner at the start.
\<close>

definition plan_inv ::
  "node_id list \<Rightarrow> shard_assignments \<Rightarrow> shard_id set \<Rightarrow> shard_assignments \<times> shard_decision list \<Rightarrow> bool"
where
  "plan_inv R A0 handled st \<longleftrightarrow> bt_ok (fst st) \<and> foldl apply_decision A0 (snd st) = fst st
     \<and> truthful_plan A0 (snd st)
     \<and> (\<forall>s. s \<in> decided (snd st) \<longleftrightarrow> map_of (fst st) s \<noteq> map_of A0 s)
     \<and> (\<forall>s \<in> decided (snd st). s \<in> handled \<or> map_of A0 s \<notin> Some ` set R)"

lemma plan_inv_decide:
  assumes inv: "plan_inv R A0 handled (A, ds)" and s: "sk_shard_id (decision_shard d) = s"
    and "truthful A d" and "map_of (apply_decision A d) s \<noteq> map_of A0 s"
    and "s \<in> handled' \<or> map_of A0 s \<notin> Some ` set R" and "handled \<subseteq> handled'"
  shows "plan_inv R A0 handled' (apply_decision A d, ds @ [d])"
proof -
  have other: "map_of (apply_decision A d) x = map_of A x" if "x \<noteq> s" for x
    using s that by (cases d) auto
  have "bt_ok (apply_decision A d)"
    using inv by (cases d) (auto simp: plan_inv_def)
  moreover have "x \<in> decided (ds @ [d]) \<longleftrightarrow> map_of (apply_decision A d) x \<noteq> map_of A0 x" for x
    using inv assms(4) other [of x] by (cases "x = s") (simp_all add: plan_inv_def s)
  moreover have "x \<in> handled' \<or> map_of A0 x \<notin> Some ` set R" if "x \<in> decided (ds @ [d])" for x
    using inv assms(5,6) that by (cases "x = s") (auto simp: plan_inv_def s)
  ultimately show ?thesis
    using inv assms(3) by (simp add: plan_inv_def)
qed

lemma plan_inv_mono: "plan_inv R A0 handled st \<Longrightarrow> handled \<subseteq> handled' \<Longrightarrow> plan_inv R A0 handled' st"
  unfolding plan_inv_def by blast

text \<open>The owner a shard gets from one round of the allocation loop, and that the round keeps the plan.\<close>

definition allocated :: "shard_coordinator \<Rightarrow> cluster_membership \<Rightarrow> node_id list \<Rightarrow> shard_assignments \<Rightarrow> shard_id \<Rightarrow> node_id option"
where
  "allocated c m R A s =
     (case map_of A s of
        Some owner \<Rightarrow> if owner \<in> set R then Some owner else choose_owner c m R A s
      | None \<Rightarrow> choose_owner c m R A s)"

lemma choose_owner_routable: "choose_owner c m R A s = Some n \<Longrightarrow> n \<in> set R"
  by (auto simp: choose_owner_def is_routable_node_def split: option.splits if_splits)

lemma allocated_routable: "allocated c m R A s = Some n \<Longrightarrow> n \<in> set R"
  by (auto simp: allocated_def choose_owner_routable split: option.splits if_splits)

lemma allocate_one_lookup:
  "map_of (fst (allocate_one c m R s (A, ds))) = (map_of A)(s := allocated c m R A s)"
  using choose_owner_routable [of c m R A s]
  by (auto simp: allocate_one_def allocated_def is_routable_node_def fun_eq_iff split: option.splits)

lemma allocate_one_plan:
  assumes inv: "plan_inv R A0 handled (A, ds)" and same: "map_of A s = map_of A0 s"
  shows "plan_inv R A0 handled (allocate_one c m R s (A, ds))"
proof (cases "\<exists>owner. map_of A s = Some owner \<and> owner \<in> set R")
  case True
  with inv show ?thesis by (auto simp: allocate_one_def is_routable_node_def)
next
  case False
  then have A0: "map_of A0 s \<notin> Some ` set R"
    using same by auto
  let ?to = "choose_owner c m R A s"
  have step: "allocate_one c m R s (A, ds) =
      (case (map_of A s, ?to) of
         (None, Some n) \<Rightarrow> (bt_insert s n A, ds @ [Assign (coordinator_shard_key c s) n InitialAllocation])
       | (Some o1, Some n) \<Rightarrow> (bt_insert s n A, ds @ [Move (coordinator_shard_key c s) o1 n (move_reason m o1)])
       | (Some o1, None) \<Rightarrow> (bt_remove s A, ds @ [Unassign (coordinator_shard_key c s) o1 (move_reason m o1)])
       | (None, None) \<Rightarrow> (A, ds))"
    using False choose_owner_routable [of c m R A s]
    by (auto simp: allocate_one_def is_routable_node_def split: option.splits)
  note decide = plan_inv_decide [OF inv, where handled' = handled and s = s]
  show ?thesis
  proof (cases "map_of A s"; cases ?to)
    fix n assume "map_of A s = None" "?to = Some n"
    with step same [symmetric] A0 show ?thesis
      using decide [of "Assign (coordinator_shard_key c s) n InitialAllocation"] by simp
  next
    fix o1 n assume *: "map_of A s = Some o1" "?to = Some n"
    then have "o1 \<noteq> n" using False choose_owner_routable [of c m R A s] by auto
    with * step same [symmetric] A0 show ?thesis
      using decide [of "Move (coordinator_shard_key c s) o1 n (move_reason m o1)"] by simp
  next
    fix o1 assume "map_of A s = Some o1" "?to = None"
    with step same [symmetric] A0 show ?thesis
      using decide [of "Unassign (coordinator_shard_key c s) o1 (move_reason m o1)"] by simp
  qed (use inv step in simp)
qed

section \<open>The two loops\<close>

lemma allocate_all_other:
  "s \<notin> set ss \<Longrightarrow> map_of (fst (allocate_all c m R ss st)) s = map_of (fst st) s"
proof (induction ss arbitrary: st)
  case (Cons x ss)
  then show ?case
    using allocate_one_lookup [of c m R x "fst st" "snd st"] by simp
qed simp

lemma allocate_all_routable:
  "s \<in> set ss \<Longrightarrow> map_of (fst (allocate_all c m R ss st)) s = Some n \<Longrightarrow> n \<in> set R"
proof (induction ss arbitrary: st)
  case (Cons x ss)
  show ?case
  proof (cases "s \<in> set ss")
    case True
    with Cons show ?thesis by simp
  next
    case False
    with Cons.prems have "x = s" by simp
    with False Cons.prems show ?thesis
      using allocate_one_lookup [of c m R x "fst st" "snd st"] allocated_routable
      by (simp add: allocate_all_other)
  qed
qed simp

lemma allocate_all_plan:
  assumes "plan_inv R A0 handled st" and "distinct ss" and "\<forall>s \<in> set ss. map_of (fst st) s = map_of A0 s"
  shows "plan_inv R A0 handled (allocate_all c m R ss st)"
  using assms
proof (induction ss arbitrary: st)
  case (Cons x ss)
  obtain A ds where st: "st = (A, ds)" by fastforce
  have "plan_inv R A0 handled (allocate_one c m R x st)"
    using allocate_one_plan Cons.prems st by simp
  moreover have "\<forall>s \<in> set ss. map_of (fst (allocate_one c m R x st)) s = map_of A0 s"
    using allocate_one_lookup [of c m R x A ds] Cons.prems st by auto
  ultimately show ?case
    using Cons by simp
qed simp

text \<open>A request replaces the owner of a shard by a routable node, or changes nothing.\<close>

lemma apply_reassignments_lookup:
  "map_of (fst (apply_reassignments c m R seen rs st)) s = map_of (fst st) s
   \<or> contains_shard (sc_config c) s \<and> map_of (fst (apply_reassignments c m R seen rs st)) s \<in> Some ` set R"
proof (induction rs arbitrary: seen st)
  case (Cons r rs)
  obtain A ds where st: "st = (A, ds)" by fastforce
  show ?case
    using Cons [of seen st] Cons [of "bs_insert (ra_shard_id r) seen" st]
      Cons [of "bs_insert (ra_shard_id r) seen" "(bt_insert (ra_shard_id r) (ra_to r) A, ds @ [d])" for d]
    by (simp add: st is_routable_node_def Let_def split: option.splits) (metis fun_upd_apply imageI)
qed simp

lemma apply_reassignments_plan:
  assumes "plan_inv R A0 (set seen) st"
  shows "\<exists>handled. plan_inv R A0 handled (apply_reassignments c m R seen rs st)"
  using assms
proof (induction rs arbitrary: seen st)
  case (Cons r rs)
  obtain A ds where st: "st = (A, ds)" by fastforce
  let ?s = "ra_shard_id r" and ?seen = "bs_insert (ra_shard_id r) seen"
  have mono: "plan_inv R A0 (set ?seen) st"
    using Cons.prems by (auto elim: plan_inv_mono)
  show ?case
  proof (cases "contains_shard (sc_config c) ?s \<and> ?s \<notin> set seen \<and> ra_to r \<in> set R
      \<and> map_of A ?s \<noteq> Some (ra_to r)")
    case False
    have "apply_reassignments c m R seen (r # rs) st
        \<in> {apply_reassignments c m R seen rs st, apply_reassignments c m R ?seen rs st}"
      using False by (auto simp: st is_routable_node_def Let_def split: option.splits)
    with Cons.IH [OF Cons.prems] Cons.IH [OF mono] show ?thesis
      by auto
  next
    case True
    have "map_of A0 ?s \<noteq> Some (ra_to r)"
      using True Cons.prems unfolding plan_inv_def st by (metis fst_conv imageI)
    then have new: "plan_inv R A0 (set ?seen) (apply_decision A d, ds @ [d])"
      if "sk_shard_id (decision_shard d) = ?s" "truthful A d" "apply_decision A d = bt_insert ?s (ra_to r) A" for d
      using plan_inv_decide [OF Cons.prems [unfolded st] that(1,2), of "set ?seen"] that(3) by auto
    show ?thesis
    proof (cases "map_of A ?s")
      case None
      with True new [of "Assign (coordinator_shard_key c ?s) (ra_to r) InitialAllocation"] show ?thesis
        by (simp add: st is_routable_node_def Let_def Cons.IH)
    next
      case (Some owner)
      with True new [of "Move (coordinator_shard_key c ?s) owner (ra_to r) (move_reason m owner)"] show ?thesis
        by (simp add: st is_routable_node_def Let_def Cons.IH)
    qed
  qed
qed auto

section \<open>Reconciliation as a whole\<close>

lemma unat_of_nat_range: "i < unat (n :: 'w::len word) \<Longrightarrow> unat (of_nat i :: 'w word) = i"
  by (metis mod_less order.strict_trans unat_less_two_power unat_of_nat)

lemma set_shard_range: "set (shard_range config) = {s. contains_shard config s}"
proof -
  have "s \<in> of_nat ` {0..<unat (number_of_shards config)}" if "unat s < unat (number_of_shards config)" for s :: shard_id
    using that by (intro image_eqI [of _ _ "unat s"]) auto
  then show ?thesis
    by (auto simp: shard_range_def contains_shard_def word_less_nat_alt unat_of_nat_range)
qed

lemma distinct_shard_range: "distinct (shard_range config)"
  unfolding shard_range_def distinct_map
  by (auto intro!: inj_onI) (metis unat_of_nat_range)

definition coordinator_ok :: "shard_coordinator \<Rightarrow> bool" where
  "coordinator_ok c \<longleftrightarrow> bt_ok (sc_assignments c) \<and> number_of_shards (sc_config c) \<noteq> 0
     \<and> (\<forall>s. map_of (sc_assignments c) s \<noteq> None \<longrightarrow> contains_shard (sc_config c) s)"

lemma plan_inv_start: "bt_ok A \<Longrightarrow> plan_inv R A {} (A, [])"
  by (simp add: plan_inv_def)

lemma unassign_all:
  "bt_ok A \<Longrightarrow> truthful_plan A (map (\<lambda>(s, from). Unassign (coordinator_shard_key c s) from reason) A)
     \<and> foldl apply_decision A (map (\<lambda>(s, from). Unassign (coordinator_shard_key c s) from reason) A) = []"
proof (induction A)
  case (Cons p A)
  have "bt_remove (fst p) (p # A) = A"
    using Cons.prems by (cases p) (auto simp: bt_remove_def filter_id_conv)
  with Cons show ?case by (cases p) auto
qed simp

lemma reconcile_plan:
  assumes "bt_ok (sc_assignments c)" and "reconcile c m = (plan, c')"
  shows "bt_ok (sc_assignments c') \<and> foldl apply_decision (sc_assignments c) (rp_decisions plan) = sc_assignments c'
     \<and> truthful_plan (sc_assignments c) (rp_decisions plan)
     \<and> (\<forall>s. s \<in> decided (rp_decisions plan) \<longleftrightarrow> map_of (sc_assignments c') s \<noteq> map_of (sc_assignments c) s)"
proof (cases "routable_ids_of m = []")
  case True
  let ?ds = "map (\<lambda>(s, from). Unassign (coordinator_shard_key c s) from NoRoutableMembers) (sc_assignments c)"
  have decided: "s \<in> decided ?ds \<longleftrightarrow> map_of [] s \<noteq> map_of (sc_assignments c) s" for s
  proof -
    have "decided ?ds = fst ` set (sc_assignments c)"
      by (simp add: decided_def image_image split_def)
    then show ?thesis
      by (metis map_of.simps(1) map_of_eq_None_iff)
  qed
  have plan: "rp_decisions plan = ?ds" "sc_assignments c' = []"
    using True assms(2) by (auto simp: reconcile_def Let_def)
  show ?thesis
    unfolding plan using unassign_all [OF assms(1), of c NoRoutableMembers] decided bt_ok_Nil
    by (intro conjI) auto
next
  case False
  let ?R = "routable_ids_of m" and ?A = "sc_assignments c"
  let ?st = "allocate_all c m ?R (shard_range (sc_config c)) (?A, [])"
  have "plan_inv ?R ?A {} ?st"
    using allocate_all_plan [OF plan_inv_start [OF assms(1)] distinct_shard_range] by simp
  then obtain handled where "plan_inv ?R ?A handled (apply_reassignments c m ?R []
      (rebalance (sc_strategy c) (shard_context_of c m ?R (fst ?st))) ?st)"
    using apply_reassignments_plan [of ?R ?A "[]" ?st] by fastforce
  with False assms(2) show ?thesis
    by (auto simp: reconcile_def Let_def plan_inv_def split: prod.splits)
qed

text \<open>The routable ids of a well-formed table are listed in ascending order.\<close>

lemma routable_ids_of_eq: "routable_ids_of m = map (cn_id \<circ> mr_node) (routable_members m)"
  by (simp add: routable_ids_of_def comp_def)

lemma routable_ids_of_sorted: "membership_ok m \<Longrightarrow> sorted_wrt (<) (routable_ids_of m)"
  by (simp only: routable_ids_of_eq routable_ids_sorted)

lemma routable_ids_of_iff:
  "membership_ok m \<Longrightarrow> n \<in> set (routable_ids_of m) \<longleftrightarrow> (\<exists>r. membership_member m n = Some r \<and> mr_state r = Up)"
  by (simp only: routable_ids_of_eq routable_ids_set mem_Collect_eq)

lemma reconcile_fields [simp]:
  "sc_config (snd (reconcile c m)) = sc_config c"
  "sc_entity_type (snd (reconcile c m)) = sc_entity_type c"
  "sc_strategy (snd (reconcile c m)) = sc_strategy c"
  by (simp_all add: reconcile_def Let_def split_def)

lemma reconcile_assignments:
  "routable_ids_of m \<noteq> [] \<Longrightarrow> sc_assignments (snd (reconcile c m)) =
     (let st = allocate_all c m (routable_ids_of m) (shard_range (sc_config c)) (sc_assignments c, [])
      in fst (apply_reassignments c m (routable_ids_of m) []
           (rebalance (sc_strategy c) (shard_context_of c m (routable_ids_of m) (fst st))) st))"
  by (simp add: reconcile_def Let_def split_def)

lemma reconcile_routable:
  assumes ok: "coordinator_ok c" and look: "map_of (sc_assignments (snd (reconcile c m))) s = Some n"
  shows "contains_shard (sc_config c) s \<and> n \<in> set (routable_ids_of m)"
proof (cases "routable_ids_of m = []")
  case True
  with look show ?thesis by (simp add: reconcile_def Let_def)
next
  case False
  define st where "st = allocate_all c m (routable_ids_of m) (shard_range (sc_config c)) (sc_assignments c, [])"
  have "map_of (fst st) s = Some n \<or> contains_shard (sc_config c) s \<and> n \<in> set (routable_ids_of m)"
    using look False
      apply_reassignments_lookup [of c m "routable_ids_of m" "[]" "rebalance (sc_strategy c)
        (shard_context_of c m (routable_ids_of m) (fst st))" st s]
    by (auto simp: reconcile_assignments Let_def st_def)
  moreover have "contains_shard (sc_config c) s \<and> n \<in> set (routable_ids_of m)" if "map_of (fst st) s = Some n"
  proof (cases "contains_shard (sc_config c) s")
    case True
    with that show ?thesis
      unfolding st_def using allocate_all_routable set_shard_range by blast
  next
    case False
    then have "map_of (sc_assignments c) s = Some n"
      using that allocate_all_other [of s "shard_range (sc_config c)"] by (simp add: st_def set_shard_range)
    with ok False show ?thesis
      by (auto simp: coordinator_ok_def)
  qed
  ultimately show ?thesis by blast
qed

lemma reconcile_ok: "coordinator_ok c \<Longrightarrow> coordinator_ok (snd (reconcile c m))"
proof -
  assume ok: "coordinator_ok c"
  have "bt_ok (sc_assignments (snd (reconcile c m)))"
    using reconcile_plan [of c m "fst (reconcile c m)" "snd (reconcile c m)"] ok
    by (simp add: coordinator_ok_def)
  moreover have "contains_shard (sc_config c) s" if "map_of (sc_assignments (snd (reconcile c m))) s \<noteq> None" for s
    using that reconcile_routable [OF ok] by auto
  ultimately show ?thesis
    using ok by (auto simp: coordinator_ok_def)
qed

definition keys_in_range :: "sharding_config \<Rightarrow> shard_assignments \<Rightarrow> bool" where
  "keys_in_range config A \<longleftrightarrow> bt_ok A \<and> (\<forall>s. map_of A s \<noteq> None \<longrightarrow> contains_shard config s)"

lemma keys_in_range_insert:
  "keys_in_range config A \<Longrightarrow> contains_shard config s \<Longrightarrow> keys_in_range config (bt_insert s n A)"
  by (simp add: keys_in_range_def)

lemma restore_assignments_ok:
  "keys_in_range config acc \<Longrightarrow> restore_assignments et config k as acc = Inr A \<Longrightarrow> keys_in_range config A"
  by (induction et config k as acc rule: restore_assignments.induct)
    (simp_all add: keys_in_range_insert split: if_splits)

text \<open>The coordinators a program can build and run.\<close>

inductive coordinator_reachable :: "shard_coordinator \<Rightarrow> bool" where
  created: "sharding_config_new n = Inr config \<Longrightarrow>
     coordinator_reachable (coordinator_with_strategy et config strategy)"
| restored: "sharding_config_new n = Inr config \<Longrightarrow>
     from_snapshot_with_strategy et config snapshot strategy = Inr c \<Longrightarrow> coordinator_reachable c"
| reconciled: "coordinator_reachable c \<Longrightarrow> coordinator_reachable (snd (reconcile c m))"

lemma coordinator_reachable_ok: "coordinator_reachable c \<Longrightarrow> coordinator_ok c"
proof (induction rule: coordinator_reachable.induct)
  case (created n config et strategy)
  then show ?case
    by (auto simp: coordinator_ok_def coordinator_with_strategy_def sharding_config_new_def split: if_splits)
next
  case (restored n config et snapshot strategy c)
  then show ?case
    using restore_assignments_ok [of config "[]" et]
    by (auto simp: coordinator_ok_def keys_in_range_def from_snapshot_with_strategy_def
        sharding_config_new_def split: if_splits sum.splits)
next
  case (reconciled c m)
  then show ?case by (simp add: reconcile_ok)
qed

section \<open>With a lawful strategy\<close>

lemma allocate_one_ok: "bt_ok (fst st) \<Longrightarrow> bt_ok (fst (allocate_one c m R s st))"
  by (cases st) (auto simp: allocate_one_def Let_def split: option.splits)

lemma allocate_all_ok: "bt_ok (fst st) \<Longrightarrow> bt_ok (fst (allocate_all c m R ss st))"
  by (induction ss arbitrary: st) (auto simp: allocate_one_ok)

lemma apply_moves_simps [simp]:
  "apply_moves [] A = A" "apply_moves (r # rs) A = apply_moves rs (bt_insert (ra_shard_id r) (ra_to r) A)"
  by (simp_all add: apply_moves_def)

lemma apply_moves_other: "s \<notin> ra_shard_id ` set rs \<Longrightarrow> map_of (apply_moves rs A) s = map_of A s"
  by (induction rs arbitrary: A) auto

lemma apply_moves_moved:
  "distinct (map ra_shard_id rs) \<Longrightarrow> r \<in> set rs \<Longrightarrow> map_of (apply_moves rs A) (ra_shard_id r) = Some (ra_to r)"
  by (induction rs arbitrary: A) (auto simp: apply_moves_other)

lemma apply_moves_keeps: "map_of A s \<noteq> None \<Longrightarrow> map_of (apply_moves rs A) s \<noteq> None"
  by (induction rs arbitrary: A) auto

lemma apply_moves_ok: "bt_ok A \<Longrightarrow> bt_ok (apply_moves rs A)"
  by (induction rs arbitrary: A) auto

lemma apply_reassignments_moves:
  assumes "distinct (map ra_shard_id rs)" and "ra_shard_id ` set rs \<inter> set seen = {}"
    and "\<forall>r \<in> set rs. contains_shard (sc_config c) (ra_shard_id r) \<and> ra_to r \<in> set R
      \<and> map_of A (ra_shard_id r) \<notin> {None, Some (ra_to r)}"
  shows "fst (apply_reassignments c m R seen rs (A, ds)) = apply_moves rs A"
  using assms
proof (induction rs arbitrary: seen A ds)
  case (Cons r rs)
  have IH: "fst (apply_reassignments c m R (bs_insert (ra_shard_id r) seen) rs
      (bt_insert (ra_shard_id r) (ra_to r) A, ds')) = apply_moves rs (bt_insert (ra_shard_id r) (ra_to r) A)" for ds'
  proof (rule Cons.IH)
    have "ra_shard_id x \<noteq> ra_shard_id r" if "x \<in> set rs" for x
      using Cons.prems(1) that by (metis distinct.simps(2) image_eqI list.set_map list.simps(9))
    then show "\<forall>x \<in> set rs. contains_shard (sc_config c) (ra_shard_id x) \<and> ra_to x \<in> set R
        \<and> map_of (bt_insert (ra_shard_id r) (ra_to r) A) (ra_shard_id x) \<notin> {None, Some (ra_to x)}"
      using Cons.prems(3) by simp
  qed (use Cons.prems in auto)
  from Cons.prems show ?case
    by (auto simp: is_routable_node_def Let_def IH split: option.splits)
qed simp

lemma shard_context_fields:
  "sx_routable_nodes (shard_context_of c m R A) = R" "sx_assignments (shard_context_of c m R A) = A"
  by (simp_all add: shard_context_of_def)

context lawful_strategy
begin

lemma choose_owner_some:
  assumes "sc_strategy c = strategy" and "bt_ok A" and "sorted_wrt (<) R" and "R \<noteq> []"
  shows "\<exists>n \<in> set R. choose_owner c m R A s = Some n"
  using allocates [of "shard_context_of c m R A" s] assms
  by (auto simp: choose_owner_def context_ok_def shard_context_fields is_routable_node_def)

lemma allocate_all_total:
  assumes c: "sc_strategy c = strategy" "sorted_wrt (<) R" "R \<noteq> []" and ok: "bt_ok (fst st)" and s: "s \<in> set ss"
  shows "map_of (fst (allocate_all c m R ss st)) s \<in> Some ` set R"
  using ok s
proof (induction ss arbitrary: st)
  case (Cons x ss)
  show ?case
  proof (cases "s \<in> set ss")
    case True
    with Cons show ?thesis by (simp add: allocate_one_ok)
  next
    case False
    then have "x = s" using Cons.prems by simp
    moreover have "allocated c m R (fst st) s \<in> Some ` set R"
      using choose_owner_some [OF c(1) Cons.prems(1) c(2,3), of m s] by (auto simp: allocated_def split: option.splits)
    ultimately show ?thesis
      using False allocate_one_lookup [of c m R s "fst st" "snd st"] by (simp add: allocate_all_other)
  qed
qed simp

lemma reconcile_is_moves:
  assumes c: "sc_strategy c = strategy" "coordinator_ok c" and m: "membership_ok m" "routable_ids_of m \<noteq> []"
  defines "A1 \<equiv> fst (allocate_all c m (routable_ids_of m) (shard_range (sc_config c)) (sc_assignments c, []))"
  shows "sc_assignments (snd (reconcile c m))
    = apply_moves (rebalance strategy (shard_context_of c m (routable_ids_of m) A1)) A1"
    and "bt_ok A1" and "contains_shard (sc_config c) s \<longleftrightarrow> map_of A1 s \<noteq> None"
proof -
  let ?R = "routable_ids_of m"
  let ?ctx = "shard_context_of c m ?R A1"
  have sorted: "sorted_wrt (<) ?R"
    using m(1) by (rule routable_ids_of_sorted)
  show A1: "bt_ok A1"
    using c(2) by (simp add: A1_def allocate_all_ok coordinator_ok_def)
  have range: "contains_shard (sc_config c) s \<longleftrightarrow> map_of A1 s \<noteq> None" for s
  proof
    assume "contains_shard (sc_config c) s"
    then show "map_of A1 s \<noteq> None"
      using allocate_all_total [OF c(1) sorted m(2), of "(sc_assignments c, [])" s "shard_range (sc_config c)" m] c(2)
      by (auto simp: A1_def set_shard_range coordinator_ok_def)
  next
    assume "map_of A1 s \<noteq> None"
    then show "contains_shard (sc_config c) s"
      using allocate_all_other [of s "shard_range (sc_config c)" c m ?R "(sc_assignments c, [])"] c(2)
      by (metis A1_def coordinator_ok_def fst_conv mem_Collect_eq set_shard_range)
  qed
  then show "contains_shard (sc_config c) s \<longleftrightarrow> map_of A1 s \<noteq> None" .
  have ok: "context_ok ?ctx"
    using A1 sorted by (simp add: context_ok_def shard_context_fields)
  have "fst (apply_reassignments c m ?R [] (rebalance strategy ?ctx) (A1, ds)) = apply_moves (rebalance strategy ?ctx) A1" for ds
    using moves_once [OF ok] moves_owned [OF ok] moves_routable [OF ok] range
    by (intro apply_reassignments_moves) (auto simp: shard_context_fields)
  then show "sc_assignments (snd (reconcile c m)) = apply_moves (rebalance strategy ?ctx) A1"
    by (simp add: reconcile_assignments [OF m(2)] c(1) Let_def flip: A1_def)
      (metis A1_def prod.collapse)
qed

lemma reconcile_owns_all:
  assumes c: "sc_strategy c = strategy" "coordinator_ok c" and m: "membership_ok m" "routable_ids_of m \<noteq> []"
    and s: "contains_shard (sc_config c) s"
  shows "map_of (sc_assignments (snd (reconcile c m))) s \<in> Some ` set (routable_ids_of m)"
proof -
  let ?A1 = "fst (allocate_all c m (routable_ids_of m) (shard_range (sc_config c)) (sc_assignments c, []))"
  let ?rs = "rebalance strategy (shard_context_of c m (routable_ids_of m) ?A1)"
  note moves = reconcile_is_moves [OF c m]
  have "map_of ?A1 s \<noteq> None"
    using s moves(3) by blast
  then have "map_of (apply_moves ?rs ?A1) s \<noteq> None"
    by (rule apply_moves_keeps)
  then show ?thesis
    unfolding moves(1) [symmetric] using reconcile_routable [OF c(2), of m s] by auto
qed

end

end
