(* ===== verification/Shard_Ownership.thy ===== *)
theory Shard_Ownership
  imports Shard_Coordinator
begin

text \<open>
  What the coordinator guarantees about shard ownership: the table the deterministic strategy
  settles on and how fast it gets there, and the properties of reconciliation and of ownership
  snapshots.
\<close>

section \<open>The deterministic strategy\<close>

lemma allocate_all_keeps:
  "map_of (fst st) s = Some n \<Longrightarrow> n \<in> set R \<Longrightarrow> map_of (fst (allocate_all c m R ss st)) s = Some n"
proof (induction ss arbitrary: st)
  case (Cons x ss)
  have "map_of (fst (allocate_one c m R x st)) s = Some n"
    using Cons.prems allocate_one_lookup [of c m R x "fst st" "snd st"]
    by (cases "x = s") (simp_all add: allocated_def)
  with Cons show ?case by simp
qed simp

definition misplaced :: "sharding_config \<Rightarrow> node_id list \<Rightarrow> shard_assignments \<Rightarrow> shard_id set" where
  "misplaced config R A = {s. contains_shard config s \<and> map_of A s \<noteq> desired_owner R s}"

lemma finite_misplaced [simp]: "finite (misplaced config R A)"
  by simp

lemma card_misplaced: "card (misplaced config R A) \<le> unat (number_of_shards config)"
proof -
  have "card (misplaced config R A) \<le> card (set (shard_range config))"
    by (intro card_mono) (auto simp: misplaced_def set_shard_range)
  also have "\<dots> \<le> length (shard_range config)"
    by (rule card_length)
  finally show ?thesis
    by (simp add: shard_range_def)
qed

lemma misplaced_moves:
  assumes "bt_ok A" and "\<And>s. contains_shard config s \<longleftrightarrow> map_of A s \<noteq> None" and "R \<noteq> []"
  shows "misplaced config R A = ra_shard_id ` set (deterministic_moves (shard_context_of c m R A))"
proof -
  have moves: "r \<in> set (deterministic_moves (shard_context_of c m R A)) \<longleftrightarrow>
      (\<exists>owner. map_of A (ra_shard_id r) = Some owner \<and> owner \<noteq> ra_to r) \<and> desired_owner R (ra_shard_id r) = Some (ra_to r)"
    for r
    using deterministic_moves_iff [of "shard_context_of c m R A" r] assms(1) by (simp add: shard_context_fields)
  have "s \<in> misplaced config R A \<longleftrightarrow>
      (\<exists>owner. map_of A s = Some owner \<and> owner \<noteq> R ! (unat s mod length R))" for s
    using assms(2,3) by (auto simp: misplaced_def desired_owner_nonempty)
  then have target: "s \<in> misplaced config R A \<longleftrightarrow>
      ShardReassignment s (R ! (unat s mod length R)) \<in> set (deterministic_moves (shard_context_of c m R A))" for s
    using assms(3) by (simp add: moves desired_owner_nonempty)
  show ?thesis
  proof (intro equalityI subsetI)
    fix s assume "s \<in> misplaced config R A"
    then show "s \<in> ra_shard_id ` set (deterministic_moves (shard_context_of c m R A))"
      using target by (intro image_eqI) auto
  next
    fix s assume "s \<in> ra_shard_id ` set (deterministic_moves (shard_context_of c m R A))"
    then obtain r where r: "r \<in> set (deterministic_moves (shard_context_of c m R A))" "s = ra_shard_id r"
      by blast
    then have "ra_to r = R ! (unat s mod length R)"
      using moves assms(3) by (simp add: desired_owner_nonempty)
    with r show "s \<in> misplaced config R A"
      unfolding target by (metis shard_reassignment.collapse)
  qed
qed

text \<open>One pass with the cap \<open>k\<close> puts the \<open>k\<close> lowest misplaced shards in place (all of them when uncapped).\<close>

lemma deterministic_pass:
  assumes c: "sc_strategy c = deterministic_strategy d" "coordinator_ok c"
    and m: "membership_ok m" "routable_ids_of m \<noteq> []"
  shows "card (misplaced (sc_config c) (routable_ids_of m) (sc_assignments (snd (reconcile c m))))
    \<le> (if dm_max_simultaneous_rebalance d = 0 then 0
       else card (misplaced (sc_config c) (routable_ids_of m) (sc_assignments c)) - dm_max_simultaneous_rebalance d)"
proof -
  let ?R = "routable_ids_of m" and ?cfg = "sc_config c"
  define A1 where "A1 = fst (allocate_all c m ?R (shard_range ?cfg) (sc_assignments c, []))"
  let ?ms = "deterministic_moves (shard_context_of c m ?R A1)"
  define k where "k = (if dm_max_simultaneous_rebalance d = 0 then length ?ms else dm_max_simultaneous_rebalance d)"
  note moves = deterministic.reconcile_is_moves [OF c m, folded A1_def]
  have mis: "misplaced ?cfg ?R A1 = ra_shard_id ` set ?ms"
    using misplaced_moves [OF moves(2,3) m(2)] .
  have distinct: "distinct (map ra_shard_id ?ms)"
    using deterministic_moves_ascending [of "shard_context_of c m ?R A1"] moves(2)
    by (metis shard_context_fields(2) strict_sorted_iff)
  have eq: "sc_assignments (snd (reconcile c m)) = apply_moves (take k ?ms) A1"
    using moves(1) by (simp add: deterministic_strategy_def deterministic_rebalance_def k_def)
  have "misplaced ?cfg ?R (apply_moves (take k ?ms) A1) \<subseteq> ra_shard_id ` set (drop k ?ms)"
  proof
    fix s assume s: "s \<in> misplaced ?cfg ?R (apply_moves (take k ?ms) A1)"
    have "s \<notin> ra_shard_id ` set (take k ?ms)"
    proof
      assume "s \<in> ra_shard_id ` set (take k ?ms)"
      then obtain r where r: "r \<in> set (take k ?ms)" "s = ra_shard_id r" by blast
      then have "map_of (apply_moves (take k ?ms) A1) s = Some (ra_to r)"
        using distinct by (simp add: apply_moves_moved distinct_take flip: take_map)
      moreover have "desired_owner ?R s = Some (ra_to r)"
        using deterministic_moves_iff [of "shard_context_of c m ?R A1" r] r moves(2)
        by (auto simp: shard_context_fields dest: in_set_takeD)
      ultimately show False using s by (simp add: misplaced_def)
    qed
    moreover from this s have "s \<in> misplaced ?cfg ?R A1"
      by (simp add: misplaced_def apply_moves_other)
    ultimately show "s \<in> ra_shard_id ` set (drop k ?ms)"
      unfolding mis by (metis (no_types) Un_iff append_take_drop_id image_Un set_append)
  qed
  then have "card (misplaced ?cfg ?R (apply_moves (take k ?ms) A1)) \<le> length ?ms - k"
    by (metis List.finite_set card_image_le card_length card_mono finite_imageI length_drop le_trans)
  moreover have "length ?ms = card (misplaced ?cfg ?R A1)"
    using distinct unfolding mis by (metis distinct_card length_map list.set_map)
  moreover have "card (misplaced ?cfg ?R A1) \<le> card (misplaced ?cfg ?R (sc_assignments c))"
  proof (intro card_mono finite_misplaced subsetI)
    fix s assume s: "s \<in> misplaced ?cfg ?R A1"
    have "map_of A1 s = desired_owner ?R s" if "map_of (sc_assignments c) s = desired_owner ?R s"
      using that m(2) allocate_all_keeps [of "(sc_assignments c, [])" s _ ?R] desired_owner_routable
      by (simp add: A1_def desired_owner_nonempty)
    with s show "s \<in> misplaced ?cfg ?R (sc_assignments c)"
      by (auto simp: misplaced_def)
  qed
  ultimately show ?thesis
    unfolding eq by (auto simp: k_def)
qed

lemma nothing_misplaced:
  assumes "coordinator_ok c" and "R \<noteq> []" and "misplaced (sc_config c) R (sc_assignments c) = {}"
  shows "sc_assignments c = map (\<lambda>s. (s, R ! (unat s mod length R))) (shard_range (sc_config c))"
    (is "_ = ?table")
proof (rule bt_ext)
  show "bt_ok (sc_assignments c)"
    using assms(1) by (simp add: coordinator_ok_def)
  have "sorted_wrt (<) (shard_range (sc_config c))"
    unfolding shard_range_def sorted_wrt_map
    by (rule sorted_wrt_mono_rel [of _ "(<)"])
      (simp_all, metis less_trans unat_of_nat_range word_less_nat_alt)
  then show "bt_ok ?table"
    by (simp add: bt_ok_def comp_def)
  have "map_of ?table s = (if contains_shard (sc_config c) s then desired_owner R s else None)" for s
    using assms(2) by (simp add: map_of_map_restrict restrict_map_def set_shard_range desired_owner_nonempty)
  then show "map_of (sc_assignments c) = map_of ?table"
    using assms(1,3) by (auto simp: fun_eq_iff misplaced_def coordinator_ok_def)
qed

lemma deterministic_converges:
  assumes c: "sc_strategy c = deterministic_strategy d" "coordinator_ok c"
    and m: "membership_ok m" "routable_ids_of m \<noteq> []"
    and i: "0 < i" "unat (number_of_shards (sc_config c)) \<le> i * dm_max_simultaneous_rebalance d
      \<or> dm_max_simultaneous_rebalance d = 0"
  shows "sc_assignments (((\<lambda>c. snd (reconcile c m)) ^^ i) c)
    = map (\<lambda>s. (s, routable_ids_of m ! (unat s mod length (routable_ids_of m)))) (shard_range (sc_config c))"
proof -
  let ?f = "\<lambda>c. snd (reconcile c m)" and ?R = "routable_ids_of m"
  let ?mis = "\<lambda>c. card (misplaced (sc_config c) ?R (sc_assignments c))"
  have run: "sc_strategy ((?f ^^ j) c) = deterministic_strategy d \<and> coordinator_ok ((?f ^^ j) c)
      \<and> sc_config ((?f ^^ j) c) = sc_config c
      \<and> ?mis ((?f ^^ j) c) \<le> (if dm_max_simultaneous_rebalance d = 0 then if j = 0 then ?mis c else 0
          else ?mis c - j * dm_max_simultaneous_rebalance d)" for j
  proof (induction j)
    case 0
    then show ?case using c by simp
  next
    case (Suc j)
    then show ?case
      using deterministic_pass [of "(?f ^^ j) c" d m] m by (auto simp: reconcile_ok)
  qed
  have "?mis ((?f ^^ i) c) = 0"
    using run [of i] i card_misplaced [of "sc_config c" ?R "sc_assignments c"] by (auto split: if_splits)
  then have "misplaced (sc_config c) ?R (sc_assignments ((?f ^^ i) c)) = {}"
    using run [of i] by (simp add: card_eq_0_iff)
  with nothing_misplaced [of "(?f ^^ i) c" ?R] run [of i] m(2) show ?thesis
    by simp
qed

section \<open>Snapshots\<close>

lemma restore_assignments_map:
  assumes "keys_in_range (sc_config c) (done @ A)"
  shows "restore_assignments (sc_entity_type c) (sc_config c) k
    (map (\<lambda>(s, owner). ShardAssignment (coordinator_shard_key c s) owner) A) done = Inr (done @ A)"
  using assms
proof (induction A arbitrary: "done")
  case (Cons p A)
  obtain s n where p: "p = (s, n)" by fastforce
  have ok: "bt_ok (done @ (s, n) # A)" and contains: "contains_shard (sc_config c) s"
    using Cons.prems by (auto simp: keys_in_range_def p)
  have "bt_insert s n done = done @ [(s, n)]"
    using ok by (induction "done") (auto split: if_splits)
  with Cons.IH [of "done @ [(s, n)]"] Cons.prems contains show ?case
    by (simp add: p)
qed simp

section \<open>A sample coordinator\<close>

abbreviation sample_cluster :: cluster_membership where
  "sample_cluster \<equiv> snd (mark_up (membership_new sample_a default_membership_config) (NodeId ''a'' ''1'') 5)"

abbreviation sample_coordinator :: shard_coordinator where
  "sample_coordinator \<equiv> coordinator_new ''cart'' \<lparr>number_of_shards = 2\<rparr>"

lemma sample_reachable: "coordinator_reachable sample_coordinator"
  unfolding coordinator_new_def by (rule created [of 2]) (simp add: sharding_config_new_def)

lemma sample_cluster_reachable: "membership_step\<^sup>*\<^sup>* (membership_new sample_a default_membership_config) sample_cluster"
  by (intro r_into_rtranclp step_up)

lemma sample_routable: "routable_ids_of sample_cluster = [NodeId ''a'' ''1'']"
  by (simp add: routable_ids_of_def routable_members_def membership_eval mark_up_def)

lemma sample_members: "routable_members sample_cluster \<noteq> []"
  using sample_routable by (auto simp: routable_ids_of_def)

lemmas sample_coordinator_defs = coordinator_new_def coordinator_with_strategy_def

lemma sample_range: "shard_range \<lparr>number_of_shards = 2\<rparr> = [0, 1]"
  by (simp add: shard_range_def upt_rec)

lemma sample_owner: "map_of (sc_assignments (snd (reconcile sample_coordinator sample_cluster))) 1 = Some (NodeId ''a'' ''1'')"
  using deterministic_converges [of sample_coordinator deterministic_new sample_cluster 1]
    coordinator_reachable_ok [OF sample_reachable]
    membership_run_ok [OF sample_cluster_reachable membership_new_ok]
  by (simp add: sample_routable sample_coordinator_defs deterministic_new_def sample_range)

section \<open>Properties\<close>

text \<open>C8: With any strategy, the plan a reconciliation returns is exact: replaying its decisions on
  the old assignments gives the new ones, every decision names the shard's owner at that moment, a
  shard is named exactly when its owner changed, and the revision moves by one exactly when the
  assignments changed.\<close>

theorem reconcile_plan_exact:
  assumes "coordinator_reachable c" and "reconcile c m = (plan, c')"
  shows "truthful_plan (sc_assignments c) (rp_decisions plan)
    \<and> foldl apply_decision (sc_assignments c) (rp_decisions plan) = sc_assignments c'
    \<and> decided (rp_decisions plan) = {s. map_of (sc_assignments c') s \<noteq> map_of (sc_assignments c) s}
    \<and> rp_previous_revision plan = sc_revision c \<and> rp_new_revision plan = sc_revision c'
    \<and> sc_revision c' = (if sc_assignments c' = sc_assignments c then sc_revision c else sc_revision c + 1)"
proof -
  have "bt_ok (sc_assignments c)"
    using coordinator_reachable_ok [OF assms(1)] by (simp add: coordinator_ok_def)
  note plan = reconcile_plan [OF this assms(2)]
  have "rp_previous_revision plan = sc_revision c" "rp_new_revision plan = sc_revision c'"
    "sc_revision c' = bump_revision_if_changed (sc_revision c) (rp_decisions plan)"
    using assms(2) by (auto simp: reconcile_def Let_def split_def)
  moreover have "rp_decisions plan = [] \<longleftrightarrow> sc_assignments c' = sc_assignments c"
  proof
    assume "sc_assignments c' = sc_assignments c"
    then have "decided (rp_decisions plan) = {}"
      using plan by auto
    then show "rp_decisions plan = []"
      by (simp add: decided_def)
  qed (use plan in auto)
  ultimately show ?thesis
    using plan by (auto simp: bump_revision_if_changed_def)
qed

theorem reconcile_plan_exact_witness:
  "sc_revision (snd (reconcile sample_coordinator sample_cluster)) = 1"
proof -
  have "sc_assignments (snd (reconcile sample_coordinator sample_cluster)) \<noteq> sc_assignments sample_coordinator"
    using sample_owner by (auto simp: sample_coordinator_defs)
  with reconcile_plan_exact [OF sample_reachable prod.collapse [symmetric], of sample_cluster] show ?thesis
    by (simp add: sample_coordinator_defs)
qed

text \<open>C7: With any strategy, after a reconciliation no shard is owned by a node that is not an
  active member of the table it was reconciled with.\<close>

theorem reconcile_owners_active:
  assumes "coordinator_reachable c" and "membership_step\<^sup>*\<^sup>* (membership_new node config) m"
    and "map_of (sc_assignments (snd (reconcile c m))) s = Some owner"
  shows "contains_shard (sc_config c) s \<and> (\<exists>r. membership_member m owner = Some r \<and> mr_state r = Up)"
proof -
  have "membership_ok m"
    using membership_run_ok [OF assms(2) membership_new_ok] .
  with reconcile_routable [OF coordinator_reachable_ok [OF assms(1)] assms(3)] show ?thesis
    by (simp add: routable_ids_of_iff)
qed

theorem reconcile_owners_active_witness:
  "\<exists>r. membership_member sample_cluster (NodeId ''a'' ''1'') = Some r \<and> mr_state r = Up"
  using reconcile_owners_active [OF sample_reachable sample_cluster_reachable sample_owner] by blast

text \<open>C6: With either built-in strategy, once some member is active every entity has an owner after
  a reconciliation, and that owner is an active member.\<close>

theorem every_entity_owned:
  assumes "coordinator_reachable c"
    and "sc_strategy c = deterministic_strategy d \<or> sc_strategy c = least_strategy l"
    and "membership_step\<^sup>*\<^sup>* (membership_new node config) m" and "routable_members m \<noteq> []"
  shows "\<exists>owner r. owner_for_entity (snd (reconcile c m)) e = Inr owner
    \<and> membership_member m owner = Some r \<and> mr_state r = Up"
proof -
  let ?c = "snd (reconcile c m)"
  have ok: "coordinator_ok c" and m: "membership_ok m" "routable_ids_of m \<noteq> []"
    using assms coordinator_reachable_ok membership_run_ok [OF assms(3) membership_new_ok]
    by (auto simp: routable_ids_of_def)
  have "sharding_config_new (number_of_shards (sc_config c)) = Inr (sc_config c)"
    using ok by (simp add: sharding_config_new_def coordinator_ok_def)
  then have "contains_shard (sc_config c) (shard_for_entity ?c e)"
    by (simp add: shard_for_entity_def for_entity_contained)
  then have "map_of (sc_assignments ?c) (shard_for_entity ?c e) \<in> Some ` set (routable_ids_of m)"
    using assms(2) deterministic.reconcile_owns_all [OF _ ok m] least.reconcile_owns_all [OF _ ok m] by blast
  then obtain owner where "map_of (sc_assignments ?c) (shard_for_entity ?c e) = Some owner"
    and "owner \<in> set (routable_ids_of m)"
    by auto
  with m(1) show ?thesis
    by (auto simp: owner_for_entity_def Let_def routable_ids_of_iff)
qed

theorem every_entity_owned_witness:
  "\<exists>owner r. owner_for_entity (snd (reconcile sample_coordinator sample_cluster)) ''42'' = Inr owner
    \<and> membership_member sample_cluster owner = Some r \<and> mr_state r = Up"
  by (rule every_entity_owned [OF sample_reachable disjI1 sample_cluster_reachable sample_members])
    (simp add: sample_coordinator_defs)

text \<open>C5: With the deterministic strategy every coordinator ends at the same table whatever its
  history, namely shard \<open>s\<close> at position \<open>s mod n\<close> of the \<open>n\<close> active members in id order: after one
  reconciliation when moves are not capped, and after \<open>\<lceil>shards / cap\<rceil>\<close> of them when they are.\<close>

theorem deterministic_ownership_converges:
  assumes "coordinator_reachable c" and "sc_strategy c = deterministic_strategy d"
    and "membership_step\<^sup>*\<^sup>* (membership_new node config) m" and "routable_members m \<noteq> []"
    and "0 < i" and "dm_max_simultaneous_rebalance d = 0
      \<or> unat (number_of_shards (sc_config c)) \<le> i * dm_max_simultaneous_rebalance d"
  shows "sc_assignments (((\<lambda>c. snd (reconcile c m)) ^^ i) c)
    = map (\<lambda>s. (s, routable_ids_of m ! (unat s mod length (routable_ids_of m)))) (shard_range (sc_config c))"
  using deterministic_converges [OF assms(2) coordinator_reachable_ok [OF assms(1)]]
    membership_run_ok [OF assms(3) membership_new_ok] assms(4-6)
  by (auto simp: routable_ids_of_def)

theorem deterministic_ownership_converges_witness:
  "sc_assignments (snd (reconcile sample_coordinator sample_cluster))
    = [(0, NodeId ''a'' ''1''), (1, NodeId ''a'' ''1'')]"
  using deterministic_ownership_converges [OF sample_reachable _ sample_cluster_reachable sample_members, of deterministic_new 1]
  by (simp add: sample_routable sample_coordinator_defs deterministic_new_def sample_range)

text \<open>C26: An ownership snapshot restores the coordinator it was taken from, with the same
  strategy; a snapshot of another entity type or shard count is refused.\<close>

theorem ownership_snapshot_roundtrip:
  assumes "coordinator_reachable c"
  shows "from_snapshot_with_strategy entity_type config (coordinator_snapshot c) (sc_strategy c)
    = (if sc_entity_type c = entity_type \<and> number_of_shards (sc_config c) = number_of_shards config then Inr c
       else Inl (PersistedCoordinatorSnapshotMismatch entity_type (sc_entity_type c)
              (number_of_shards config) (number_of_shards (sc_config c))))"
proof -
  have ok: "keys_in_range (sc_config c) (sc_assignments c)"
    using coordinator_reachable_ok [OF assms] by (simp add: coordinator_ok_def keys_in_range_def)
  have "restore_assignments (sc_entity_type c) (sc_config c) k
      (map (\<lambda>(s, owner). ShardAssignment (coordinator_shard_key c s) owner) (sc_assignments c)) [] = Inr (sc_assignments c)" for k
    using restore_assignments_map [of c "[]" "sc_assignments c"] ok by simp
  then have "from_snapshot_with_strategy entity_type (sc_config c) (coordinator_snapshot c) (sc_strategy c) = Inr c"
    if "entity_type = sc_entity_type c"
    using that by (simp add: from_snapshot_with_strategy_def coordinator_snapshot_def)
  moreover have "config = sc_config c" if "number_of_shards (sc_config c) = number_of_shards config"
    using that by simp
  ultimately have "from_snapshot_with_strategy entity_type config (coordinator_snapshot c) (sc_strategy c) = Inr c"
    if "sc_entity_type c = entity_type" "number_of_shards (sc_config c) = number_of_shards config"
    using that by metis
  then show ?thesis
    by (cases "sc_entity_type c = entity_type \<and> number_of_shards (sc_config c) = number_of_shards config")
      (simp, simp add: from_snapshot_with_strategy_def coordinator_snapshot_def)
qed

theorem ownership_snapshot_roundtrip_witness:
  "from_snapshot ''cart'' \<lparr>number_of_shards = 2\<rparr> (coordinator_snapshot sample_coordinator) = Inr sample_coordinator"
  using ownership_snapshot_roundtrip [OF sample_reachable, of "''cart''" "\<lparr>number_of_shards = 2\<rparr>"]
  by (simp add: from_snapshot_def sample_coordinator_defs)

end
