(* ===== verification/Coordinator_Lease.thy ===== *)
theory Coordinator_Lease
  imports Sharding_Identity
begin

text \<open>
  The in-memory coordinator leadership lease (\<open>crates/rakka-sharding/src/coordinator_lease.rs\<close>):
  tokens, records keyed by namespace and entity type, and the three operations. Each operation of
  the source holds the mutex for its whole duration, so it is one atomic step; the wall clock it
  reads is an argument. Runs are sequences of such steps by any nodes.
\<close>

section \<open>Tokens and records\<close>

datatype lease_token = LeaseToken
  (lt_namespace: string) (lt_entity_type: entity_type) (lt_holder_node: node_id)
  (lt_fencing_token: u64) (lt_expires_at_millis: u64)

definition is_expired_at :: "lease_token \<Rightarrow> u64 \<Rightarrow> bool" where
  "is_expired_at token now_millis \<longleftrightarrow> lt_expires_at_millis token \<le> now_millis"

type_synonym lease_key = "string \<times> entity_type"

record lease_record =
  lr_holder_node :: node_id
  lr_fencing_token :: u64
  lr_expires_at_millis :: u64

record memory_lease =
  ml_namespace :: string
  ml_lease_duration :: duration
  ml_records :: "(lease_key, lease_record) btree"

definition memory_lease_with_namespace :: "string \<Rightarrow> memory_lease" where
  "memory_lease_with_namespace namespace =
     \<lparr>ml_namespace = namespace, ml_lease_duration = 15000, ml_records = []\<rparr>"

definition with_lease_duration :: "memory_lease \<Rightarrow> duration \<Rightarrow> memory_lease" where
  "with_lease_duration s d = s\<lparr>ml_lease_duration := d\<rparr>"

definition token_from_record :: "memory_lease \<Rightarrow> entity_type \<Rightarrow> lease_record \<Rightarrow> lease_token" where
  "token_from_record s entity_type r =
     LeaseToken (ml_namespace s) entity_type (lr_holder_node r) (lr_fencing_token r) (lr_expires_at_millis r)"

definition lease_token_of :: "memory_lease \<Rightarrow> entity_type \<Rightarrow> lease_token option" where
  "lease_token_of s entity_type =
     map_option (token_from_record s entity_type) (map_of (ml_records s) (ml_namespace s, entity_type))"

section \<open>Operations\<close>

definition next_expiry :: "memory_lease \<Rightarrow> u64 \<Rightarrow> (sharding_error, u64) result" where
  "next_expiry s now_millis =
     (if 2 ^ 64 \<le> ml_lease_duration s
      then Inl (CoordinatorLease ''in-memory'' ''lease duration exceeds u64 milliseconds'')
      else Inr (sat_add now_millis (of_nat (ml_lease_duration s))))"

definition lease_lost :: "lease_token \<Rightarrow> node_id option \<Rightarrow> u64 option \<Rightarrow> sharding_error" where
  "lease_lost token actual_holder actual_fencing =
     CoordinatorLeaseLost ''in-memory'' (lt_entity_type token) (lt_holder_node token) (lt_fencing_token token)
       actual_holder actual_fencing"

definition lease_acquire ::
  "memory_lease \<Rightarrow> entity_type \<Rightarrow> node_id \<Rightarrow> u64 \<Rightarrow> (sharding_error, lease_token) result \<times> memory_lease"
where
  "lease_acquire s entity_type holder now_millis =
     (case next_expiry s now_millis of
        Inl e \<Rightarrow> (Inl e, s)
      | Inr expires_at_millis \<Rightarrow>
          let key = (ml_namespace s, entity_type) in
          (case map_of (ml_records s) key of
             Some r \<Rightarrow>
               if lr_holder_node r = holder \<or> lr_expires_at_millis r \<le> now_millis then
                 let r' = \<lparr>lr_holder_node = holder,
                           lr_fencing_token = (if lr_holder_node r \<noteq> holder then sat_add (lr_fencing_token r) 1
                                               else lr_fencing_token r),
                           lr_expires_at_millis = expires_at_millis\<rparr>
                 in (Inr (token_from_record s entity_type r'), s\<lparr>ml_records := bt_insert key r' (ml_records s)\<rparr>)
               else
                 (Inl (CoordinatorLeaseRejected ''in-memory'' entity_type holder (Some (lr_holder_node r))
                    (Some (lr_expires_at_millis r))), s)
           | None \<Rightarrow>
               let r = \<lparr>lr_holder_node = holder, lr_fencing_token = 1, lr_expires_at_millis = expires_at_millis\<rparr>
               in (Inr (token_from_record s entity_type r), s\<lparr>ml_records := bt_insert key r (ml_records s)\<rparr>)))"

definition lease_renew :: "memory_lease \<Rightarrow> lease_token \<Rightarrow> u64 \<Rightarrow> (sharding_error, unit) result \<times> memory_lease" where
  "lease_renew s token now_millis =
     (case next_expiry s now_millis of
        Inl e \<Rightarrow> (Inl e, s)
      | Inr expiry \<Rightarrow>
          let key = (lt_namespace token, lt_entity_type token) in
          (case map_of (ml_records s) key of
             None \<Rightarrow> (Inl (lease_lost token None None), s)
           | Some r \<Rightarrow>
               if lr_holder_node r \<noteq> lt_holder_node token \<or> lr_fencing_token r \<noteq> lt_fencing_token token
                 \<or> lr_expires_at_millis r \<le> now_millis
               then (Inl (lease_lost token (Some (lr_holder_node r)) (Some (lr_fencing_token r))), s)
               else (Inr (), s\<lparr>ml_records := bt_insert key (r\<lparr>lr_expires_at_millis := expiry\<rparr>) (ml_records s)\<rparr>)))"

definition lease_release :: "memory_lease \<Rightarrow> lease_token \<Rightarrow> (sharding_error, unit) result \<times> memory_lease" where
  "lease_release s token =
     (let key = (lt_namespace token, lt_entity_type token) in
      case map_of (ml_records s) key of
        Some r \<Rightarrow>
          if lr_holder_node r = lt_holder_node token \<and> lr_fencing_token r = lt_fencing_token token
          then (Inr (), s\<lparr>ml_records := bt_remove key (ml_records s)\<rparr>)
          else (Inl (lease_lost token (Some (lr_holder_node r)) (Some (lr_fencing_token r))), s)
      | None \<Rightarrow> (Inr (), s))"

section \<open>Runs\<close>

datatype lease_request =
    AcquireLease entity_type node_id u64
  | RenewLease lease_token u64
  | ReleaseLease lease_token

fun lease_serve :: "lease_request \<Rightarrow> memory_lease \<Rightarrow> memory_lease" where
  "lease_serve (AcquireLease et holder now) s = snd (lease_acquire s et holder now)"
| "lease_serve (RenewLease token now) s = snd (lease_renew s token now)"
| "lease_serve (ReleaseLease token) s = snd (lease_release s token)"

definition lease_run :: "lease_request list \<Rightarrow> memory_lease \<Rightarrow> memory_lease" where
  "lease_run = fold lease_serve"

fun within :: "u64 \<Rightarrow> u64 \<Rightarrow> lease_request \<Rightarrow> bool" where
  "within t e (AcquireLease _ _ now) \<longleftrightarrow> t \<le> now \<and> now < e"
| "within t e (RenewLease _ now) \<longleftrightarrow> t \<le> now \<and> now < e"
| "within t e (ReleaseLease _) \<longleftrightarrow> True"

fun releases :: "string \<Rightarrow> entity_type \<Rightarrow> lease_request \<Rightarrow> bool" where
  "releases ns et (ReleaseLease token) \<longleftrightarrow> lt_namespace token = ns \<and> lt_entity_type token = et"
| "releases ns et _ \<longleftrightarrow> False"

fun releases_token :: "lease_token \<Rightarrow> lease_request \<Rightarrow> bool" where
  "releases_token token (ReleaseLease token') \<longleftrightarrow> lt_namespace token' = lt_namespace token
     \<and> lt_entity_type token' = lt_entity_type token \<and> lt_holder_node token' = lt_holder_node token
     \<and> lt_fencing_token token' = lt_fencing_token token"
| "releases_token token _ \<longleftrightarrow> False"

definition held :: "memory_lease \<Rightarrow> lease_token \<Rightarrow> bool" where
  "held s token \<longleftrightarrow> (\<exists>r. map_of (ml_records s) (lt_namespace token, lt_entity_type token) = Some r
     \<and> lr_holder_node r = lt_holder_node token \<and> lr_fencing_token r = lt_fencing_token token
     \<and> lt_expires_at_millis token \<le> lr_expires_at_millis r)"

lemma lease_serve_fields [simp]:
  "ml_namespace (lease_serve q s) = ml_namespace s" "ml_lease_duration (lease_serve q s) = ml_lease_duration s"
  by (cases q; auto simp: lease_acquire_def lease_renew_def lease_release_def Let_def
      split: sum.splits option.splits)+

lemma next_expiry_serve [simp]: "next_expiry (lease_serve q s) t = next_expiry s t"
  by (simp only: next_expiry_def lease_serve_fields)

lemma sat_add_mono: "a \<le> b \<Longrightarrow> sat_add a c \<le> sat_add b c" for a b c :: "'w::len word"
  by (auto simp: word_le_nat_alt unat_sat_add)

lemma next_expiry_mono:
  "next_expiry s t = Inr e \<Longrightarrow> t \<le> now \<Longrightarrow> next_expiry s now = Inr e' \<Longrightarrow> e \<le> e'"
  by (auto simp: next_expiry_def sat_add_mono split: if_splits)

text \<open>A lease survives every step taken before its expiry, other than its own release.\<close>

lemma held_step:
  assumes "held s token" and "next_expiry s t = Inr (lt_expires_at_millis token)"
    and "within t (lt_expires_at_millis token) q" and "\<not> releases_token token q"
  shows "held (lease_serve q s) token"
proof -
  obtain r where r: "map_of (ml_records s) (lt_namespace token, lt_entity_type token) = Some r"
    "lr_holder_node r = lt_holder_node token" "lr_fencing_token r = lt_fencing_token token"
    "lt_expires_at_millis token \<le> lr_expires_at_millis r"
    using assms(1) by (auto simp: held_def)
  show ?thesis
  proof (cases q)
    case (AcquireLease et holder now)
    have "now < lr_expires_at_millis r" "t \<le> now"
      using assms(3) r(4) AcquireLease by auto
    then show ?thesis
      using r AcquireLease next_expiry_mono [OF assms(2), of now]
      by (auto simp: held_def lease_acquire_def Let_def split: sum.splits option.splits)
  next
    case (RenewLease token' now)
    then have "t \<le> now"
      using assms(3) by auto
    then show ?thesis
      using r RenewLease next_expiry_mono [OF assms(2), of now]
      by (auto simp: held_def lease_renew_def Let_def split: sum.splits option.splits)
  next
    case (ReleaseLease token')
    then show ?thesis
      using r assms(4) by (auto simp: held_def lease_release_def Let_def split: option.splits)
  qed
qed

lemma held_run:
  assumes "held s token" and "next_expiry s t = Inr (lt_expires_at_millis token)"
    and "\<forall>q \<in> set qs. within t (lt_expires_at_millis token) q \<and> \<not> releases_token token q"
  shows "held (lease_run qs s) token \<and> ml_namespace (lease_run qs s) = ml_namespace s
    \<and> ml_lease_duration (lease_run qs s) = ml_lease_duration s"
  using assms
proof (induction qs arbitrary: s)
  case (Cons q qs)
  from Cons held_step [of s token t q] show ?case
    by (simp add: lease_run_def)
qed (simp add: lease_run_def)

lemma lease_acquire_held:
  assumes "lease_acquire s et holder t = (Inr token, s')"
  shows "held s' token \<and> next_expiry s' t = Inr (lt_expires_at_millis token) \<and> ml_namespace s' = ml_namespace s
    \<and> lt_namespace token = ml_namespace s \<and> lt_entity_type token = et \<and> lt_holder_node token = holder"
  using assms
  by (auto simp: lease_acquire_def held_def next_expiry_def token_from_record_def Let_def
      split: sum.splits option.splits if_splits)

text \<open>Fencing tokens along a run without releases of the entity type.\<close>

lemma fencing_step:
  assumes "map_of (ml_records s) (ns, et) = Some r" and "ml_namespace s = ns" and "\<not> releases ns et q"
    and "lr_fencing_token r \<noteq> - 1"
  shows "\<exists>r'. map_of (ml_records (lease_serve q s)) (ns, et) = Some r'
    \<and> unat (lr_fencing_token r') \<le> Suc (unat (lr_fencing_token r))
    \<and> (if lr_holder_node r' = lr_holder_node r then lr_fencing_token r' = lr_fencing_token r
       else lr_fencing_token r < lr_fencing_token r')"
proof -
  have bump: "sat_add (lr_fencing_token r) 1 = lr_fencing_token r + 1"
    using assms(4) unat_less_two_power [of "lr_fencing_token r + 1"] unat_Suc_word [OF assms(4)]
    by (simp add: sat_add_def)
  note suc = unat_Suc_word [OF assms(4)] word_less_Suc [OF assms(4)]
  show ?thesis
  proof (cases q)
    case (AcquireLease et' holder now)
    with assms bump suc show ?thesis
      by (auto simp: lease_acquire_def Let_def split: sum.splits option.splits)
  next
    case (RenewLease token now)
    with assms show ?thesis
      by (auto simp: lease_renew_def Let_def split: sum.splits option.splits)
  next
    case (ReleaseLease token)
    with assms show ?thesis
      by (auto simp: lease_release_def Let_def split: option.splits)
  qed
qed

lemma fencing_run:
  assumes "map_of (ml_records s) (ns, et) = Some r" and "ml_namespace s = ns" and "\<forall>q \<in> set qs. \<not> releases ns et q"
    and "unat (lr_fencing_token r) + length qs < 2 ^ 64 - 1"
  shows "\<exists>r'. map_of (ml_records (lease_run qs s)) (ns, et) = Some r' \<and> lr_fencing_token r \<le> lr_fencing_token r'
    \<and> (lr_fencing_token r' = lr_fencing_token r \<longrightarrow> lr_holder_node r' = lr_holder_node r)"
  using assms
proof (induction qs arbitrary: s r)
  case Nil
  then show ?case by (simp add: lease_run_def)
next
  case (Cons q qs)
  have "lr_fencing_token r \<noteq> - 1"
    using Cons.prems(4) by (auto simp: unat_max_word)
  then obtain r1 where r1: "map_of (ml_records (lease_serve q s)) (ns, et) = Some r1"
    "unat (lr_fencing_token r1) \<le> Suc (unat (lr_fencing_token r))"
    and step: "if lr_holder_node r1 = lr_holder_node r then lr_fencing_token r1 = lr_fencing_token r
       else lr_fencing_token r < lr_fencing_token r1"
    using fencing_step [OF Cons.prems(1,2)] Cons.prems(3) by auto
  have "unat (lr_fencing_token r1) + length qs < 2 ^ 64 - 1"
    using r1(2) Cons.prems(4) by simp
  then obtain r' where r': "map_of (ml_records (lease_run qs (lease_serve q s))) (ns, et) = Some r'"
    "lr_fencing_token r1 \<le> lr_fencing_token r'"
    "lr_fencing_token r' = lr_fencing_token r1 \<longrightarrow> lr_holder_node r' = lr_holder_node r1"
    using Cons.IH [OF r1(1)] Cons.prems(2,3) by auto
  then show ?case
    using step by (auto simp: lease_run_def split: if_splits)
qed

section \<open>Properties\<close>

text \<open>C15: Coordinator leadership is exclusive: once a node acquires the lease, then whatever
  requests any nodes make before its token expires (its own release apart), an attempt by another
  node in that time is rejected, naming the holder.\<close>

theorem lease_exclusive:
  assumes "lease_acquire s et holder t = (Inr token, s')"
    and "\<forall>q \<in> set qs. within t (lt_expires_at_millis token) q \<and> \<not> releases_token token q"
    and "t \<le> now" and "now < lt_expires_at_millis token" and "other \<noteq> holder"
  shows "\<exists>expires. lt_expires_at_millis token \<le> expires
    \<and> fst (lease_acquire (lease_run qs s') et other now)
        = Inl (CoordinatorLeaseRejected ''in-memory'' et other (Some holder) (Some expires))"
proof -
  note acq = lease_acquire_held [OF assms(1)]
  have run: "held (lease_run qs s') token" "ml_namespace (lease_run qs s') = ml_namespace s'"
    "ml_lease_duration (lease_run qs s') = ml_lease_duration s'"
    using held_run acq assms(2) by blast+
  obtain r where r: "map_of (ml_records (lease_run qs s')) (ml_namespace s, et) = Some r"
    "lr_holder_node r = holder" "lt_expires_at_millis token \<le> lr_expires_at_millis r"
    using run(1) acq by (auto simp: held_def)
  have "now < lr_expires_at_millis r"
    using r(3) assms(4) by simp
  moreover obtain e where "next_expiry (lease_run qs s') now = Inr e"
    using acq run(3) by (auto simp: next_expiry_def split: if_splits)
  ultimately show ?thesis
    using r run(2) acq assms(5) by (auto simp: lease_acquire_def Let_def)
qed

abbreviation sample_lease :: memory_lease where
  "sample_lease \<equiv> memory_lease_with_namespace ''default''"

abbreviation node_a :: node_id where "node_a \<equiv> NodeId ''a'' ''1''"
abbreviation node_b :: node_id where "node_b \<equiv> NodeId ''b'' ''1''"

lemmas lease_eval = lease_acquire_def lease_release_def memory_lease_with_namespace_def next_expiry_def
  token_from_record_def sat_add_def bt_remove_def lease_run_def

theorem lease_exclusive_witness:
  "\<not> is_ok (fst (lease_acquire (lease_run [RenewLease (LeaseToken ''default'' ''cart'' node_a 1 15100) 200]
     (snd (lease_acquire sample_lease ''cart'' node_a 100))) ''cart'' node_b 9000))"
proof -
  have acq: "lease_acquire sample_lease ''cart'' node_a 100
      = (Inr (LeaseToken ''default'' ''cart'' node_a 1 15100), snd (lease_acquire sample_lease ''cart'' node_a 100))"
    by (simp add: lease_eval)
  show ?thesis
    using lease_exclusive [OF acq, of "[RenewLease (LeaseToken ''default'' ''cart'' node_a 1 15100) 200]" 9000 node_b]
    by auto
qed

text \<open>C16: As long as nobody releases the lease, its fencing token never decreases and identifies
  the holder: two observations with the same token have the same holder. (Saturation is excluded by
  bounding the number of steps.)\<close>

theorem fencing_token_monotone:
  assumes "lease_token_of s et = Some token" and "\<forall>q \<in> set qs. \<not> releases (ml_namespace s) et q"
    and "unat (lt_fencing_token token) + length qs < 2 ^ 64 - 1"
  shows "\<exists>token'. lease_token_of (lease_run qs s) et = Some token' \<and> lt_fencing_token token \<le> lt_fencing_token token'
    \<and> (lt_fencing_token token' = lt_fencing_token token \<longrightarrow> lt_holder_node token' = lt_holder_node token)"
proof -
  obtain r where r: "map_of (ml_records s) (ml_namespace s, et) = Some r" "token = token_from_record s et r"
    using assms(1) by (auto simp: lease_token_of_def)
  have "ml_namespace (lease_run qs s) = ml_namespace s"
    by (induction qs arbitrary: s) (auto simp: lease_run_def)
  then show ?thesis
    using fencing_run [OF r(1) _ assms(2)] assms(3) r(2)
    by (auto simp: lease_token_of_def token_from_record_def)
qed

theorem fencing_token_monotone_witness:
  "\<exists>token'. lease_token_of (lease_run [AcquireLease ''cart'' node_b 20000]
     (snd (lease_acquire sample_lease ''cart'' node_a 100))) ''cart'' = Some token' \<and> 1 \<le> lt_fencing_token token'"
proof -
  let ?s = "snd (lease_acquire sample_lease ''cart'' node_a 100)"
  have token: "lease_token_of ?s ''cart'' = Some (LeaseToken ''default'' ''cart'' node_a 1 15100)"
    by (simp add: lease_eval lease_token_of_def)
  show ?thesis
    using fencing_token_monotone [OF token, of "[AcquireLease ''cart'' node_b 20000]"] by auto
qed

text \<open>C35: Releasing the lease forgets its fencing token: the next acquisition, by whatever node,
  is issued token 1 again, so tokens are not monotone across a release.\<close>

theorem release_restarts_fencing:
  assumes "lease_token_of s et = Some token" and "ml_lease_duration s < 2 ^ 64"
  shows "\<exists>expires. fst (lease_acquire (snd (lease_release s token)) et other now)
    = Inr (LeaseToken (ml_namespace s) et other 1 expires)"
  using assms
  by (auto simp: lease_token_of_def token_from_record_def lease_release_def lease_acquire_def next_expiry_def Let_def)

theorem release_restarts_fencing_witness:
  "\<exists>expires. fst (lease_acquire (snd (lease_release
     (snd (lease_acquire (snd (lease_acquire sample_lease ''cart'' node_a 100)) ''cart'' node_b 20000))
     (LeaseToken ''default'' ''cart'' node_b 2 35000))) ''cart'' node_a 21000)
     = Inr (LeaseToken ''default'' ''cart'' node_a 1 expires)"
proof -
  let ?s = "snd (lease_acquire (snd (lease_acquire sample_lease ''cart'' node_a 100)) ''cart'' node_b 20000)"
  have token: "lease_token_of ?s ''cart'' = Some (LeaseToken ''default'' ''cart'' node_b 2 35000)"
    and short: "ml_lease_duration ?s < 2 ^ 64" and ns: "ml_namespace ?s = ''default''"
    by (simp_all add: lease_eval lease_token_of_def)
  from release_restarts_fencing [OF token short, of node_a 21000] show ?thesis
    unfolding ns .
qed

end
