(* ===== verification/Coordinator_Store.thy ===== *)
theory Coordinator_Store
  imports Shard_Ownership Coordinator_Lease
begin

text \<open>
  The durable coordinator store (\<open>crates/rakka-sharding/src/coordinator_store.rs\<close>): persisted
  coordinator states and the in-memory store's compare-and-set. The locale \<open>coordinator_store\<close> is
  the contract of the \<open>ShardCoordinatorStore\<close> trait, from which it follows that concurrent writers
  that read the same state cannot both succeed; the in-memory store is shown to meet it.
\<close>

section \<open>Persisted states and the in-memory store\<close>

record persisted_state =
  ps_snapshot :: shard_ownership_snapshot
  ps_allocation_strategy :: string
  ps_updated_at_millis :: u64

type_synonym memory_coordinator_store = "(entity_type, persisted_state) btree"

definition validate_state_entity_type :: "entity_type \<Rightarrow> persisted_state \<Rightarrow> (sharding_error, unit) result" where
  "validate_state_entity_type entity_type state =
     (if ow_entity_type (ps_snapshot state) = entity_type then Inr ()
      else Inl (PersistedCoordinatorSnapshotMismatch entity_type (ow_entity_type (ps_snapshot state))
             (ow_number_of_shards (ps_snapshot state)) (ow_number_of_shards (ps_snapshot state))))"

definition coordinator_load ::
  "memory_coordinator_store \<Rightarrow> entity_type \<Rightarrow> (sharding_error, persisted_state option) result"
where
  "coordinator_load states entity_type = Inr (map_of states entity_type)"

definition stored_revision :: "persisted_state option \<Rightarrow> u64" where
  "stored_revision stored = (case stored of None \<Rightarrow> 0 | Some s \<Rightarrow> ow_revision (ps_snapshot s))"

definition coordinator_compare_and_set ::
  "memory_coordinator_store \<Rightarrow> entity_type \<Rightarrow> u64 \<Rightarrow> persisted_state
     \<Rightarrow> (sharding_error, persisted_state) result \<times> memory_coordinator_store"
where
  "coordinator_compare_and_set states entity_type expected_revision state =
     (case validate_state_entity_type entity_type state of
        Inl e \<Rightarrow> (Inl e, states)
      | Inr _ \<Rightarrow>
          let actual_revision = stored_revision (map_of states entity_type) in
          if actual_revision \<noteq> expected_revision
          then (Inl (CoordinatorRevisionConflict entity_type expected_revision actual_revision), states)
          else (Inr state, bt_insert entity_type state states))"

text \<open>The trait's default: the lease token is accepted and ignored.\<close>

definition coordinator_compare_and_set_with_lease ::
  "memory_coordinator_store \<Rightarrow> entity_type \<Rightarrow> u64 \<Rightarrow> persisted_state \<Rightarrow> lease_token option
     \<Rightarrow> (sharding_error, persisted_state) result \<times> memory_coordinator_store"
where
  "coordinator_compare_and_set_with_lease states entity_type expected_revision state lease_token =
     coordinator_compare_and_set states entity_type expected_revision state"

definition coordinator_delete ::
  "memory_coordinator_store \<Rightarrow> entity_type \<Rightarrow> u64 \<Rightarrow> (sharding_error, unit) result \<times> memory_coordinator_store"
where
  "coordinator_delete states entity_type expected_revision =
     (let actual_revision = stored_revision (map_of states entity_type) in
      if actual_revision \<noteq> expected_revision
      then (Inl (CoordinatorRevisionConflict entity_type expected_revision actual_revision), states)
      else (Inr (), bt_remove entity_type states))"

section \<open>The contract\<close>

text \<open>Writes of several writers in some order, with which of them succeed.\<close>

fun write_all ::
  "('s \<Rightarrow> entity_type \<Rightarrow> u64 \<Rightarrow> persisted_state \<Rightarrow> (sharding_error, persisted_state) result \<times> 's)
     \<Rightarrow> 's \<Rightarrow> entity_type \<Rightarrow> (u64 \<times> persisted_state) list \<Rightarrow> bool list \<times> 's"
where
  "write_all cas s et [] = ([], s)"
| "write_all cas s et ((expected, state) # ws) =
     (let (r, s') = cas s et expected state; (rs, s'') = write_all cas s' et ws in (is_ok r # rs, s''))"

locale coordinator_store =
  fixes load :: "'s \<Rightarrow> entity_type \<Rightarrow> (sharding_error, persisted_state option) result"
    and cas :: "'s \<Rightarrow> entity_type \<Rightarrow> u64 \<Rightarrow> persisted_state \<Rightarrow> (sharding_error, persisted_state) result \<times> 's"
  assumes cas_success: "cas s et expected state = (Inr stored, s') \<Longrightarrow>
      stored = state \<and> ow_entity_type (ps_snapshot state) = et
      \<and> (\<exists>old. load s et = Inr old \<and> stored_revision old = expected)
      \<and> load s' et = Inr (Some state) \<and> (\<forall>other. other \<noteq> et \<longrightarrow> load s' other = load s other)"
    and cas_failure: "cas s et expected state = (Inl e, s') \<Longrightarrow> s' = s"
    and cas_accepts: "load s et = Inr old \<Longrightarrow> ow_entity_type (ps_snapshot state) = et \<Longrightarrow>
      stored_revision old = expected \<Longrightarrow> \<exists>s'. cas s et expected state = (Inr state, s')"
begin

lemma cas_next:
  assumes "cas s et e st = (r, s1)" and "load s et = Inr old"
  shows "if is_ok r then load s1 et = Inr (Some st) \<and> stored_revision old = e else s1 = s"
proof (cases r)
  case (Inl err)
  with assms(1) cas_failure show ?thesis by simp
next
  case (Inr stored)
  with cas_success [of s et e st stored s1] assms show ?thesis by auto
qed

text \<open>
  While the stored revision has a property that \<open>n\<close> lacks, a write expecting \<open>n\<close> succeeds only after a successful write
  has lost that property.
\<close>

lemma lost_before:
  assumes "load s et = Inr old" and "P (stored_revision old)" and "\<not> P n"
    and "j < length ws" and "fst (ws ! j) = n" and "fst (write_all cas s et ws) ! j"
  shows "\<exists>k < j. fst (write_all cas s et ws) ! k \<and> P (fst (ws ! k)) \<and> \<not> P (ow_revision (ps_snapshot (snd (ws ! k))))"
  using assms
proof (induction ws arbitrary: s old j)
  case (Cons w ws)
  obtain e st where w: "w = (e, st)" by fastforce
  obtain r s1 where c: "cas s et e st = (r, s1)" by fastforce
  note nxt = cas_next [OF c Cons.prems(1)]
  have all: "fst (write_all cas s et (w # ws)) = is_ok r # fst (write_all cas s1 et ws)"
    by (simp add: w c split: prod.splits)
  obtain i where j: "j = Suc i"
    using Cons.prems nxt all by (cases j) (auto simp: w)
  show ?case
  proof (cases "is_ok r \<and> \<not> P (ow_revision (ps_snapshot st))")
    case True
    then show ?thesis
      using nxt Cons.prems(2) unfolding all by (intro exI [of _ 0]) (auto simp: j w)
  next
    case False
    then obtain old1 where "load s1 et = Inr old1" "P (stored_revision old1)"
      using nxt Cons.prems(1,2) by (cases "is_ok r") (auto simp: stored_revision_def)
    from Cons.IH [OF this Cons.prems(3), of i] Cons.prems(4-6) show ?thesis
      unfolding all j by auto
  qed
qed simp

lemma both_win:
  assumes "load s et = Inr old" and "\<not> P n" and "i < j" and "j < length ws" and "fst (ws ! i) = n" and "fst (ws ! j) = n"
    and "fst (write_all cas s et ws) ! i" and "fst (write_all cas s et ws) ! j"
  shows "\<exists>k. i \<le> k \<and> k < j \<and> fst (write_all cas s et ws) ! k
    \<and> (k = i \<or> P (fst (ws ! k))) \<and> \<not> P (ow_revision (ps_snapshot (snd (ws ! k))))"
  using assms
proof (induction ws arbitrary: s old i j)
  case (Cons w ws)
  obtain e st where w: "w = (e, st)" by fastforce
  obtain r s1 where c: "cas s et e st = (r, s1)" by fastforce
  note nxt = cas_next [OF c Cons.prems(1)]
  have all: "fst (write_all cas s et (w # ws)) = is_ok r # fst (write_all cas s1 et ws)"
    by (simp add: w c split: prod.splits)
  obtain j' where j: "j = Suc j'"
    using Cons.prems(3) by (cases j) auto
  obtain old1 where old1: "load s1 et = Inr old1"
    using nxt Cons.prems(1) by (cases "is_ok r") auto
  show ?case
  proof (cases i)
    case 0
    then have "is_ok r"
      using Cons.prems(7) unfolding all by simp
    then have load1: "load s1 et = Inr (Some st)"
      using nxt by simp
    show ?thesis
    proof (cases "P (ow_revision (ps_snapshot st))")
      case True
      then have "P (stored_revision (Some st))"
        by (simp add: stored_revision_def)
      from lost_before [where P = P, OF load1 this Cons.prems(2), of j' ws] Cons.prems(4,6,8)
      obtain k where "k < j'" "fst (write_all cas s1 et ws) ! k" "P (fst (ws ! k))" "\<not> P (ow_revision (ps_snapshot (snd (ws ! k))))"
        unfolding all j by auto
      then show ?thesis
        unfolding all j 0 by (intro exI [of _ "Suc k"]) simp
    next
      case False
      with \<open>is_ok r\<close> show ?thesis
        unfolding all j 0 by (intro exI [of _ 0]) (simp add: w)
    qed
  next
    case (Suc i')
    from Cons.IH [OF old1 Cons.prems(2), of i' j'] Cons.prems(3-8)
    obtain k where "i' \<le> k" "k < j'" "fst (write_all cas s1 et ws) ! k" "k = i' \<or> P (fst (ws ! k))"
      "\<not> P (ow_revision (ps_snapshot (snd (ws ! k))))"
      unfolding all j Suc by auto
    then show ?thesis
      unfolding all j Suc by (intro exI [of _ "Suc k"]) simp
  qed
qed simp

end

interpretation memory: coordinator_store coordinator_load coordinator_compare_and_set
  by unfold_locales
    (auto simp: coordinator_load_def coordinator_compare_and_set_def validate_state_entity_type_def Let_def
      split: if_splits sum.splits)

section \<open>Properties\<close>

text \<open>C17: Of two coordinators that start from the same persisted revision, reconcile with whatever
  membership each of them sees, and both change ownership, the one that writes second is refused
  with a revision conflict: no ownership decision is silently overwritten.\<close>

theorem concurrent_reconcile_one_winner:
  assumes "sc_entity_type c2 = et" and "sc_revision c1 = sc_revision c2"
    and "\<not> plan_is_empty (fst (reconcile c1 m1))"
    and "coordinator_compare_and_set_with_lease st et (rp_previous_revision (fst (reconcile c1 m1)))
      \<lparr>ps_snapshot = coordinator_snapshot (snd (reconcile c1 m1)), ps_allocation_strategy = a1, ps_updated_at_millis = t1\<rparr>
      token1 = (Inr stored, st')"
  shows "coordinator_compare_and_set_with_lease st' et (rp_previous_revision (fst (reconcile c2 m2)))
      \<lparr>ps_snapshot = coordinator_snapshot (snd (reconcile c2 m2)), ps_allocation_strategy = a2, ps_updated_at_millis = t2\<rparr>
      token2 = (Inl (CoordinatorRevisionConflict et (sc_revision c2) (sc_revision c2 + 1)), st')"
proof -
  have prev: "rp_previous_revision (fst (reconcile c m)) = sc_revision c" for c m
    by (simp add: reconcile_def Let_def split_def)
  have rev: "sc_revision (snd (reconcile c1 m1)) = sc_revision c1 + 1"
    using assms(3) by (simp add: plan_is_empty_def reconcile_def bump_revision_if_changed_def Let_def split_def)
  have "coordinator_load st' et = Inr (Some \<lparr>ps_snapshot = coordinator_snapshot (snd (reconcile c1 m1)),
      ps_allocation_strategy = a1, ps_updated_at_millis = t1\<rparr>)"
    using memory.cas_success assms(4) unfolding coordinator_compare_and_set_with_lease_def by blast
  then have "stored_revision (map_of st' et) = sc_revision c2 + 1"
    using rev assms(2) by (simp add: coordinator_load_def stored_revision_def coordinator_snapshot_def)
  then show ?thesis
    using assms(1)
    by (simp add: coordinator_compare_and_set_with_lease_def coordinator_compare_and_set_def prev
        validate_state_entity_type_def coordinator_snapshot_def)
qed

theorem concurrent_reconcile_one_winner_witness:
  "\<exists>st'. coordinator_compare_and_set_with_lease st' ''cart'' 0
      \<lparr>ps_snapshot = coordinator_snapshot (snd (reconcile sample_coordinator sample_cluster)),
       ps_allocation_strategy = ''modulo'', ps_updated_at_millis = 8\<rparr> None
      = (Inl (CoordinatorRevisionConflict ''cart'' 0 1), st')"
proof -
  let ?r = "reconcile sample_coordinator sample_cluster"
  let ?state = "\<lambda>t. \<lparr>ps_snapshot = coordinator_snapshot (snd ?r), ps_allocation_strategy = ''modulo'', ps_updated_at_millis = t\<rparr>"
  have type: "sc_entity_type sample_coordinator = ''cart''" and rev: "sc_revision sample_coordinator = 0"
    by (simp_all add: sample_coordinator_defs)
  have prev: "rp_previous_revision (fst ?r) = 0"
    using rev by (simp add: reconcile_def Let_def split_def)
  have "sc_assignments (snd ?r) \<noteq> []"
    using sample_owner by auto
  then have changed: "\<not> plan_is_empty (fst ?r)"
    using reconcile_plan [of sample_coordinator sample_cluster "fst ?r" "snd ?r"]
    by (auto simp: plan_is_empty_def sample_coordinator_defs)
  have "coordinator_compare_and_set_with_lease [] ''cart'' (rp_previous_revision (fst ?r)) (?state 7) None
      = (Inr (?state 7), [(''cart'', ?state 7)])"
    unfolding prev by (simp add: coordinator_compare_and_set_with_lease_def coordinator_compare_and_set_def
        validate_state_entity_type_def stored_revision_def coordinator_snapshot_def type)
  from concurrent_reconcile_one_winner [OF type refl changed this,
      of sample_cluster "''modulo''" 8 None] show ?thesis
    unfolding prev rev by auto
qed

text \<open>C29: However many writers race in whatever order, two writes that expect the same revision both
  succeed only if, from the first of them on and before the second, a successful write stored that revision again, and
  only if a successful write among these stored a revision no higher than the one it expected. So while every write
  stores a higher revision than it expects, of the writes that expect one revision at most one succeeds. The store
  itself does not check that revisions grow.\<close>

theorem compare_and_set_single_winner:
  assumes "i < j" and "j < length ws" and "fst (ws ! i) = n" and "fst (ws ! j) = n"
    and "fst (write_all coordinator_compare_and_set st et ws) ! i" and "fst (write_all coordinator_compare_and_set st et ws) ! j"
  shows "(\<exists>k. i \<le> k \<and> k < j \<and> fst (write_all coordinator_compare_and_set st et ws) ! k
        \<and> ow_revision (ps_snapshot (snd (ws ! k))) = n)
    \<and> (\<exists>k. i \<le> k \<and> k < j \<and> fst (write_all coordinator_compare_and_set st et ws) ! k
        \<and> ow_revision (ps_snapshot (snd (ws ! k))) \<le> fst (ws ! k))"
proof
  have load: "coordinator_load st et = Inr (map_of st et)"
    by (simp add: coordinator_load_def)
  show "\<exists>k. i \<le> k \<and> k < j \<and> fst (write_all coordinator_compare_and_set st et ws) ! k \<and> ow_revision (ps_snapshot (snd (ws ! k))) = n"
    using memory.both_win [where P = "\<lambda>r. r \<noteq> n", OF load _ assms] by auto
  obtain k where k: "i \<le> k" "k < j" "fst (write_all coordinator_compare_and_set st et ws) ! k"
      "k = i \<or> n < fst (ws ! k)" "\<not> n < ow_revision (ps_snapshot (snd (ws ! k)))"
    using memory.both_win [where P = "\<lambda>r. n < r", OF load _ assms] by auto
  then have "ow_revision (ps_snapshot (snd (ws ! k))) \<le> fst (ws ! k)"
    using assms(3) by auto
  with k show "\<exists>k. i \<le> k \<and> k < j \<and> fst (write_all coordinator_compare_and_set st et ws) ! k
      \<and> ow_revision (ps_snapshot (snd (ws ! k))) \<le> fst (ws ! k)"
    by blast
qed

definition cart_write :: "u64 \<Rightarrow> u64 \<Rightarrow> u64 \<times> persisted_state" where
  "cart_write expected revision = (expected, \<lparr>ps_snapshot = \<lparr>ow_revision = revision, ow_entity_type = ''cart'',
     ow_number_of_shards = 2, ow_assignments = []\<rparr>, ps_allocation_strategy = ''modulo'', ps_updated_at_millis = 7\<rparr>)"

theorem compare_and_set_single_winner_witness:
  "\<exists>k. k < 2 \<and> ow_revision (ps_snapshot (snd ([cart_write 0 1, cart_write 1 0, cart_write 0 1] ! k))) = 0"
proof -
  let ?ws = "[cart_write 0 1, cart_write 1 0, cart_write 0 1]"
  have "fst (write_all coordinator_compare_and_set [] ''cart'' ?ws) = [True, True, True]"
    by (simp add: cart_write_def coordinator_compare_and_set_def validate_state_entity_type_def stored_revision_def)
  then show ?thesis
    using compare_and_set_single_winner [of 0 2 ?ws 0 "[]" "''cart''"] by (auto simp: cart_write_def)
qed

end
