(* ===== verification/Persistence_Store.thy ===== *)
theory Persistence_Store
  imports Rakka_Prelude
begin

text \<open>
  The typed persistence vocabulary (\<open>crates/rakka-persistence/src/store.rs\<close> and \<open>error.rs\<close>):
  persistence ids, revisions and sequence numbers, the records kept by stores, snapshot
  selections, recovery options, the retention and retry policies, and the three store interfaces as
  records of operations with their contracts as locales. Sequence numbers and revisions are
  \<open>u64\<close> values whose \<open>next\<close> adds one.
\<close>

section \<open>Errors and ids\<close>

type_synonym persistence_id = string
type_synonym revision = u64
type_synonym sequence_nr = u64

datatype durable_error =
    RevisionConflict persistence_id revision revision
  | SequenceConflict persistence_id sequence_nr sequence_nr
  | InvalidPersistenceId string
  | StoreError string string
  | CodecError string
  | NotRecovered persistence_id

definition validate_persistence_id_part :: "string \<Rightarrow> string \<Rightarrow> (durable_error, unit) result" where
  "validate_persistence_id_part name v =
     (if v = '''' then Inl (InvalidPersistenceId (name @ '' must not be empty''))
      else if CHR ''|'' \<in> set v
      then Inl (InvalidPersistenceId (name @ '' must not contain persistence id separator \"|\"''))
      else Inr ())"

definition persistence_id_of :: "string \<Rightarrow> string \<Rightarrow> (durable_error, persistence_id) result" where
  "persistence_id_of entity_type entity_id =
     (case validate_persistence_id_part ''entity_type'' entity_type of
        Inl e \<Rightarrow> Inl e
      | Inr _ \<Rightarrow>
          (case validate_persistence_id_part ''entity_id'' entity_id of
             Inl e \<Rightarrow> Inl e
           | Inr _ \<Rightarrow> Inr (entity_type @ ''|'' @ entity_id)))"

definition entity_parts :: "persistence_id \<Rightarrow> (string \<times> string) option" where
  "entity_parts pid = split_once (CHR ''|'') pid"

section \<open>Records\<close>

definition revision_next :: "revision \<Rightarrow> revision" where
  "revision_next r = r + 1"

definition sequence_next :: "sequence_nr \<Rightarrow> sequence_nr" where
  "sequence_next n = n + 1"

datatype 's state_record = StateRecord (sr_state: 's) (sr_revision: revision)

definition missing_record :: "'s \<Rightarrow> 's state_record" where
  "missing_record empty_state = StateRecord empty_state 0"

datatype 'e tagged_event = TaggedEvent (te_event: 'e) (te_tags: "string list")

record event_metadata =
  em_persistence_id :: persistence_id
  em_sequence_nr :: sequence_nr
  em_timestamp_millis :: u64
  em_tags :: "string list"
  em_slice :: "u32 option"

datatype 'e event_record = EventRecord (er_event: 'e) (er_metadata: event_metadata)

abbreviation er_sequence_nr :: "'e event_record \<Rightarrow> sequence_nr" where
  "er_sequence_nr r \<equiv> em_sequence_nr (er_metadata r)"

record snapshot_metadata =
  sm_persistence_id :: persistence_id
  sm_sequence_nr :: sequence_nr
  sm_timestamp_millis :: u64

datatype 's snapshot_record = SnapshotRecord (sn_snapshot: 's) (sn_metadata: snapshot_metadata)

abbreviation sn_sequence_nr :: "'s snapshot_record \<Rightarrow> sequence_nr" where
  "sn_sequence_nr r \<equiv> sm_sequence_nr (sn_metadata r)"

section \<open>Selections and policies\<close>

record snapshot_selection =
  ss_min_sequence_nr :: sequence_nr
  ss_max_sequence_nr :: sequence_nr
  ss_min_timestamp_millis :: u64
  ss_max_timestamp_millis :: u64

definition selection_latest :: snapshot_selection where
  "selection_latest = \<lparr>ss_min_sequence_nr = 0, ss_max_sequence_nr = - 1,
     ss_min_timestamp_millis = 0, ss_max_timestamp_millis = - 1\<rparr>"

definition selection_up_to :: "sequence_nr \<Rightarrow> snapshot_selection" where
  "selection_up_to n = selection_latest\<lparr>ss_max_sequence_nr := n\<rparr>"

definition selection_between :: "sequence_nr \<Rightarrow> sequence_nr \<Rightarrow> snapshot_selection" where
  "selection_between lo hi = \<lparr>ss_min_sequence_nr = lo, ss_max_sequence_nr = hi,
     ss_min_timestamp_millis = 0, ss_max_timestamp_millis = - 1\<rparr>"

definition selection_matches :: "snapshot_selection \<Rightarrow> snapshot_metadata \<Rightarrow> bool" where
  "selection_matches sel m \<longleftrightarrow> ss_min_sequence_nr sel \<le> sm_sequence_nr m \<and> sm_sequence_nr m \<le> ss_max_sequence_nr sel
     \<and> ss_min_timestamp_millis sel \<le> sm_timestamp_millis m \<and> sm_timestamp_millis m \<le> ss_max_timestamp_millis sel"

record recovery_options =
  ro_snapshot_selection :: snapshot_selection
  ro_replay_from :: sequence_nr
  ro_replay_to :: sequence_nr

definition recovery_options_new :: recovery_options where
  "recovery_options_new = \<lparr>ro_snapshot_selection = selection_latest, ro_replay_from = 1, ro_replay_to = - 1\<rparr>"

text \<open>
  \<open>keep_snapshots\<close> is a \<open>usize\<close> whose maximum means no limit; here \<open>None\<close> stands for that maximum.
\<close>

record retention_criteria =
  rc_snapshot_every :: "u64 option"
  rc_keep_snapshots :: "nat option"
  rc_delete_events_on_snapshot :: bool

definition retention_disabled :: retention_criteria where
  "retention_disabled = \<lparr>rc_snapshot_every = None, rc_keep_snapshots = None, rc_delete_events_on_snapshot = False\<rparr>"

definition retention_snapshot_every :: "u64 \<Rightarrow> retention_criteria" where
  "retention_snapshot_every n = \<lparr>rc_snapshot_every = Some n, rc_keep_snapshots = None, rc_delete_events_on_snapshot = False\<rparr>"

definition should_snapshot :: "retention_criteria \<Rightarrow> sequence_nr \<Rightarrow> bool" where
  "should_snapshot rc n =
     (case rc_snapshot_every rc of
        Some every \<Rightarrow> 0 < every \<and> 0 < n \<and> n mod every = 0
      | None \<Rightarrow> False)"

record persist_failure_backoff =
  bo_retry_delay_millis :: u64
  bo_max_retries :: u32

definition backoff_disabled :: persist_failure_backoff where
  "backoff_disabled = \<lparr>bo_retry_delay_millis = 0, bo_max_retries = 0\<rparr>"

definition backoff_fixed :: "duration \<Rightarrow> u32 \<Rightarrow> persist_failure_backoff" where
  "backoff_fixed delay retries = \<lparr>bo_retry_delay_millis = millis_u64 delay, bo_max_retries = retries\<rparr>"

section \<open>Store interfaces\<close>

text \<open>
  The store traits as records of operations on a store's state. Clocks are arguments: an append
  reads the clock once per event, \<open>clock i\<close> being the \<open>i\<close>-th reading.
\<close>

record ('st, 's) state_store_ops =
  so_load :: "'st \<Rightarrow> persistence_id \<Rightarrow> (durable_error, 's state_record option) result"
  so_compare_and_set :: "'st \<Rightarrow> persistence_id \<Rightarrow> revision \<Rightarrow> 's \<Rightarrow> (durable_error, 's state_record) result \<times> 'st"
  so_delete :: "'st \<Rightarrow> persistence_id \<Rightarrow> revision \<Rightarrow> (durable_error, revision) result \<times> 'st"

record ('j, 'e) journal_ops =
  jo_append :: "'j \<Rightarrow> persistence_id \<Rightarrow> sequence_nr \<Rightarrow> 'e tagged_event list \<Rightarrow> (nat \<Rightarrow> u64)
    \<Rightarrow> (durable_error, 'e event_record list) result \<times> 'j"
  jo_replay :: "'j \<Rightarrow> persistence_id \<Rightarrow> sequence_nr \<Rightarrow> sequence_nr \<Rightarrow> (durable_error, 'e event_record list) result"
  jo_delete_to :: "'j \<Rightarrow> persistence_id \<Rightarrow> sequence_nr \<Rightarrow> (durable_error, unit) result \<times> 'j"
  jo_highest_sequence_nr :: "'j \<Rightarrow> persistence_id \<Rightarrow> (durable_error, sequence_nr) result"

record ('n, 's) snapshot_ops =
  sto_save :: "'n \<Rightarrow> persistence_id \<Rightarrow> sequence_nr \<Rightarrow> 's \<Rightarrow> u64 \<Rightarrow> (durable_error, 's snapshot_record) result \<times> 'n"
  sto_load :: "'n \<Rightarrow> persistence_id \<Rightarrow> snapshot_selection \<Rightarrow> (durable_error, 's snapshot_record option) result"
  sto_list :: "'n \<Rightarrow> persistence_id \<Rightarrow> snapshot_selection \<Rightarrow> (durable_error, snapshot_metadata list) result"
  sto_delete :: "'n \<Rightarrow> persistence_id \<Rightarrow> snapshot_selection \<Rightarrow> (durable_error, nat) result \<times> 'n"

section \<open>Contracts\<close>

text \<open>Durable state with optimistic revisions: \<open>current st pid\<close> is the record stored for an id.\<close>

locale state_store =
  fixes ops :: "('st, 's) state_store_ops" and current :: "'st \<Rightarrow> persistence_id \<Rightarrow> 's state_record option"
  assumes load_current: "so_load ops st pid = Inr found \<Longrightarrow> found = current st pid"
    and cas_stores: "so_compare_and_set ops st pid expected s = (Inr r, st') \<Longrightarrow>
      r = StateRecord s (expected + 1) \<and> expected = (case current st pid of None \<Rightarrow> 0 | Some c \<Rightarrow> sr_revision c)
      \<and> current st' = (current st)(pid \<mapsto> r)"
    and cas_keeps: "so_compare_and_set ops st pid expected s = (Inl e, st') \<Longrightarrow> current st' = current st"
    and delete_removes: "so_delete ops st pid expected = (Inr rv, st') \<Longrightarrow>
      rv = 0 \<and> expected = (case current st pid of None \<Rightarrow> 0 | Some c \<Rightarrow> sr_revision c)
      \<and> current st' = (current st)(pid := None)"
    and delete_keeps: "so_delete ops st pid expected = (Inl e, st') \<Longrightarrow> current st' = current st"

text \<open>
  An event journal: \<open>highest j pid\<close> is the last sequence number ever assigned, \<open>events j pid\<close> the
  records that have not been deleted, oldest first. A failed operation leaves them unchanged.
\<close>

locale event_journal =
  fixes ops :: "('j, 'e) journal_ops"
    and highest :: "'j \<Rightarrow> persistence_id \<Rightarrow> sequence_nr"
    and events :: "'j \<Rightarrow> persistence_id \<Rightarrow> 'e event_record list"
  assumes append_stores: "jo_append ops j pid expected es clock = (Inr rs, j') \<Longrightarrow>
      highest j pid = expected \<and> map er_event rs = map te_event es
      \<and> map er_sequence_nr rs = map (\<lambda>i. expected + of_nat (Suc i)) [0..<length es]
      \<and> highest j' = (highest j)(pid := expected + of_nat (length es))
      \<and> events j' = (events j)(pid := events j pid @ rs)"
    and append_keeps: "jo_append ops j pid expected es clock = (Inl e, j') \<Longrightarrow>
      highest j' = highest j \<and> events j' = events j"
    and replay_selects: "jo_replay ops j pid lo hi = Inr rs \<Longrightarrow>
      rs = filter (\<lambda>r. lo \<le> er_sequence_nr r \<and> er_sequence_nr r \<le> hi) (events j pid)"
    and delete_to_drops: "jo_delete_to ops j pid bound = (Inr (), j') \<Longrightarrow> highest j' = highest j
      \<and> events j' = (events j)(pid := filter (\<lambda>r. bound < er_sequence_nr r) (events j pid))"
    and highest_reads: "jo_highest_sequence_nr ops j pid = Inr k \<Longrightarrow> k = highest j pid"
    and delete_to_keeps: "jo_delete_to ops j pid bound = (Inl e, j') \<Longrightarrow>
      highest j' = highest j \<and> events j' = events j"

text \<open>A snapshot store: \<open>snaps n pid\<close> lists the snapshots of an id, newest first.\<close>

locale snapshot_store =
  fixes ops :: "('n, 's) snapshot_ops" and snaps :: "'n \<Rightarrow> persistence_id \<Rightarrow> 's snapshot_record list"
    and ok :: "'n \<Rightarrow> bool"
  assumes newest_first: "ok n \<Longrightarrow> sorted_wrt (\<lambda>a b. sn_sequence_nr b < sn_sequence_nr a) (snaps n pid)"
    and save_stores: "ok n \<Longrightarrow> sto_save ops n pid k s t = (Inr r, n') \<Longrightarrow>
      ok n' \<and> sn_snapshot r = s \<and> sn_sequence_nr r = k
      \<and> set (snaps n' pid) = insert r {x \<in> set (snaps n pid). sn_sequence_nr x \<noteq> k}
      \<and> (\<forall>p. p \<noteq> pid \<longrightarrow> snaps n' p = snaps n p)"
    and save_keeps: "ok n \<Longrightarrow> sto_save ops n pid k s t = (Inl e, n') \<Longrightarrow> ok n' \<and> snaps n' = snaps n"
    and load_selects: "ok n \<Longrightarrow> sto_load ops n pid sel = Inr found \<Longrightarrow>
      found = find (\<lambda>x. selection_matches sel (sn_metadata x)) (snaps n pid)"
    and list_selects: "ok n \<Longrightarrow> sto_list ops n pid sel = Inr ms \<Longrightarrow>
      ms = map sn_metadata (filter (\<lambda>x. selection_matches sel (sn_metadata x)) (snaps n pid))"
    and delete_drops: "ok n \<Longrightarrow> sto_delete ops n pid sel = (Inr c, n') \<Longrightarrow>
      ok n' \<and> snaps n' = (snaps n)(pid := filter (\<lambda>x. \<not> selection_matches sel (sn_metadata x)) (snaps n pid))"
    and delete_keeps: "ok n \<Longrightarrow> sto_delete ops n pid sel = (Inl e, n') \<Longrightarrow> ok n' \<and> snaps n' = snaps n"

lemma selection_latest_matches [simp]: "selection_matches selection_latest m"
  by (simp add: selection_latest_def selection_matches_def)

lemma selection_between_matches [simp]: "selection_matches (selection_between k k) m \<longleftrightarrow> sm_sequence_nr m = k"
  by (auto simp: selection_between_def selection_matches_def)

section \<open>Properties\<close>

text \<open>C33: Building a persistence id from its two parts succeeds exactly for non-empty parts without
  the separator, and such an id splits back into exactly these parts; ids of different entities
  differ.\<close>

theorem persistence_id_roundtrip:
  "persistence_id_of entity_type entity_id = Inr pid \<longleftrightarrow>
     entity_type \<noteq> '''' \<and> entity_id \<noteq> '''' \<and> CHR ''|'' \<notin> set entity_type \<and> CHR ''|'' \<notin> set entity_id
     \<and> entity_parts pid = Some (entity_type, entity_id)"
proof -
  have "entity_parts pid = Some (entity_type, entity_id) \<longleftrightarrow>
      pid = entity_type @ CHR ''|'' # entity_id \<and> CHR ''|'' \<notin> set entity_type"
    by (auto simp: entity_parts_def split_once_Some)
  then show ?thesis
    by (auto simp: persistence_id_of_def validate_persistence_id_part_def split: if_splits)
qed

end
