(* ===== verification/Persistence_Memory.thy ===== *)
theory Persistence_Memory
  imports Persistence_Store
begin

text \<open>
  The in-memory stores (\<open>crates/rakka-persistence/src/memory.rs\<close>): durable state, event journal and
  snapshots. Every operation of the source holds the store's mutex for its whole body and is one
  step here. Each store is shown to meet the contract of its interface.
\<close>

section \<open>Durable state\<close>

type_synonym 's memory_state_store = "(persistence_id, 's state_record) btree"

definition memory_load :: "'s memory_state_store \<Rightarrow> persistence_id \<Rightarrow> (durable_error, 's state_record option) result" where
  "memory_load records pid = Inr (map_of records pid)"

definition actual_revision :: "'s memory_state_store \<Rightarrow> persistence_id \<Rightarrow> revision" where
  "actual_revision records pid = (case map_of records pid of None \<Rightarrow> 0 | Some r \<Rightarrow> sr_revision r)"

definition memory_compare_and_set ::
  "'s memory_state_store \<Rightarrow> persistence_id \<Rightarrow> revision \<Rightarrow> 's
     \<Rightarrow> (durable_error, 's state_record) result \<times> 's memory_state_store"
where
  "memory_compare_and_set records pid expected state =
     (if actual_revision records pid \<noteq> expected
      then (Inl (RevisionConflict pid expected (actual_revision records pid)), records)
      else
        let r = StateRecord state (revision_next expected)
        in (Inr r, bt_insert pid r records))"

definition memory_delete ::
  "'s memory_state_store \<Rightarrow> persistence_id \<Rightarrow> revision \<Rightarrow> (durable_error, revision) result \<times> 's memory_state_store"
where
  "memory_delete records pid expected =
     (if actual_revision records pid \<noteq> expected
      then (Inl (RevisionConflict pid expected (actual_revision records pid)), records)
      else (Inr 0, bt_remove pid records))"

definition memory_persistence_ids :: "'s memory_state_store \<Rightarrow> persistence_id list" where
  "memory_persistence_ids records = map fst records"

definition memory_state_ops :: "('s memory_state_store, 's) state_store_ops" where
  "memory_state_ops = \<lparr>so_load = memory_load, so_compare_and_set = memory_compare_and_set, so_delete = memory_delete\<rparr>"

interpretation memory_state: state_store memory_state_ops map_of
  by unfold_locales
    (auto simp: memory_state_ops_def memory_load_def memory_compare_and_set_def memory_delete_def
      actual_revision_def revision_next_def Let_def split: if_splits option.splits)

section \<open>Event journal\<close>

record 'e journal_state =
  js_highest_sequence_nr :: sequence_nr
  js_events :: "'e event_record list"

definition journal_default :: "'e journal_state" where
  "journal_default = \<lparr>js_highest_sequence_nr = 0, js_events = []\<rparr>"

type_synonym 'e memory_journal = "(persistence_id, 'e journal_state) btree"

definition journal_entry :: "'e memory_journal \<Rightarrow> persistence_id \<Rightarrow> 'e journal_state" where
  "journal_entry records pid = (case map_of records pid of Some s \<Rightarrow> s | None \<Rightarrow> journal_default)"

fun append_events ::
  "persistence_id \<Rightarrow> 'e journal_state \<Rightarrow> 'e tagged_event list \<Rightarrow> (nat \<Rightarrow> u64) \<Rightarrow> 'e event_record list \<times> 'e journal_state"
where
  "append_events pid st [] clock = ([], st)"
| "append_events pid st (tagged # es) clock =
     (let n = sequence_next (js_highest_sequence_nr st);
          r = EventRecord (te_event tagged)
                \<lparr>em_persistence_id = pid, em_sequence_nr = n, em_timestamp_millis = clock 0,
                 em_tags = te_tags tagged, em_slice = None\<rparr>;
          (rs, st') = append_events pid \<lparr>js_highest_sequence_nr = n, js_events = js_events st @ [r]\<rparr> es
                        (\<lambda>i. clock (Suc i))
      in (r # rs, st'))"

text \<open>An append creates the journal's entry for the id even when the expectation fails.\<close>

definition journal_append ::
  "'e memory_journal \<Rightarrow> persistence_id \<Rightarrow> sequence_nr \<Rightarrow> 'e tagged_event list \<Rightarrow> (nat \<Rightarrow> u64)
     \<Rightarrow> (durable_error, 'e event_record list) result \<times> 'e memory_journal"
where
  "journal_append records pid expected es clock =
     (let st = journal_entry records pid in
      if js_highest_sequence_nr st \<noteq> expected
      then (Inl (SequenceConflict pid expected (js_highest_sequence_nr st)), bt_insert pid st records)
      else
        let (rs, st') = append_events pid st es clock in (Inr rs, bt_insert pid st' records))"

definition journal_replay ::
  "'e memory_journal \<Rightarrow> persistence_id \<Rightarrow> sequence_nr \<Rightarrow> sequence_nr \<Rightarrow> (durable_error, 'e event_record list) result"
where
  "journal_replay records pid lo hi =
     Inr (case map_of records pid of
            None \<Rightarrow> []
          | Some st \<Rightarrow> filter (\<lambda>r. lo \<le> er_sequence_nr r \<and> er_sequence_nr r \<le> hi) (js_events st))"

definition journal_delete_to ::
  "'e memory_journal \<Rightarrow> persistence_id \<Rightarrow> sequence_nr \<Rightarrow> (durable_error, unit) result \<times> 'e memory_journal"
where
  "journal_delete_to records pid to =
     (Inr (), bt_adjust pid (\<lambda>st. st\<lparr>js_events := filter (\<lambda>r. to < er_sequence_nr r) (js_events st)\<rparr>) records)"

definition journal_highest :: "'e memory_journal \<Rightarrow> persistence_id \<Rightarrow> (durable_error, sequence_nr) result" where
  "journal_highest records pid =
     Inr (case map_of records pid of None \<Rightarrow> 0 | Some st \<Rightarrow> js_highest_sequence_nr st)"

definition journal_persistence_ids :: "'e memory_journal \<Rightarrow> persistence_id list" where
  "journal_persistence_ids records = map fst records"

definition events_by_tag :: "'e memory_journal \<Rightarrow> string \<Rightarrow> 'e event_record list" where
  "events_by_tag records tag =
     filter (\<lambda>r. tag \<in> set (em_tags (er_metadata r))) (concat (map (\<lambda>(_, st). js_events st) records))"

definition memory_journal_ops :: "('e memory_journal, 'e) journal_ops" where
  "memory_journal_ops = \<lparr>jo_append = journal_append, jo_replay = journal_replay,
     jo_delete_to = journal_delete_to, jo_highest_sequence_nr = journal_highest\<rparr>"

lemma append_events_result:
  "append_events pid st es clock = (rs, st') \<Longrightarrow>
     map er_event rs = map te_event es
     \<and> map er_sequence_nr rs = map (\<lambda>i. js_highest_sequence_nr st + of_nat (Suc i)) [0..<length es]
     \<and> js_highest_sequence_nr st' = js_highest_sequence_nr st + of_nat (length es)
     \<and> js_events st' = js_events st @ rs"
proof (induction es arbitrary: st clock rs)
  case (Cons e es)
  have upt: "[0..<Suc (length es)] = 0 # map Suc [0..<length es]"
    by (simp add: upt_conv_Cons map_Suc_upt del: upt_Suc)
  show ?case
    using Cons.prems Cons.IH
    by (auto simp: Let_def sequence_next_def upt add.assoc simp del: upt_Suc split: prod.splits)
qed simp

abbreviation journal_highest_of :: "'e memory_journal \<Rightarrow> persistence_id \<Rightarrow> sequence_nr" where
  "journal_highest_of j pid \<equiv> js_highest_sequence_nr (journal_entry j pid)"

abbreviation journal_events_of :: "'e memory_journal \<Rightarrow> persistence_id \<Rightarrow> 'e event_record list" where
  "journal_events_of j pid \<equiv> js_events (journal_entry j pid)"

lemma journal_entry_insert [simp]:
  "journal_entry (bt_insert pid st j) p = (if p = pid then st else journal_entry j p)"
  by (simp add: journal_entry_def)

lemma journal_entry_adjust:
  "f journal_default = journal_default \<Longrightarrow>
     journal_entry (bt_adjust pid f j) p = (if p = pid then f (journal_entry j p) else journal_entry j p)"
  by (auto simp: journal_entry_def split: option.splits)

interpretation memory_journal: event_journal memory_journal_ops journal_highest_of journal_events_of
proof unfold_locales
  fix j j' :: "'e memory_journal" and pid expected es clock rs
  assume "jo_append memory_journal_ops j pid expected es clock = (Inr rs, j')"
  then show "journal_highest_of j pid = expected \<and> map er_event rs = map te_event es
      \<and> map er_sequence_nr rs = map (\<lambda>i. expected + of_nat (Suc i)) [0..<length es]
      \<and> journal_highest_of j' = (journal_highest_of j)(pid := expected + of_nat (length es))
      \<and> journal_events_of j' = (journal_events_of j)(pid := journal_events_of j pid @ rs)"
    using append_events_result [of pid "journal_entry j pid" es clock]
    by (auto simp: memory_journal_ops_def journal_append_def Let_def fun_eq_iff split: if_splits prod.splits)
next
  fix j j' :: "'e memory_journal" and pid expected es clock e
  assume "jo_append memory_journal_ops j pid expected es clock = (Inl e, j')"
  then show "journal_highest_of j' = journal_highest_of j \<and> journal_events_of j' = journal_events_of j"
    by (auto simp: memory_journal_ops_def journal_append_def Let_def fun_eq_iff split: if_splits prod.splits)
next
  fix j :: "'e memory_journal" and pid lo hi rs
  assume "jo_replay memory_journal_ops j pid lo hi = Inr rs"
  then show "rs = filter (\<lambda>r. lo \<le> er_sequence_nr r \<and> er_sequence_nr r \<le> hi) (journal_events_of j pid)"
    by (auto simp: memory_journal_ops_def journal_replay_def journal_entry_def journal_default_def split: option.splits)
next
  fix j j' :: "'e memory_journal" and pid bound
  assume "jo_delete_to memory_journal_ops j pid bound = (Inr (), j')"
  then show "journal_highest_of j' = journal_highest_of j
      \<and> journal_events_of j' = (journal_events_of j)(pid := filter (\<lambda>r. bound < er_sequence_nr r) (journal_events_of j pid))"
    by (auto simp: memory_journal_ops_def journal_delete_to_def journal_entry_adjust journal_default_def fun_eq_iff)
next
  fix j :: "'e memory_journal" and pid k
  assume "jo_highest_sequence_nr memory_journal_ops j pid = Inr k"
  then show "k = journal_highest_of j pid"
    by (auto simp: memory_journal_ops_def journal_highest_def journal_entry_def journal_default_def split: option.splits)
next
  fix j j' :: "'e memory_journal" and pid bound e
  assume "jo_delete_to memory_journal_ops j pid bound = (Inl e, j')"
  then show "journal_highest_of j' = journal_highest_of j \<and> journal_events_of j' = journal_events_of j"
    by (simp add: memory_journal_ops_def journal_delete_to_def)
qed

section \<open>Snapshots\<close>

type_synonym 's memory_snapshots = "(persistence_id, 's snapshot_record list) btree"

text \<open>
  \<open>sort_by\<close> is a stable sort with the sequence number, then the timestamp, in descending order; on
  words the complement reverses the order.
\<close>

definition sort_snapshots_newest_first :: "'s snapshot_record list \<Rightarrow> 's snapshot_record list" where
  "sort_snapshots_newest_first =
     sort_key (\<lambda>r. (- 1 - sn_sequence_nr r, - 1 - sm_timestamp_millis (sn_metadata r)))"

definition snapshots_of :: "'s memory_snapshots \<Rightarrow> persistence_id \<Rightarrow> 's snapshot_record list" where
  "snapshots_of records pid = (case map_of records pid of Some xs \<Rightarrow> xs | None \<Rightarrow> [])"

definition snapshot_save ::
  "'s memory_snapshots \<Rightarrow> persistence_id \<Rightarrow> sequence_nr \<Rightarrow> 's \<Rightarrow> u64
     \<Rightarrow> (durable_error, 's snapshot_record) result \<times> 's memory_snapshots"
where
  "snapshot_save records pid n snapshot now =
     (let r = SnapshotRecord snapshot \<lparr>sm_persistence_id = pid, sm_sequence_nr = n, sm_timestamp_millis = now\<rparr>;
          kept = filter (\<lambda>x. sn_sequence_nr x \<noteq> n) (snapshots_of records pid)
      in (Inr r, bt_insert pid (sort_snapshots_newest_first (kept @ [r])) records))"

definition snapshot_load ::
  "'s memory_snapshots \<Rightarrow> persistence_id \<Rightarrow> snapshot_selection \<Rightarrow> (durable_error, 's snapshot_record option) result"
where
  "snapshot_load records pid sel =
     Inr (case map_of records pid of
            None \<Rightarrow> None
          | Some xs \<Rightarrow> find (\<lambda>x. selection_matches sel (sn_metadata x)) xs)"

definition snapshot_list ::
  "'s memory_snapshots \<Rightarrow> persistence_id \<Rightarrow> snapshot_selection \<Rightarrow> (durable_error, snapshot_metadata list) result"
where
  "snapshot_list records pid sel =
     Inr (case map_of records pid of
            None \<Rightarrow> []
          | Some xs \<Rightarrow> map sn_metadata (filter (\<lambda>x. selection_matches sel (sn_metadata x)) xs))"

definition snapshot_delete ::
  "'s memory_snapshots \<Rightarrow> persistence_id \<Rightarrow> snapshot_selection \<Rightarrow> (durable_error, nat) result \<times> 's memory_snapshots"
where
  "snapshot_delete records pid sel =
     (case map_of records pid of
        None \<Rightarrow> (Inr 0, records)
      | Some xs \<Rightarrow>
          let kept = filter (\<lambda>x. \<not> selection_matches sel (sn_metadata x)) xs
          in (Inr (length xs - length kept),
              if kept = [] then bt_remove pid records else bt_insert pid kept records))"

definition memory_snapshot_ops :: "('s memory_snapshots, 's) snapshot_ops" where
  "memory_snapshot_ops = \<lparr>sto_save = snapshot_save, sto_load = snapshot_load, sto_list = snapshot_list,
     sto_delete = snapshot_delete\<rparr>"

definition snapshots_ok :: "'s memory_snapshots \<Rightarrow> bool" where
  "snapshots_ok records \<longleftrightarrow> (\<forall>pid. sorted_wrt (\<lambda>a b. sn_sequence_nr b < sn_sequence_nr a) (snapshots_of records pid))"

lemma snapshots_of_simps [simp]:
  "snapshots_of (bt_insert pid xs m) p = (if p = pid then xs else snapshots_of m p)"
  "snapshots_of (bt_remove pid m) p = (if p = pid then [] else snapshots_of m p)"
  by (simp_all add: snapshots_of_def)

lemma word_complement_le: "(- 1 - a :: 'w::len word) \<le> - 1 - b \<longleftrightarrow> b \<le> a"
proof -
  have le: "unat x \<le> unat (- 1 :: 'w word)" for x :: "'w word"
    by (simp flip: word_le_nat_alt)
  then have sub: "unat (- 1 - x) = unat (- 1 :: 'w word) - unat x" for x :: "'w word"
    by (simp add: unat_sub word_le_nat_alt)
  show ?thesis
    unfolding word_le_nat_alt sub using le [of a] le [of b] by linarith
qed

lemma sorted_wrt_strict:
  fixes f :: "'a \<Rightarrow> 'b::linorder"
  shows "sorted_wrt (\<lambda>a b. f b \<le> f a) ys \<Longrightarrow> distinct (map f ys) \<Longrightarrow> sorted_wrt (\<lambda>a b. f b < f a) ys"
  by (induction ys) (auto simp: le_less image_iff, metis)

lemma sort_snapshots_sorted:
  assumes "distinct (map sn_sequence_nr xs)"
  shows "sorted_wrt (\<lambda>a b. sn_sequence_nr b < sn_sequence_nr a) (sort_snapshots_newest_first xs)"
proof -
  let ?k = "\<lambda>r. (- 1 - sn_sequence_nr r, - 1 - sm_timestamp_millis (sn_metadata r))"
  let ?ys = "sort_key ?k xs"
  have key: "sn_sequence_nr b \<le> sn_sequence_nr a" if "?k a \<le> ?k b" for a b :: "'a snapshot_record"
    using that word_complement_le [of "sn_sequence_nr a" "sn_sequence_nr b"]
    by (auto simp: less_eq_prod_def dest: less_imp_le)
  have "sorted (map ?k ?ys)"
    by simp
  then have "sorted_wrt (\<lambda>a b. sn_sequence_nr b \<le> sn_sequence_nr a) ?ys"
    unfolding sorted_wrt_map by (rule sorted_wrt_mono_rel [rotated]) (rule key)
  moreover have "distinct (map sn_sequence_nr ?ys)"
    using distinct_card [OF assms] by (intro card_distinct) simp
  ultimately have "sorted_wrt (\<lambda>a b. sn_sequence_nr b < sn_sequence_nr a) ?ys"
    by (rule sorted_wrt_strict)
  then show ?thesis
    by (simp add: sort_snapshots_newest_first_def)
qed

lemma distinct_newest_first:
  "sorted_wrt (\<lambda>a b. sn_sequence_nr b < sn_sequence_nr a) xs \<Longrightarrow> distinct (map sn_sequence_nr xs)"
  by (induction xs) (auto simp: image_iff)

interpretation memory_snapshots: snapshot_store memory_snapshot_ops snapshots_of snapshots_ok
proof unfold_locales
  fix n :: "'s memory_snapshots" and pid
  assume "snapshots_ok n"
  then show "sorted_wrt (\<lambda>a b. sn_sequence_nr b < sn_sequence_nr a) (snapshots_of n pid)"
    by (simp add: snapshots_ok_def)
next
  fix n n' :: "'s memory_snapshots" and pid k s t r
  assume ok: "snapshots_ok n" and save: "sto_save memory_snapshot_ops n pid k s t = (Inr r, n')"
  have "distinct (map sn_sequence_nr (filter (\<lambda>x. sn_sequence_nr x \<noteq> k) (snapshots_of n pid) @ [r]))"
    if "sn_sequence_nr r = k"
    using ok that by (auto simp: snapshots_ok_def distinct_newest_first distinct_map_filter)
  with ok save show "snapshots_ok n' \<and> sn_snapshot r = s \<and> sn_sequence_nr r = k
      \<and> set (snapshots_of n' pid) = insert r {x \<in> set (snapshots_of n pid). sn_sequence_nr x \<noteq> k}
      \<and> (\<forall>p. p \<noteq> pid \<longrightarrow> snapshots_of n' p = snapshots_of n p)"
    by (auto simp: memory_snapshot_ops_def snapshot_save_def snapshots_ok_def sort_snapshots_sorted Let_def)
      (auto simp: sort_snapshots_newest_first_def)
next
  fix n n' :: "'s memory_snapshots" and pid k s t e
  assume "sto_save memory_snapshot_ops n pid k s t = (Inl e, n')"
  then show "snapshots_ok n' \<and> snapshots_of n' = snapshots_of n"
    by (simp add: memory_snapshot_ops_def snapshot_save_def Let_def)
next
  fix n :: "'s memory_snapshots" and pid sel found
  assume "sto_load memory_snapshot_ops n pid sel = Inr found"
  then show "found = find (\<lambda>x. selection_matches sel (sn_metadata x)) (snapshots_of n pid)"
    by (auto simp: memory_snapshot_ops_def snapshot_load_def snapshots_of_def split: option.splits)
next
  fix n :: "'s memory_snapshots" and pid sel ms
  assume "sto_list memory_snapshot_ops n pid sel = Inr ms"
  then show "ms = map sn_metadata (filter (\<lambda>x. selection_matches sel (sn_metadata x)) (snapshots_of n pid))"
    by (auto simp: memory_snapshot_ops_def snapshot_list_def snapshots_of_def split: option.splits)
next
  fix n n' :: "'s memory_snapshots" and pid sel c
  assume ok: "snapshots_ok n" and "sto_delete memory_snapshot_ops n pid sel = (Inr c, n')"
  then have "snapshots_of n' = (snapshots_of n)(pid := filter (\<lambda>x. \<not> selection_matches sel (sn_metadata x)) (snapshots_of n pid))"
    by (auto simp: memory_snapshot_ops_def snapshot_delete_def snapshots_of_def fun_eq_iff Let_def
        split: option.splits if_splits)
  with ok show "snapshots_ok n'
      \<and> snapshots_of n' = (snapshots_of n)(pid := filter (\<lambda>x. \<not> selection_matches sel (sn_metadata x)) (snapshots_of n pid))"
    by (auto simp: snapshots_ok_def sorted_wrt_filter)
next
  fix n n' :: "'s memory_snapshots" and pid sel e
  assume "sto_delete memory_snapshot_ops n pid sel = (Inl e, n')"
  then show "snapshots_ok n' \<and> snapshots_of n' = snapshots_of n"
    by (simp add: memory_snapshot_ops_def snapshot_delete_def Let_def split: option.splits)
qed

section \<open>Properties\<close>

text \<open>C32: The in-memory journal numbers events without gaps. An accepted append had the expected highest number;
  its events get the numbers following it, in order, and are stored after the earlier ones, and no other id
  changes. A refused append reports the actual number and leaves the highest number and the stored events of every id
  as they were. Both make the id one of the listed ids, even a refused append to an id that had no entry.\<close>

theorem journal_append_contiguous:
  "(case journal_append j pid expected es clock of
      (Inr rs, j') \<Rightarrow> journal_highest j pid = Inr expected \<and> map er_event rs = map te_event es
        \<and> map er_sequence_nr rs = map (\<lambda>i. expected + of_nat (Suc i)) [0..<length es]
        \<and> journal_highest j' = (journal_highest j)(pid := Inr (expected + of_nat (length es)))
        \<and> journal_events_of j' = (journal_events_of j)(pid := journal_events_of j pid @ rs)
    | (Inl e, j') \<Rightarrow> (\<exists>actual. journal_highest j pid = Inr actual \<and> actual \<noteq> expected \<and> e = SequenceConflict pid expected actual)
        \<and> journal_highest j' = journal_highest j \<and> journal_events_of j' = journal_events_of j)
   \<and> set (journal_persistence_ids (snd (journal_append j pid expected es clock))) = insert pid (set (journal_persistence_ids j))"
proof -
  have high: "journal_highest k = (\<lambda>p. Inr (journal_highest_of k p))" for k :: "'a memory_journal"
    by (simp add: fun_eq_iff journal_highest_def journal_entry_def journal_default_def split: option.splits)
  have app: "jo_append memory_journal_ops j pid expected es clock = journal_append j pid expected es clock"
    by (simp add: memory_journal_ops_def)
  obtain r j' where eq: "journal_append j pid expected es clock = (r, j')"
    by fastforce
  obtain st where "j' = bt_insert pid st j"
    using eq by (auto simp: journal_append_def Let_def split: if_splits prod.splits)
  then have ids: "set (journal_persistence_ids j') = insert pid (set (journal_persistence_ids j))"
    by (simp add: journal_persistence_ids_def)
  show ?thesis
  proof (cases r)
    case (Inl e)
    then have "journal_highest_of j pid \<noteq> expected \<and> e = SequenceConflict pid expected (journal_highest_of j pid)"
      using eq by (auto simp: journal_append_def Let_def split: if_splits prod.splits)
    with Inl eq ids memory_journal.append_keeps [of j pid expected es clock e j'] app show ?thesis
      by (simp add: high fun_eq_iff)
  next
    case (Inr rs)
    with eq ids memory_journal.append_stores [of j pid expected es clock rs j'] app show ?thesis
      by (simp add: high fun_eq_iff)
  qed
qed

end
