(* ===== verification/Event_Sourced.thy ===== *)
theory Event_Sourced
  imports Persistence_Memory
begin

text \<open>
  The event-sourced actor runtime (\<open>crates/rakka-persistence/src/event_sourced.rs\<close>): recovery from
  the latest snapshot and the events after it, the application of a command's effect (append with
  retries, snapshot with retries, retention, side effects) and the actor's lifecycle hooks. The
  behaviour (the user's actor) and the two stores are parameters, as in the source; the user's
  methods may change the actor's own state, which is threaded through. Clock readings are
  arguments. The lemmas hold for any stores that meet the contracts of \<open>Persistence_Store\<close>.
\<close>

section \<open>Behaviours, effects and the runtime state\<close>

datatype persistence_signal =
    RecoveryStarted persistence_id
  | RecoveryCompleted persistence_id sequence_nr
  | EventsPersisted persistence_id sequence_nr sequence_nr
  | PersistFailed persistence_id u32 durable_error
  | SnapshotSaved persistence_id sequence_nr
  | SnapshotFailed persistence_id u32 durable_error
  | PreRestart persistence_id
  | PostStop persistence_id

datatype stash_directive = StashNone | Stash | UnstashAll

text \<open>Side effects are closures of the source; here they are opaque values that are run in order.\<close>

record ('e, 'x) es_effect =
  ef_events :: "'e tagged_event list"
  ef_snapshot :: bool
  ef_stop :: bool
  ef_stash :: stash_directive
  ef_unhandled :: bool
  ef_side_effects :: "'x list"

definition effect_none :: "('e, 'x) es_effect" where
  "effect_none = \<lparr>ef_events = [], ef_snapshot = False, ef_stop = False, ef_stash = StashNone,
     ef_unhandled = False, ef_side_effects = []\<rparr>"

definition effect_persist_all :: "'e tagged_event list \<Rightarrow> ('e, 'x) es_effect" where
  "effect_persist_all es = effect_none\<lparr>ef_events := es\<rparr>"

definition effect_then_snapshot :: "('e, 'x) es_effect \<Rightarrow> ('e, 'x) es_effect" where
  "effect_then_snapshot ef = ef\<lparr>ef_snapshot := True\<rparr>"

definition effect_and_stop :: "('e, 'x) es_effect \<Rightarrow> ('e, 'x) es_effect" where
  "effect_and_stop ef = ef\<lparr>ef_stop := True\<rparr>"

definition effect_then_run :: "('e, 'x) es_effect \<Rightarrow> 'x \<Rightarrow> ('e, 'x) es_effect" where
  "effect_then_run ef x = ef\<lparr>ef_side_effects := ef_side_effects ef @ [x]\<rparr>"

datatype actor_action = Continue | Stop

record ('a, 's, 'e, 'c, 'x) es_behavior =
  b_empty_state :: "'a \<Rightarrow> 's"
  b_handle_command :: "'a \<Rightarrow> persistence_id \<Rightarrow> sequence_nr \<Rightarrow> 's \<Rightarrow> 'c \<Rightarrow> (durable_error, ('e, 'x) es_effect) result \<times> 'a"
  b_apply_event :: "'a \<Rightarrow> 's \<Rightarrow> 'e \<Rightarrow> 's \<times> 'a"
  b_retention_criteria :: "'a \<Rightarrow> retention_criteria"
  b_persist_failure_backoff :: "'a \<Rightarrow> persist_failure_backoff"
  b_on_signal :: "'a \<Rightarrow> persistence_signal \<Rightarrow> (durable_error, unit) result \<times> 'a"

record ('a, 'j, 'n, 's) es_runtime =
  rt_actor :: 'a
  rt_journal :: 'j
  rt_snapshots :: 'n
  rt_persistence_id :: persistence_id
  rt_recovery_options :: recovery_options
  rt_recovered :: "('s \<times> sequence_nr) option"

definition es_runtime_new :: "'a \<Rightarrow> 'j \<Rightarrow> 'n \<Rightarrow> persistence_id \<Rightarrow> recovery_options \<Rightarrow> ('a, 'j, 'n, 's) es_runtime" where
  "es_runtime_new actor journal snapshots pid options =
     \<lparr>rt_actor = actor, rt_journal = journal, rt_snapshots = snapshots, rt_persistence_id = pid,
      rt_recovery_options = options, rt_recovered = None\<rparr>"

definition signal ::
  "('a, 's, 'e, 'c, 'x) es_behavior \<Rightarrow> ('a, 'j, 'n, 's) es_runtime \<Rightarrow> persistence_signal
     \<Rightarrow> (durable_error, unit) result \<times> ('a, 'j, 'n, 's) es_runtime"
where
  "signal b rt sig = (let (r, a) = b_on_signal b (rt_actor rt) sig in (r, rt\<lparr>rt_actor := a\<rparr>))"

section \<open>Recovery\<close>

definition replay_from_after_snapshot :: "sequence_nr \<Rightarrow> recovery_options \<Rightarrow> sequence_nr" where
  "replay_from_after_snapshot n options =
     (let after = sequence_next n in if ro_replay_from options < after then after else ro_replay_from options)"

fun apply_records :: "('a, 's, 'e, 'c, 'x) es_behavior \<Rightarrow> 'a \<Rightarrow> 's \<Rightarrow> sequence_nr \<Rightarrow> 'e event_record list \<Rightarrow> 's \<times> sequence_nr \<times> 'a"
where
  "apply_records b a s n [] = (s, n, a)"
| "apply_records b a s n (r # rs) =
     (let (s', a') = b_apply_event b a s (er_event r) in apply_records b a' s' (er_sequence_nr r) rs)"

definition recover ::
  "('a, 's, 'e, 'c, 'x) es_behavior \<Rightarrow> ('j, 'e) journal_ops \<Rightarrow> ('n, 's) snapshot_ops \<Rightarrow> ('a, 'j, 'n, 's) es_runtime
     \<Rightarrow> (durable_error, unit) result \<times> ('a, 'j, 'n, 's) es_runtime"
where
  "recover b J N rt =
     (case signal b rt (RecoveryStarted (rt_persistence_id rt)) of
        (Inl e, rt) \<Rightarrow> (Inl e, rt)
      | (Inr _, rt) \<Rightarrow>
          (case sto_load N (rt_snapshots rt) (rt_persistence_id rt) (ro_snapshot_selection (rt_recovery_options rt)) of
             Inl e \<Rightarrow> (Inl e, rt)
           | Inr snapshot \<Rightarrow>
               let (s, n) = (case snapshot of
                     Some r \<Rightarrow> (sn_snapshot r, sn_sequence_nr r)
                   | None \<Rightarrow> (b_empty_state b (rt_actor rt), 0));
                   replay_from = replay_from_after_snapshot n (rt_recovery_options rt)
               in
               (case (if replay_from \<le> ro_replay_to (rt_recovery_options rt)
                      then jo_replay J (rt_journal rt) (rt_persistence_id rt) replay_from (ro_replay_to (rt_recovery_options rt))
                      else Inr []) of
                  Inl e \<Rightarrow> (Inl e, rt)
                | Inr replayed \<Rightarrow>
                    let (s', n', a') = apply_records b (rt_actor rt) s n replayed
                    in signal b (rt\<lparr>rt_actor := a', rt_recovered := Some (s', n')\<rparr>)
                         (RecoveryCompleted (rt_persistence_id rt) n'))))"

section \<open>Applying an effect\<close>

text \<open>The retry loops: \<open>left\<close> counts the retries still allowed (\<open>max_retries - attempt\<close>).\<close>

fun append_attempts ::
  "('a, 's, 'e, 'c, 'x) es_behavior \<Rightarrow> ('j, 'e) journal_ops \<Rightarrow> (nat \<Rightarrow> nat \<Rightarrow> u64) \<Rightarrow> nat \<Rightarrow> u32 \<Rightarrow> sequence_nr
     \<Rightarrow> 'e tagged_event list \<Rightarrow> ('a, 'j, 'n, 's) es_runtime
     \<Rightarrow> (durable_error, 'e event_record list) result \<times> ('a, 'j, 'n, 's) es_runtime"
where
  "append_attempts b J clock left attempt expected es rt =
     (case jo_append J (rt_journal rt) (rt_persistence_id rt) expected es (clock left) of
        (Inr rs, j) \<Rightarrow> (Inr rs, rt\<lparr>rt_journal := j\<rparr>)
      | (Inl e, j) \<Rightarrow>
          (case signal b (rt\<lparr>rt_journal := j\<rparr>) (PersistFailed (rt_persistence_id rt) attempt e) of
             (Inl e', rt) \<Rightarrow> (Inl e', rt)
           | (Inr _, rt) \<Rightarrow>
               (case left of
                  0 \<Rightarrow> (Inl e, rt)
                | Suc left' \<Rightarrow> append_attempts b J clock left' (attempt + 1) expected es rt)))"

declare append_attempts.simps [simp del]

definition append_with_backoff ::
  "('a, 's, 'e, 'c, 'x) es_behavior \<Rightarrow> ('j, 'e) journal_ops \<Rightarrow> (nat \<Rightarrow> nat \<Rightarrow> u64) \<Rightarrow> sequence_nr
     \<Rightarrow> 'e tagged_event list \<Rightarrow> ('a, 'j, 'n, 's) es_runtime
     \<Rightarrow> (durable_error, 'e event_record list) result \<times> ('a, 'j, 'n, 's) es_runtime"
where
  "append_with_backoff b J clock expected es rt =
     append_attempts b J clock (unat (bo_max_retries (b_persist_failure_backoff b (rt_actor rt)))) 0 expected es rt"

fun save_attempts ::
  "('a, 's, 'e, 'c, 'x) es_behavior \<Rightarrow> ('n, 's) snapshot_ops \<Rightarrow> (nat \<Rightarrow> u64) \<Rightarrow> nat \<Rightarrow> u32 \<Rightarrow> sequence_nr
     \<Rightarrow> 's \<Rightarrow> ('a, 'j, 'n, 's) es_runtime \<Rightarrow> (durable_error, unit) result \<times> ('a, 'j, 'n, 's) es_runtime"
where
  "save_attempts b N clock left attempt n s rt =
     (case sto_save N (rt_snapshots rt) (rt_persistence_id rt) n s (clock left) of
        (Inr _, st) \<Rightarrow> signal b (rt\<lparr>rt_snapshots := st\<rparr>) (SnapshotSaved (rt_persistence_id rt) n)
      | (Inl e, st) \<Rightarrow>
          (case signal b (rt\<lparr>rt_snapshots := st\<rparr>) (SnapshotFailed (rt_persistence_id rt) attempt e) of
             (Inl e', rt) \<Rightarrow> (Inl e', rt)
           | (Inr _, rt) \<Rightarrow>
               (case left of
                  0 \<Rightarrow> (Inl e, rt)
                | Suc left' \<Rightarrow> save_attempts b N clock left' (attempt + 1) n s rt)))"

declare save_attempts.simps [simp del]

definition save_snapshot_with_backoff ::
  "('a, 's, 'e, 'c, 'x) es_behavior \<Rightarrow> ('n, 's) snapshot_ops \<Rightarrow> (nat \<Rightarrow> u64) \<Rightarrow> sequence_nr
     \<Rightarrow> 's \<Rightarrow> ('a, 'j, 'n, 's) es_runtime \<Rightarrow> (durable_error, unit) result \<times> ('a, 'j, 'n, 's) es_runtime"
where
  "save_snapshot_with_backoff b N clock n s rt =
     save_attempts b N clock (unat (bo_max_retries (b_persist_failure_backoff b (rt_actor rt)))) 0 n s rt"

fun delete_snapshots ::
  "('n, 's) snapshot_ops \<Rightarrow> persistence_id \<Rightarrow> snapshot_metadata list \<Rightarrow> 'n \<Rightarrow> (durable_error, unit) result \<times> 'n"
where
  "delete_snapshots N pid [] st = (Inr (), st)"
| "delete_snapshots N pid (m # ms) st =
     (case sto_delete N st pid (selection_between (sm_sequence_nr m) (sm_sequence_nr m)) of
        (Inl e, st') \<Rightarrow> (Inl e, st')
      | (Inr _, st') \<Rightarrow> delete_snapshots N pid ms st')"

definition prune_snapshots ::
  "('n, 's) snapshot_ops \<Rightarrow> retention_criteria \<Rightarrow> persistence_id \<Rightarrow> 'n \<Rightarrow> (durable_error, unit) result \<times> 'n"
where
  "prune_snapshots N rc pid st =
     (case rc_keep_snapshots rc of
        None \<Rightarrow> (Inr (), st)
      | Some keep \<Rightarrow>
          (case sto_list N st pid selection_latest of
             Inl e \<Rightarrow> (Inl e, st)
           | Inr ms \<Rightarrow> delete_snapshots N pid (drop keep ms) st))"

definition apply_retention ::
  "('a, 's, 'e, 'c, 'x) es_behavior \<Rightarrow> ('j, 'e) journal_ops \<Rightarrow> ('n, 's) snapshot_ops \<Rightarrow> sequence_nr
     \<Rightarrow> ('a, 'j, 'n, 's) es_runtime \<Rightarrow> (durable_error, unit) result \<times> ('a, 'j, 'n, 's) es_runtime"
where
  "apply_retention b J N latest rt =
     (let rc = b_retention_criteria b (rt_actor rt); pid = rt_persistence_id rt in
      case prune_snapshots N rc pid (rt_snapshots rt) of
        (Inl e, st) \<Rightarrow> (Inl e, rt\<lparr>rt_snapshots := st\<rparr>)
      | (Inr _, st) \<Rightarrow>
          let rt = rt\<lparr>rt_snapshots := st\<rparr> in
          if \<not> rc_delete_events_on_snapshot rc then (Inr (), rt)
          else
            (case (if rc_keep_snapshots rc = Some 0 then Inr latest
                   else
                     (case sto_list N st pid selection_latest of
                        Inl e \<Rightarrow> Inl e
                      | Inr retained \<Rightarrow> Inr (if retained = [] then latest else sm_sequence_nr (last retained)))) of
               Inl e \<Rightarrow> (Inl e, rt)
             | Inr delete_to \<Rightarrow>
                 let (r, j) = jo_delete_to J (rt_journal rt) pid delete_to in (r, rt\<lparr>rt_journal := j\<rparr>)))"

text \<open>The events of the effect, appended and applied; nothing is appended for an empty list.\<close>

definition persist_events ::
  "('a, 's, 'e, 'c, 'x) es_behavior \<Rightarrow> ('j, 'e) journal_ops \<Rightarrow> (nat \<Rightarrow> nat \<Rightarrow> u64) \<Rightarrow> 'e tagged_event list
     \<Rightarrow> 's \<Rightarrow> sequence_nr \<Rightarrow> ('a, 'j, 'n, 's) es_runtime
     \<Rightarrow> (durable_error, 's \<times> sequence_nr) result \<times> ('a, 'j, 'n, 's) es_runtime"
where
  "persist_events b J clock es s n rt =
     (if es = [] then (Inr (s, n), rt)
      else
        (case append_with_backoff b J clock n es rt of
           (Inl e, rt) \<Rightarrow> (Inl e, rt)
         | (Inr persisted, rt) \<Rightarrow>
             let first = (case persisted of [] \<Rightarrow> sequence_next n | r # _ \<Rightarrow> er_sequence_nr r);
                 (s', n', a') = apply_records b (rt_actor rt) s n persisted
             in
             (case signal b (rt\<lparr>rt_actor := a'\<rparr>) (EventsPersisted (rt_persistence_id rt) first n') of
                (Inl e, rt) \<Rightarrow> (Inl e, rt)
              | (Inr _, rt) \<Rightarrow> (Inr (s', n'), rt))))"

definition snapshot_if_due ::
  "('a, 's, 'e, 'c, 'x) es_behavior \<Rightarrow> ('j, 'e) journal_ops \<Rightarrow> ('n, 's) snapshot_ops \<Rightarrow> (nat \<Rightarrow> u64) \<Rightarrow> bool
     \<Rightarrow> 's \<Rightarrow> sequence_nr \<Rightarrow> ('a, 'j, 'n, 's) es_runtime
     \<Rightarrow> (durable_error, unit) result \<times> ('a, 'j, 'n, 's) es_runtime"
where
  "snapshot_if_due b J N clock due s n rt =
     (if due then
        (case save_snapshot_with_backoff b N clock n s rt of
           (Inl e, rt) \<Rightarrow> (Inl e, rt)
         | (Inr _, rt) \<Rightarrow> apply_retention b J N n rt)
      else (Inr (), rt))"

definition apply_effect ::
  "('a, 's, 'e, 'c, 'x) es_behavior \<Rightarrow> ('j, 'e) journal_ops \<Rightarrow> ('n, 's) snapshot_ops \<Rightarrow> (nat \<Rightarrow> nat \<Rightarrow> u64)
     \<Rightarrow> (nat \<Rightarrow> u64) \<Rightarrow> ('e, 'x) es_effect \<Rightarrow> ('a, 'j, 'n, 's) es_runtime
     \<Rightarrow> (durable_error, actor_action \<times> 'x list) result \<times> ('a, 'j, 'n, 's) es_runtime"
where
  "apply_effect b J N jclock sclock ef rt =
     (case rt_recovered rt of
        None \<Rightarrow> (Inl (NotRecovered (rt_persistence_id rt)), rt)
      | Some (s, n) \<Rightarrow>
          (case persist_events b J jclock (ef_events ef) s n rt of
             (Inl e, rt) \<Rightarrow> (Inl e, rt)
           | (Inr (s', n'), rt) \<Rightarrow>
               let due = ef_snapshot ef \<or> ef_events ef \<noteq> [] \<and> should_snapshot (b_retention_criteria b (rt_actor rt)) n' in
               (case snapshot_if_due b J N sclock due s' n' rt of
                  (Inl e, rt) \<Rightarrow> (Inl e, rt)
                | (Inr _, rt) \<Rightarrow>
                    (Inr (if ef_stop ef then Stop else Continue, ef_side_effects ef),
                     rt\<lparr>rt_recovered := Some (s', n')\<rparr>))))"

definition es_handle ::
  "('a, 's, 'e, 'c, 'x) es_behavior \<Rightarrow> ('j, 'e) journal_ops \<Rightarrow> ('n, 's) snapshot_ops \<Rightarrow> (nat \<Rightarrow> nat \<Rightarrow> u64)
     \<Rightarrow> (nat \<Rightarrow> u64) \<Rightarrow> 'c \<Rightarrow> ('a, 'j, 'n, 's) es_runtime
     \<Rightarrow> (durable_error, actor_action \<times> 'x list) result \<times> ('a, 'j, 'n, 's) es_runtime"
where
  "es_handle b J N jclock sclock msg rt =
     (case rt_recovered rt of
        None \<Rightarrow> (Inl (NotRecovered (rt_persistence_id rt)), rt)
      | Some (s, n) \<Rightarrow>
          (case b_handle_command b (rt_actor rt) (rt_persistence_id rt) n s msg of
             (Inl e, a) \<Rightarrow> (Inl e, rt\<lparr>rt_actor := a\<rparr>)
           | (Inr ef, a) \<Rightarrow> apply_effect b J N jclock sclock ef (rt\<lparr>rt_actor := a\<rparr>)))"

section \<open>Lifecycle hooks\<close>

definition es_started ::
  "('a, 's, 'e, 'c, 'x) es_behavior \<Rightarrow> ('j, 'e) journal_ops \<Rightarrow> ('n, 's) snapshot_ops \<Rightarrow> ('a, 'j, 'n, 's) es_runtime
     \<Rightarrow> (durable_error, actor_action) result \<times> ('a, 'j, 'n, 's) es_runtime"
where
  "es_started b J N rt =
     (case recover b J N rt of (Inl e, rt) \<Rightarrow> (Inl e, rt) | (Inr _, rt) \<Rightarrow> (Inr Continue, rt))"

definition es_restarted ::
  "('a, 's, 'e, 'c, 'x) es_behavior \<Rightarrow> ('j, 'e) journal_ops \<Rightarrow> ('n, 's) snapshot_ops \<Rightarrow> ('a, 'j, 'n, 's) es_runtime
     \<Rightarrow> (durable_error, actor_action) result \<times> ('a, 'j, 'n, 's) es_runtime"
where
  "es_restarted b J N rt =
     (case signal b rt (PreRestart (rt_persistence_id rt)) of
        (Inl e, rt) \<Rightarrow> (Inl e, rt)
      | (Inr _, rt) \<Rightarrow> es_started b J N rt)"

definition es_stopped ::
  "('a, 's, 'e, 'c, 'x) es_behavior \<Rightarrow> ('a, 'j, 'n, 's) es_runtime
     \<Rightarrow> (durable_error, actor_action) result \<times> ('a, 'j, 'n, 's) es_runtime"
where
  "es_stopped b rt =
     (case signal b rt (PostStop (rt_persistence_id rt)) of
        (Inl e, rt) \<Rightarrow> (Inl e, rt)
      | (Inr _, rt) \<Rightarrow> (Inr Continue, rt))"

end
