(* ===== verification/Event_Recovery.thy ===== *)
theory Event_Recovery
  imports Event_Sourced
begin

text \<open>
  Crash safety of the event-sourced runtime: whatever commands succeed or fail, wherever the actor
  crashes and restarts, recovery rebuilds the state that results from every event ever persisted.
  The invariant relates a journal and a snapshot store to the full history of persisted events; the
  lemmas about the runtime are proved for any stores that meet their contracts and then used for
  the in-memory ones.
\<close>

section \<open>A durable history\<close>

text \<open>
  \<open>h\<close> is the history of one id: the journal has assigned \<open>length h\<close> numbers and still holds the
  events after position \<open>d\<close>; each snapshot is the state after a prefix of \<open>h\<close>, and when events have
  been deleted some snapshot covers them.
\<close>

definition durable_history ::
  "('s \<Rightarrow> 'e \<Rightarrow> 's) \<Rightarrow> 's \<Rightarrow> sequence_nr \<Rightarrow> 'e event_record list \<Rightarrow> 's snapshot_record list \<Rightarrow> 'e list \<Rightarrow> bool"
where
  "durable_history f init hi evs sn h \<longleftrightarrow> length h < 2 ^ 64 - 1 \<and> hi = of_nat (length h)
     \<and> (\<forall>x \<in> set sn. unat (sn_sequence_nr x) \<le> length h
          \<and> sn_snapshot x = foldl f init (take (unat (sn_sequence_nr x)) h))
     \<and> (\<exists>d \<le> length h. map er_event evs = drop d h
          \<and> map (\<lambda>r. unat (er_sequence_nr r)) evs = [Suc d..<Suc (length h)]
          \<and> (d = 0 \<or> (\<exists>x \<in> set sn. d \<le> unat (sn_sequence_nr x))))"

lemma unat_of_nat_u64: "k < 2 ^ 64 \<Longrightarrow> unat (of_nat k :: u64) = k"
  by (simp add: unat_of_nat)

lemma unat_eq_u64: "unat (n :: u64) = k \<Longrightarrow> n = of_nat k"
  using unsigned_less [of n] by (auto simp: word_unat_eq_iff unat_of_nat_u64)

lemma u64_not_above_one: "x \<noteq> 0 \<Longrightarrow> \<not> 1 < x \<Longrightarrow> x = (1 :: u64)"
  by (simp add: word_less_nat_alt word_unat_eq_iff)

lemma durable_history_start: "durable_history f init 0 [] [] []"
  by (simp add: durable_history_def)

lemma filter_numbered:
  "map g evs = [Suc d..<Suc l] \<Longrightarrow> d \<le> k \<Longrightarrow> filter (\<lambda>r. k < g r) evs = drop (k - d) evs"
proof (induction evs arbitrary: d)
  case (Cons r evs)
  have r: "g r = Suc d" and evs: "map g evs = [Suc (Suc d)..<Suc l]" and "d < l"
    using Cons.prems(1) unfolding upt_rec [of "Suc d"] by (simp_all del: upt_Suc split: if_splits)
  show ?case
  proof (cases "k = d")
    case True
    have "\<forall>x \<in> set evs. k < g x"
    proof
      fix x assume "x \<in> set evs"
      then have "g x \<in> set [Suc (Suc d)..<Suc l]"
        using evs by (metis image_eqI list.set_map)
      then show "k < g x" using True by (simp del: upt_Suc)
    qed
    with r True show ?thesis by simp
  next
    case False
    with Cons.prems(2) have "Suc d \<le> k" "k - d = Suc (k - Suc d)"
      by simp_all
    with r Cons.IH [OF evs] show ?thesis
      by simp
  qed
qed simp

lemma durable_history_append:
  assumes "durable_history f init hi evs sn h" and "length h + length es < 2 ^ 64 - 1"
    and "map er_event rs = map te_event es"
    and "map er_sequence_nr rs = map (\<lambda>i. hi + of_nat (Suc i)) [0..<length es]"
  shows "durable_history f init (hi + of_nat (length es)) (evs @ rs) sn (h @ map te_event es)"
proof -
  let ?L = "length h" and ?m = "length es"
  have hi: "hi = of_nat ?L"
    using assms(1) by (simp add: durable_history_def)
  obtain d where d: "d \<le> ?L" "map er_event evs = drop d h"
    "map (\<lambda>r. unat (er_sequence_nr r)) evs = [Suc d..<Suc ?L]"
    "d = 0 \<or> (\<exists>x \<in> set sn. d \<le> unat (sn_sequence_nr x))"
    using assms(1) by (auto simp: durable_history_def)
  have num: "unat (of_nat ?L + of_nat (Suc i) :: u64) = Suc (?L + i)" if "i < ?m" for i
  proof -
    have "(of_nat ?L + of_nat (Suc i) :: u64) = of_nat (Suc (?L + i))"
      by simp
    also have "unat \<dots> = Suc (?L + i)"
      by (rule unat_of_nat_u64) (use that assms(2) in simp)
    finally show ?thesis .
  qed
  have "map (\<lambda>r. unat (er_sequence_nr r)) rs = map unat (map er_sequence_nr rs)"
    by (simp add: comp_def)
  also have "\<dots> = map (\<lambda>i. Suc (?L + i)) [0..<?m]"
    unfolding assms(4) map_map hi by (rule map_cong) (auto simp only: comp_def num set_upt atLeastLessThan_iff)
  also have "\<dots> = [Suc ?L..<Suc (?L + ?m)]"
    using map_add_upt [of "Suc ?L" ?m] by (simp add: add.commute del: upt_Suc)
  finally have "map (\<lambda>r. unat (er_sequence_nr r)) (evs @ rs) = [Suc d..<Suc (?L + ?m)]"
    using d(1,3) upt_add_eq_append [of "Suc d" "Suc ?L" ?m] by (simp del: upt_Suc)
  moreover have "map er_event (evs @ rs) = drop d (h @ map te_event es)"
    using d(1,2) assms(3) by simp
  ultimately show ?thesis
    using assms(1,2) d(1,4) hi unfolding durable_history_def by (auto intro!: exI [of _ d])
qed

lemma durable_history_snapshots:
  assumes "durable_history f init hi evs sn h"
    and "\<forall>x \<in> set sn'. x \<in> set sn \<or> unat (sn_sequence_nr x) \<le> length h
      \<and> sn_snapshot x = foldl f init (take (unat (sn_sequence_nr x)) h)"
    and "\<forall>x \<in> set sn. \<exists>y \<in> set sn'. sn_sequence_nr x \<le> sn_sequence_nr y"
  shows "durable_history f init hi evs sn' h"
proof -
  obtain d where d: "d \<le> length h" "map er_event evs = drop d h"
    "map (\<lambda>r. unat (er_sequence_nr r)) evs = [Suc d..<Suc (length h)]"
    "d = 0 \<or> (\<exists>x \<in> set sn. d \<le> unat (sn_sequence_nr x))"
    using assms(1) by (auto simp: durable_history_def)
  have "d = 0 \<or> (\<exists>x \<in> set sn'. d \<le> unat (sn_sequence_nr x))"
    using d(4) assms(3) unfolding word_le_nat_alt by (meson order_trans)
  moreover have "\<forall>x \<in> set sn'. unat (sn_sequence_nr x) \<le> length h
      \<and> sn_snapshot x = foldl f init (take (unat (sn_sequence_nr x)) h)"
    using assms(1,2) unfolding durable_history_def by blast
  ultimately show ?thesis
    using assms(1) d(1-3) unfolding durable_history_def by blast
qed

lemma durable_history_delete:
  assumes "durable_history f init hi evs sn h" and "x \<in> set sn"
  shows "durable_history f init hi (filter (\<lambda>r. sn_sequence_nr x < er_sequence_nr r) evs) sn h"
proof -
  let ?k = "unat (sn_sequence_nr x)"
  obtain d where d: "d \<le> length h" "map er_event evs = drop d h"
    "map (\<lambda>r. unat (er_sequence_nr r)) evs = [Suc d..<Suc (length h)]"
    and cover: "d = 0 \<or> (\<exists>x \<in> set sn. d \<le> unat (sn_sequence_nr x))"
    using assms(1) by (auto simp: durable_history_def)
  have k: "?k \<le> length h"
    using assms by (auto simp: durable_history_def)
  have eq: "filter (\<lambda>r. sn_sequence_nr x < er_sequence_nr r) evs = (if d \<le> ?k then drop (?k - d) evs else evs)"
  proof (cases "d \<le> ?k")
    case True
    then show ?thesis
      using filter_numbered [OF d(3)] by (simp add: word_less_nat_alt)
  next
    case False
    have "\<forall>r \<in> set evs. ?k < unat (er_sequence_nr r)"
    proof
      fix r assume "r \<in> set evs"
      then have "unat (er_sequence_nr r) \<in> set [Suc d..<Suc (length h)]"
        using d(3) by (metis (mono_tags, lifting) image_eqI list.set_map)
      then show "?k < unat (er_sequence_nr r)"
        using False by (simp del: upt_Suc)
    qed
    with False show ?thesis
      by (simp add: word_less_nat_alt)
  qed
  show ?thesis
  proof (cases "d \<le> ?k")
    case True
    have "map er_event (drop (?k - d) evs) = drop ?k h"
      using d(2) True by (simp add: drop_map [symmetric])
    moreover have "map (\<lambda>r. unat (er_sequence_nr r)) (drop (?k - d) evs) = [Suc ?k..<Suc (length h)]"
      using d(3) True by (simp add: drop_map [symmetric] del: upt_Suc)
    ultimately show ?thesis
      using assms k True unfolding eq durable_history_def by (auto intro!: exI [of _ ?k])
  qed (use assms(1) eq in simp)
qed

text \<open>Replaying the events after the newest snapshot rebuilds the state of the whole history.\<close>

definition snapshot_base :: "'s \<Rightarrow> 's snapshot_record list \<Rightarrow> 's \<times> sequence_nr" where
  "snapshot_base init sn = (case sn of [] \<Rightarrow> (init, 0) | x # _ \<Rightarrow> (sn_snapshot x, sn_sequence_nr x))"

lemma durable_history_replay:
  assumes D: "durable_history f init hi evs sn h"
    and sorted: "sorted_wrt (\<lambda>a b. sn_sequence_nr b < sn_sequence_nr a) sn"
    and base: "snapshot_base init sn = (s, n)"
  defines "rs \<equiv> filter (\<lambda>r. n + 1 \<le> er_sequence_nr r \<and> er_sequence_nr r \<le> - 1) evs"
  shows "foldl f s (map er_event rs) = foldl f init h"
    and "(if rs = [] then n else er_sequence_nr (last rs)) = of_nat (length h)"
    and "n + 1 \<noteq> 0"
proof -
  let ?k = "unat n"
  obtain d where d: "d \<le> length h" "map er_event evs = drop d h"
    "map (\<lambda>r. unat (er_sequence_nr r)) evs = [Suc d..<Suc (length h)]"
    "d = 0 \<or> (\<exists>x \<in> set sn. d \<le> unat (sn_sequence_nr x))"
    and short: "length h < 2 ^ 64 - 1"
    using D by (auto simp: durable_history_def)
  have k: "?k \<le> length h \<and> s = foldl f init (take ?k h) \<and> (\<forall>x \<in> set sn. unat (sn_sequence_nr x) \<le> ?k)"
    using D sorted base by (cases sn) (auto simp: snapshot_base_def durable_history_def word_less_nat_alt)
  then have dk: "d \<le> ?k"
    using d(4) by (metis le0 le_trans)
  have max: "n \<noteq> - 1"
    using k short by (auto simp: unat_max_word)
  then show "n + 1 \<noteq> 0"
    by (metis add_eq_0_iff add.commute)
  have "n + 1 \<le> x \<longleftrightarrow> ?k < unat x" for x
    using unat_Suc_word [OF max] by (simp add: word_le_nat_alt Suc_le_eq)
  then have rs: "rs = drop (?k - d) evs"
    using filter_numbered [OF d(3) dk] by (simp add: rs_def)
  have ev: "map er_event rs = drop ?k h"
    using d(2) dk by (simp add: rs drop_map [symmetric])
  then show "foldl f s (map er_event rs) = foldl f init h"
    using k by (metis append_take_drop_id foldl_append)
  have nr: "map (\<lambda>r. unat (er_sequence_nr r)) rs = [Suc ?k..<Suc (length h)]"
    using d(3) dk by (simp add: rs drop_map [symmetric] del: upt_Suc)
  show "(if rs = [] then n else er_sequence_nr (last rs)) = of_nat (length h)"
  proof (cases "rs = []")
    case True
    with nr [symmetric] k have "?k = length h"
      by (simp del: upt_Suc)
    with True short show ?thesis
      by (simp add: word_unat_eq_iff unat_of_nat_u64)
  next
    case False
    have "unat (er_sequence_nr (last rs)) = last [Suc ?k..<Suc (length h)]"
      using nr False by (metis last_map)
    also have "\<dots> = length h"
      using nr False by (cases "?k < length h") auto
    finally show ?thesis
      using False short by (simp add: word_unat_eq_iff unat_of_nat_u64)
  qed
qed

section \<open>Behaviours with a pure event handler\<close>

text \<open>
  What the properties ask of the user's behaviour: the event handler and the empty state do not
  depend on the actor's private state, and at least one snapshot is kept.
\<close>

definition lawful_behavior :: "('a, 's, 'e, 'c, 'x) es_behavior \<Rightarrow> ('s \<Rightarrow> 'e \<Rightarrow> 's) \<Rightarrow> 's \<Rightarrow> bool" where
  "lawful_behavior b f init \<longleftrightarrow> (\<forall>a s e. fst (b_apply_event b a s e) = f s e) \<and> (\<forall>a. b_empty_state b a = init)
     \<and> (\<forall>a. rc_keep_snapshots (b_retention_criteria b a) \<noteq> Some 0)"

lemma apply_records_lawful:
  assumes "lawful_behavior b f init"
  shows "\<exists>a'. apply_records b a s n rs
    = (foldl f s (map er_event rs), if rs = [] then n else er_sequence_nr (last rs), a')"
proof (induction rs arbitrary: a s n)
  case (Cons r rs)
  obtain s' a' where e: "b_apply_event b a s (er_event r) = (s', a')"
    by fastforce
  then have "s' = f s (er_event r)"
    using assms unfolding lawful_behavior_def by (metis fst_conv)
  with e Cons.IH [of a' s' "er_sequence_nr r"] show ?case
    by auto
qed simp

text \<open>Steps that touch only the actor, only the journal too, or only the snapshots too.\<close>

definition journal_step :: "('a, 'j, 'n, 's) es_runtime \<Rightarrow> ('a, 'j, 'n, 's) es_runtime \<Rightarrow> bool" where
  "journal_step rt rt' \<longleftrightarrow> rt_snapshots rt' = rt_snapshots rt \<and> rt_persistence_id rt' = rt_persistence_id rt
     \<and> rt_recovery_options rt' = rt_recovery_options rt \<and> rt_recovered rt' = rt_recovered rt"

definition snapshot_step :: "('a, 'j, 'n, 's) es_runtime \<Rightarrow> ('a, 'j, 'n, 's) es_runtime \<Rightarrow> bool" where
  "snapshot_step rt rt' \<longleftrightarrow> rt_journal rt' = rt_journal rt \<and> rt_persistence_id rt' = rt_persistence_id rt
     \<and> rt_recovery_options rt' = rt_recovery_options rt \<and> rt_recovered rt' = rt_recovered rt"

lemma signal_frame:
  assumes "signal b rt sig = (r, rt')"
  shows "journal_step rt rt'" "snapshot_step rt rt'"
  using assms by (auto simp: signal_def journal_step_def snapshot_step_def split: prod.splits)

text \<open>
  The history after an operation: the events were added exactly when the journal's highest number
  moved, whatever the operation answered.
\<close>

definition history_after ::
  "('j \<Rightarrow> persistence_id \<Rightarrow> sequence_nr) \<Rightarrow> ('a, 'j, 'n, 's) es_runtime \<Rightarrow> ('a, 'j, 'n, 's) es_runtime
     \<Rightarrow> 'e list \<Rightarrow> 'e list \<Rightarrow> 'e list"
where
  "history_after hi rt rt' new h =
     (if hi (rt_journal rt') (rt_persistence_id rt) = hi (rt_journal rt) (rt_persistence_id rt) then h else h @ new)"

section \<open>Runs with crashes\<close>

text \<open>The events of the effect that a command yields in the runtime's current state.\<close>

definition handled_events :: "('a, 's, 'e, 'c, 'x) es_behavior \<Rightarrow> 'c \<Rightarrow> ('a, 'j, 'n, 's) es_runtime \<Rightarrow> 'e list" where
  "handled_events b msg rt =
     (case rt_recovered rt of
        None \<Rightarrow> []
      | Some (s, n) \<Rightarrow>
          (case b_handle_command b (rt_actor rt) (rt_persistence_id rt) n s msg of
             (Inl e, a) \<Rightarrow> []
           | (Inr ef, a) \<Rightarrow> map te_event (ef_events ef)))"

text \<open>
  A run of one persistent actor, with the history of its persisted events. Commands are handled and
  answered with success or failure, the actor is started, restarted and stopped; it may crash
  between two commands, after the journal append of a command, or after its snapshot was written.
  A crash keeps the stores and loses everything else. \<open>2 ^ 64 - 1\<close> events exhaust the numbers.
\<close>

inductive es_run ::
  "('a, 's, 'e, 'c, 'x) es_behavior \<Rightarrow> ('j, 'e) journal_ops \<Rightarrow> ('n, 's) snapshot_ops
     \<Rightarrow> ('j \<Rightarrow> persistence_id \<Rightarrow> sequence_nr) \<Rightarrow> 'j \<Rightarrow> 'n \<Rightarrow> persistence_id
     \<Rightarrow> ('a, 'j, 'n, 's) es_runtime \<Rightarrow> 'e list \<Rightarrow> bool"
  for b J N hi j0 n0 pid
where
  es_fresh: "es_run b J N hi j0 n0 pid (es_runtime_new a j0 n0 pid recovery_options_new) []"
| es_start: "es_run b J N hi j0 n0 pid rt h \<Longrightarrow> es_started b J N rt = (r, rt') \<Longrightarrow> es_run b J N hi j0 n0 pid rt' h"
| es_restart: "es_run b J N hi j0 n0 pid rt h \<Longrightarrow> es_restarted b J N rt = (r, rt') \<Longrightarrow> es_run b J N hi j0 n0 pid rt' h"
| es_stop: "es_run b J N hi j0 n0 pid rt h \<Longrightarrow> es_stopped b rt = (r, rt') \<Longrightarrow> es_run b J N hi j0 n0 pid rt' h"
| es_command: "es_run b J N hi j0 n0 pid rt h \<Longrightarrow> es_handle b J N jclock sclock msg rt = (r', rt')
    \<Longrightarrow> length h + length (handled_events b msg rt) < 2 ^ 64 - 1
    \<Longrightarrow> es_run b J N hi j0 n0 pid rt' (history_after hi rt rt' (handled_events b msg rt) h)"
| es_crash: "es_run b J N hi j0 n0 pid rt h
    \<Longrightarrow> es_run b J N hi j0 n0 pid (es_runtime_new a (rt_journal rt) (rt_snapshots rt) pid recovery_options_new) h"
| es_crash_persisting: "es_run b J N hi j0 n0 pid rt h \<Longrightarrow> rt_recovered rt = Some (s, n)
    \<Longrightarrow> length h + length es < 2 ^ 64 - 1
    \<Longrightarrow> persist_events b J jclock es s n (rt\<lparr>rt_actor := a\<rparr>) = (q, rt')
    \<Longrightarrow> es_run b J N hi j0 n0 pid (es_runtime_new a' (rt_journal rt') (rt_snapshots rt') pid recovery_options_new)
          (history_after hi rt rt' (map te_event es) h)"
| es_crash_snapshotting: "es_run b J N hi j0 n0 pid rt h \<Longrightarrow> rt_recovered rt = Some (s, n)
    \<Longrightarrow> length h + length es < 2 ^ 64 - 1
    \<Longrightarrow> persist_events b J jclock es s n (rt\<lparr>rt_actor := a\<rparr>) = (Inr (s', n'), rt')
    \<Longrightarrow> save_snapshot_with_backoff b N sclock n' s' rt' = (p, rt'')
    \<Longrightarrow> es_run b J N hi j0 n0 pid (es_runtime_new a' (rt_journal rt'') (rt_snapshots rt'') pid recovery_options_new)
          (history_after hi rt rt' (map te_event es) h)"

section \<open>The runtime over stores that meet their contracts\<close>

definition es_inv ::
  "('j \<Rightarrow> persistence_id \<Rightarrow> sequence_nr) \<Rightarrow> ('j \<Rightarrow> persistence_id \<Rightarrow> 'e event_record list)
     \<Rightarrow> ('n \<Rightarrow> persistence_id \<Rightarrow> 's snapshot_record list) \<Rightarrow> ('n \<Rightarrow> bool) \<Rightarrow> ('s \<Rightarrow> 'e \<Rightarrow> 's) \<Rightarrow> 's
     \<Rightarrow> ('a, 'j, 'n, 's) es_runtime \<Rightarrow> 'e list \<Rightarrow> bool"
where
  "es_inv highest events snaps ok f init rt h \<longleftrightarrow> ok (rt_snapshots rt)
     \<and> durable_history f init (highest (rt_journal rt) (rt_persistence_id rt))
         (events (rt_journal rt) (rt_persistence_id rt)) (snaps (rt_snapshots rt) (rt_persistence_id rt)) h
     \<and> rt_recovery_options rt = recovery_options_new
     \<and> (\<forall>s n. rt_recovered rt = Some (s, n) \<longrightarrow> unat n \<le> length h \<and> s = foldl f init (take (unat n) h))"

locale es_stores = event_journal jops highest events + snapshot_store nops snaps ok
  for jops :: "('j, 'e) journal_ops" and highest events
    and nops :: "('n, 's) snapshot_ops" and snaps ok
begin

text \<open>An append that succeeded stored exactly the events, numbered from the expected number on.\<close>

definition appended ::
  "('a, 'j, 'n, 's) es_runtime \<Rightarrow> sequence_nr \<Rightarrow> 'e tagged_event list \<Rightarrow> 'e event_record list
     \<Rightarrow> ('a, 'j, 'n, 's) es_runtime \<Rightarrow> bool"
where
  "appended rt n es rs rt' \<longleftrightarrow> (let pid = rt_persistence_id rt in
     highest (rt_journal rt) pid = n \<and> map er_event rs = map te_event es
     \<and> map er_sequence_nr rs = map (\<lambda>i. n + of_nat (Suc i)) [0..<length es]
     \<and> highest (rt_journal rt') pid = n + of_nat (length es)
     \<and> events (rt_journal rt') pid = events (rt_journal rt) pid @ rs)"

definition same_journal :: "('a, 'j, 'n, 's) es_runtime \<Rightarrow> ('a, 'j, 'n, 's) es_runtime \<Rightarrow> bool" where
  "same_journal rt rt' \<longleftrightarrow> highest (rt_journal rt') = highest (rt_journal rt) \<and> events (rt_journal rt') = events (rt_journal rt)"

lemma append_attempts_result:
  assumes "append_attempts b jops clock left attempt n es rt = (r, rt')"
  shows "journal_step rt rt' \<and> (case r of Inl e \<Rightarrow> same_journal rt rt' | Inr rs \<Rightarrow> appended rt n es rs rt')"
  using assms
proof (induction left arbitrary: attempt rt)
  case 0
  obtain q j where app: "jo_append jops (rt_journal rt) (rt_persistence_id rt) n es (clock 0) = (q, j)"
    by fastforce
  show ?case
  proof (cases q)
    case (Inl e)
    obtain sr rt1 where sig: "signal b (rt\<lparr>rt_journal := j\<rparr>) (PersistFailed (rt_persistence_id rt) attempt e) = (sr, rt1)"
      by fastforce
    then have "rt' = rt1" "\<not> is_ok r"
      using "0" app Inl by (auto simp: append_attempts.simps [of _ _ _ 0] split: sum.splits)
    then show ?thesis
      using append_keeps [OF app [unfolded Inl]] signal_frame [OF sig]
      by (cases r) (auto simp: journal_step_def snapshot_step_def same_journal_def)
  next
    case (Inr rs)
    then show ?thesis
      using "0" app append_stores [OF app [unfolded Inr]]
      by (auto simp: append_attempts.simps [of _ _ _ 0] journal_step_def appended_def Let_def)
  qed
next
  case (Suc left)
  obtain q j where app: "jo_append jops (rt_journal rt) (rt_persistence_id rt) n es (clock (Suc left)) = (q, j)"
    by fastforce
  show ?case
  proof (cases q)
    case (Inr rs)
    then show ?thesis
      using Suc.prems app append_stores [OF app [unfolded Inr]]
      by (auto simp: append_attempts.simps [of _ _ _ "Suc left"] journal_step_def appended_def Let_def)
  next
    case (Inl e)
    obtain sr rt1 where sig: "signal b (rt\<lparr>rt_journal := j\<rparr>) (PersistFailed (rt_persistence_id rt) attempt e) = (sr, rt1)"
      by fastforce
    have keep: "journal_step rt rt1" "same_journal rt rt1"
      using append_keeps [OF app [unfolded Inl]] signal_frame [OF sig]
      by (auto simp: journal_step_def snapshot_step_def same_journal_def)
    show ?thesis
    proof (cases sr)
      case (Inl e')
      with Suc.prems app \<open>q = Inl e\<close> sig keep show ?thesis
        by (auto simp: append_attempts.simps [of _ _ _ "Suc left"])
    next
      case (Inr u)
      with Suc.prems app \<open>q = Inl e\<close> sig have "append_attempts b jops clock left (attempt + 1) n es rt1 = (r, rt')"
        by (simp add: append_attempts.simps [of _ _ _ "Suc left"])
      from Suc.IH [OF this] keep show ?thesis
        by (cases r) (auto simp: journal_step_def same_journal_def appended_def Let_def)
    qed
  qed
qed

text \<open>A snapshot that was saved, possibly before a failure was reported, is the given state at its number.\<close>

definition saved_or_same ::
  "('a, 'j, 'n, 's) es_runtime \<Rightarrow> sequence_nr \<Rightarrow> 's \<Rightarrow> ('a, 'j, 'n, 's) es_runtime \<Rightarrow> bool \<Rightarrow> bool"
where
  "saved_or_same rt n s rt' must \<longleftrightarrow> (let pid = rt_persistence_id rt in
     ok (rt_snapshots rt') \<and>
     (\<not> must \<and> snaps (rt_snapshots rt') pid = snaps (rt_snapshots rt) pid
      \<or> (\<exists>r. sn_snapshot r = s \<and> sn_sequence_nr r = n
           \<and> set (snaps (rt_snapshots rt') pid) = insert r {x \<in> set (snaps (rt_snapshots rt) pid). sn_sequence_nr x \<noteq> n})))"

lemma save_attempts_result:
  assumes "save_attempts b nops clock left attempt n s rt = (r, rt')" and "ok (rt_snapshots rt)"
  shows "snapshot_step rt rt' \<and> saved_or_same rt n s rt' (is_ok r)"
  using assms
proof (induction left arbitrary: attempt rt)
  case 0
  obtain q st where save: "sto_save nops (rt_snapshots rt) (rt_persistence_id rt) n s (clock 0) = (q, st)"
    by fastforce
  show ?case
  proof (cases q)
    case (Inl e)
    obtain sr rt1 where sig: "signal b (rt\<lparr>rt_snapshots := st\<rparr>) (SnapshotFailed (rt_persistence_id rt) attempt e) = (sr, rt1)"
      by fastforce
    then have "rt' = rt1" "\<not> is_ok r"
      using "0" save Inl by (auto simp: save_attempts.simps [of _ _ _ 0] split: sum.splits)
    then show ?thesis
      using save_keeps [OF "0"(2) save [unfolded Inl]] signal_frame [OF sig]
      by (auto simp: journal_step_def snapshot_step_def saved_or_same_def Let_def)
  next
    case (Inr x)
    then have sig: "signal b (rt\<lparr>rt_snapshots := st\<rparr>) (SnapshotSaved (rt_persistence_id rt) n) = (r, rt')"
      using "0" save by (simp add: save_attempts.simps [of _ _ _ 0])
    show ?thesis
      using save_stores [OF "0"(2) save [unfolded Inr]] signal_frame [OF sig]
      by (auto simp: journal_step_def snapshot_step_def saved_or_same_def Let_def)
  qed
next
  case (Suc left)
  obtain q st where save: "sto_save nops (rt_snapshots rt) (rt_persistence_id rt) n s (clock (Suc left)) = (q, st)"
    by fastforce
  show ?case
  proof (cases q)
    case (Inr x)
    then have sig: "signal b (rt\<lparr>rt_snapshots := st\<rparr>) (SnapshotSaved (rt_persistence_id rt) n) = (r, rt')"
      using Suc.prems save by (simp add: save_attempts.simps [of _ _ _ "Suc left"])
    show ?thesis
      using save_stores [OF Suc.prems(2) save [unfolded Inr]] signal_frame [OF sig]
      by (auto simp: journal_step_def snapshot_step_def saved_or_same_def Let_def)
  next
    case (Inl e)
    obtain sr rt1 where sig: "signal b (rt\<lparr>rt_snapshots := st\<rparr>) (SnapshotFailed (rt_persistence_id rt) attempt e) = (sr, rt1)"
      by fastforce
    have keep: "snapshot_step rt rt1" "ok (rt_snapshots rt1)" "snaps (rt_snapshots rt1) = snaps (rt_snapshots rt)"
      using save_keeps [OF Suc.prems(2) save [unfolded Inl]] signal_frame [OF sig]
      by (auto simp: journal_step_def snapshot_step_def)
    show ?thesis
    proof (cases sr)
      case (Inl e')
      with Suc.prems save \<open>q = Inl e\<close> sig keep show ?thesis
        by (auto simp: save_attempts.simps [of _ _ _ "Suc left"] saved_or_same_def Let_def)
    next
      case (Inr u)
      with Suc.prems save \<open>q = Inl e\<close> sig have "save_attempts b nops clock left (attempt + 1) n s rt1 = (r, rt')"
        by (simp add: save_attempts.simps [of _ _ _ "Suc left"])
      from Suc.IH [OF this keep(2)] keep show ?thesis
        by (auto simp: snapshot_step_def saved_or_same_def Let_def)
    qed
  qed
qed

lemma delete_snapshots_result:
  assumes "delete_snapshots nops pid ms st = (r, st')" and "ok st"
  shows "ok st' \<and> set (snaps st' pid) \<subseteq> set (snaps st pid)
    \<and> (\<forall>x \<in> set (snaps st pid). sn_sequence_nr x \<notin> sm_sequence_nr ` set ms \<longrightarrow> x \<in> set (snaps st' pid))"
  using assms
proof (induction ms arbitrary: st)
  case (Cons m ms)
  obtain q st1 where del: "sto_delete nops st pid (selection_between (sm_sequence_nr m) (sm_sequence_nr m)) = (q, st1)"
    by fastforce
  show ?case
  proof (cases q)
    case (Inl e)
    then show ?thesis
      using Cons.prems del delete_keeps [OF Cons.prems(2) del [unfolded Inl]] by auto
  next
    case (Inr c)
    then have rest: "delete_snapshots nops pid ms st1 = (r, st')"
      using Cons.prems(1) del by simp
    note d = delete_drops [OF Cons.prems(2) del [unfolded Inr]]
    from Cons.IH [OF rest] d show ?thesis
      by auto
  qed
qed simp

lemma prune_snapshots_result:
  assumes "prune_snapshots nops rc pid st = (r, st')" and "ok st" and "rc_keep_snapshots rc \<noteq> Some 0"
  shows "ok st' \<and> set (snaps st' pid) \<subseteq> set (snaps st pid)
    \<and> (\<forall>x \<in> set (snaps st pid). \<exists>y \<in> set (snaps st' pid). sn_sequence_nr x \<le> sn_sequence_nr y)"
proof (cases "rc_keep_snapshots rc")
  case None
  then show ?thesis using assms by (auto simp: prune_snapshots_def)
next
  case (Some keep)
  show ?thesis
  proof (cases "sto_list nops st pid selection_latest")
    case (Inl e)
    then show ?thesis using Some assms by (auto simp: prune_snapshots_def)
  next
    case (Inr ms)
    then have ms: "ms = map sn_metadata (snaps st pid)"
      using list_selects [OF assms(2) Inr] by simp
    have del: "delete_snapshots nops pid (drop keep ms) st = (r, st')"
      using assms(1) Some Inr by (simp add: prune_snapshots_def)
    note res = delete_snapshots_result [OF del assms(2)]
    show ?thesis
    proof (cases "snaps st pid")
      case Nil
      with res show ?thesis by simp
    next
      case (Cons x xs)
      have less: "\<forall>y \<in> set xs. sn_sequence_nr y < sn_sequence_nr x"
        using newest_first [OF assms(2), of pid] Cons by simp
      have "set (drop keep ms) \<subseteq> sn_metadata ` set xs"
        using Some assms(3) set_drop_subset [of "keep - 1" "map sn_metadata xs"]
        by (cases keep) (auto simp: ms Cons)
      then have "sn_sequence_nr x \<notin> sm_sequence_nr ` set (drop keep ms)"
        using less by fastforce
      then have "x \<in> set (snaps st' pid)"
        using res Cons by simp
      moreover have "\<forall>y \<in> set (snaps st pid). sn_sequence_nr y \<le> sn_sequence_nr x"
        using less Cons by auto
      ultimately show ?thesis
        using res by blast
    qed
  qed
qed

definition stores_inv :: "('s \<Rightarrow> 'e \<Rightarrow> 's) \<Rightarrow> 's \<Rightarrow> ('a, 'j, 'n, 's) es_runtime \<Rightarrow> 'e list \<Rightarrow> bool" where
  "stores_inv f init rt h \<longleftrightarrow> ok (rt_snapshots rt)
     \<and> durable_history f init (highest (rt_journal rt) (rt_persistence_id rt))
         (events (rt_journal rt) (rt_persistence_id rt)) (snaps (rt_snapshots rt) (rt_persistence_id rt)) h"

lemma save_keeps_history:
  assumes inv: "stores_inv f init rt h" and state: "unat n \<le> length h" "s = foldl f init (take (unat n) h)"
    and res: "snapshot_step rt rt'" "saved_or_same rt n s rt' must"
  shows "stores_inv f init rt' h \<and> (must \<longrightarrow> snaps (rt_snapshots rt') (rt_persistence_id rt) \<noteq> [])"
proof (cases "snaps (rt_snapshots rt') (rt_persistence_id rt) = snaps (rt_snapshots rt) (rt_persistence_id rt) \<and> \<not> must")
  case True
  then show ?thesis
    using inv res by (auto simp: stores_inv_def snapshot_step_def saved_or_same_def Let_def)
next
  case False
  let ?sn = "snaps (rt_snapshots rt) (rt_persistence_id rt)" and ?sn' = "snaps (rt_snapshots rt') (rt_persistence_id rt)"
  obtain r where r: "sn_snapshot r = s" "sn_sequence_nr r = n"
    and eq: "set ?sn' = insert r {x \<in> set ?sn. sn_sequence_nr x \<noteq> n}" and "ok (rt_snapshots rt')"
    using False res(2) unfolding saved_or_same_def Let_def by blast
  have "durable_history f init (highest (rt_journal rt) (rt_persistence_id rt))
      (events (rt_journal rt) (rt_persistence_id rt)) ?sn' h"
  proof (rule durable_history_snapshots)
    show "durable_history f init (highest (rt_journal rt) (rt_persistence_id rt))
        (events (rt_journal rt) (rt_persistence_id rt)) ?sn h"
      using inv by (simp add: stores_inv_def)
    show "\<forall>x \<in> set ?sn'. x \<in> set ?sn \<or> unat (sn_sequence_nr x) \<le> length h
        \<and> sn_snapshot x = foldl f init (take (unat (sn_sequence_nr x)) h)"
      using eq r state by auto
    show "\<forall>x \<in> set ?sn. \<exists>y \<in> set ?sn'. sn_sequence_nr x \<le> sn_sequence_nr y"
    proof
      fix x assume "x \<in> set ?sn"
      then show "\<exists>y \<in> set ?sn'. sn_sequence_nr x \<le> sn_sequence_nr y"
        using eq r by (cases "sn_sequence_nr x = n") (auto intro: bexI [of _ x])
    qed
  qed
  with \<open>ok (rt_snapshots rt')\<close> res(1) eq show ?thesis
    by (auto simp: stores_inv_def snapshot_step_def)
qed

lemma retention_keeps_history:
  assumes law: "lawful_behavior b f init" and inv: "stores_inv f init rt h"
    and some: "snaps (rt_snapshots rt) (rt_persistence_id rt) \<noteq> []"
    and run: "apply_retention b jops nops latest rt = (r, rt')"
  shows "stores_inv f init rt' h \<and> rt_persistence_id rt' = rt_persistence_id rt
    \<and> rt_recovery_options rt' = rt_recovery_options rt \<and> rt_recovered rt' = rt_recovered rt"
proof -
  define rc pid where "rc = b_retention_criteria b (rt_actor rt)" and "pid = rt_persistence_id rt"
  have keep: "rc_keep_snapshots rc \<noteq> Some 0"
    using law by (simp add: rc_def lawful_behavior_def)
  have okn: "ok (rt_snapshots rt)"
    using inv by (simp add: stores_inv_def)
  obtain q st where pr: "prune_snapshots nops rc pid (rt_snapshots rt) = (q, st)"
    by fastforce
  note pruned = prune_snapshots_result [OF pr okn keep]
  define rt1 where "rt1 = rt\<lparr>rt_snapshots := st\<rparr>"
  have D: "durable_history f init (highest (rt_journal rt) pid) (events (rt_journal rt) pid) (snaps st pid) h"
  proof (rule durable_history_snapshots)
    show "durable_history f init (highest (rt_journal rt) pid) (events (rt_journal rt) pid) (snaps (rt_snapshots rt) pid) h"
      using inv by (simp add: stores_inv_def pid_def)
  qed (use pruned in blast)+
  then have inv1: "stores_inv f init rt1 h"
    using pruned by (simp add: stores_inv_def rt1_def pid_def)
  show ?thesis
  proof (cases "is_ok q \<and> rc_delete_events_on_snapshot rc \<and> is_ok (sto_list nops st pid selection_latest)")
    case False
    then have "rt' = rt1"
      using run pr keep unfolding apply_retention_def rc_def [symmetric] pid_def [symmetric] rt1_def Let_def
      by (cases q; cases "sto_list nops st pid selection_latest") (simp_all split: if_splits)
    with inv1 show ?thesis
      by (simp add: rt1_def)
  next
    case True
    then obtain u ms where q: "q = Inr u" and list: "sto_list nops st pid selection_latest = Inr ms"
      by (cases q; cases "sto_list nops st pid selection_latest") auto
    have ms: "ms = map sn_metadata (snaps st pid)"
      using list_selects [OF _ list] pruned by simp
    have ne: "snaps st pid \<noteq> []"
      using some pruned unfolding pid_def by (metis empty_iff last_in_set list.set(1))
    obtain dr j where del: "jo_delete_to jops (rt_journal rt) pid (sn_sequence_nr (last (snaps st pid))) = (dr, j)"
      by fastforce
    have rt': "rt' = rt1\<lparr>rt_journal := j\<rparr>"
      using run pr keep True q list del ne
      unfolding apply_retention_def rc_def [symmetric] pid_def [symmetric] rt1_def Let_def
      by (simp add: ms last_map)
    have "durable_history f init (highest j pid) (events j pid) (snaps st pid) h"
    proof (cases dr)
      case (Inl e)
      with D delete_to_keeps [OF del [unfolded Inl]] show ?thesis
        by simp
    next
      case (Inr v)
      with delete_to_drops [of "rt_journal rt" pid _ j] del durable_history_delete [OF D last_in_set [OF ne]]
      show ?thesis
        by simp
    qed
    then show ?thesis
      using inv1 by (simp add: stores_inv_def rt' rt1_def pid_def)
  qed
qed

definition prefix_state :: "('s \<Rightarrow> 'e \<Rightarrow> 's) \<Rightarrow> 's \<Rightarrow> 'e list \<Rightarrow> 's \<Rightarrow> sequence_nr \<Rightarrow> bool" where
  "prefix_state f init h s n \<longleftrightarrow> unat n \<le> length h \<and> s = foldl f init (take (unat n) h)"

definition same_identity :: "('a, 'j, 'n, 's) es_runtime \<Rightarrow> ('a, 'j, 'n, 's) es_runtime \<Rightarrow> bool" where
  "same_identity rt rt' \<longleftrightarrow> rt_persistence_id rt' = rt_persistence_id rt
     \<and> rt_recovery_options rt' = rt_recovery_options rt \<and> rt_recovered rt' = rt_recovered rt"

lemma stores_inv_cong:
  "same_journal rt rt' \<Longrightarrow> rt_snapshots rt' = rt_snapshots rt \<Longrightarrow> rt_persistence_id rt' = rt_persistence_id rt
     \<Longrightarrow> stores_inv f init rt' h = stores_inv f init rt h"
  by (simp add: stores_inv_def same_journal_def)

lemma appended_history:
  assumes inv: "stores_inv f init rt h" and app: "appended rt n es rs rt'" "journal_step rt rt'"
    and short: "length h + length es < 2 ^ 64 - 1" and some: "es \<noteq> []"
  shows "stores_inv f init rt' (h @ map te_event es)" and "history_after highest rt rt' (map te_event es) h = h @ map te_event es"
    and "n = of_nat (length h)" and "rs \<noteq> []" and "er_sequence_nr (last rs) = of_nat (length h + length es)"
    and "map er_event rs = map te_event es"
proof -
  let ?pid = "rt_persistence_id rt"
  have a: "highest (rt_journal rt) ?pid = n" "map er_event rs = map te_event es"
    "map er_sequence_nr rs = map (\<lambda>i. n + of_nat (Suc i)) [0..<length es]"
    "highest (rt_journal rt') ?pid = n + of_nat (length es)"
    "events (rt_journal rt') ?pid = events (rt_journal rt) ?pid @ rs"
    using app(1) by (simp_all add: appended_def Let_def)
  have D: "durable_history f init n (events (rt_journal rt) ?pid) (snaps (rt_snapshots rt) ?pid) h"
    using inv a(1) by (simp add: stores_inv_def)
  show n: "n = of_nat (length h)"
    using D by (simp add: durable_history_def)
  have "(of_nat (length es) :: u64) \<noteq> 0"
    using short some unat_of_nat_u64 [of "length es"] by auto
  then show "history_after highest rt rt' (map te_event es) h = h @ map te_event es"
    using a(1,4) by (simp add: history_after_def)
  show "stores_inv f init rt' (h @ map te_event es)"
    using durable_history_append [OF D short a(2,3)] a app(2) inv by (simp add: stores_inv_def journal_step_def)
  show "map er_event rs = map te_event es"
    by (rule a(2))
  with some show "rs \<noteq> []"
    by auto
  then have "er_sequence_nr (last rs) = last (map er_sequence_nr rs)"
    by (simp add: last_map)
  also have "\<dots> = n + of_nat (length es)"
    unfolding a(3) using some by (cases es) (simp_all del: of_nat_Suc)
  finally show "er_sequence_nr (last rs) = of_nat (length h + length es)"
    by (simp add: n)
qed

lemma persist_events_result:
  assumes law: "lawful_behavior b f init" and inv: "stores_inv f init rt h" and pre: "prefix_state f init h s n"
    and short: "length h + length es < 2 ^ 64 - 1"
    and run: "persist_events b jops clock es s n rt = (r, rt')"
  defines "h' \<equiv> history_after highest rt rt' (map te_event es) h"
  shows "same_identity rt rt' \<and> stores_inv f init rt' h'
    \<and> (\<forall>s' n'. r = Inr (s', n') \<longrightarrow> prefix_state f init h' s' n'
         \<and> h' = h @ map te_event es \<and> (es = [] \<or> unat n' = length h'))"
proof (cases "es = []")
  case True
  then have "rt' = rt" "r = Inr (s, n)" "h' = h"
    using run by (auto simp: persist_events_def h'_def history_after_def)
  with inv pre True show ?thesis
    by (simp add: same_identity_def)
next
  case False
  obtain q rt1 where app: "append_with_backoff b jops clock n es rt = (q, rt1)"
    by fastforce
  note res = append_attempts_result [OF app [unfolded append_with_backoff_def]]
  show ?thesis
  proof (cases q)
    case (Inl e)
    then have "rt' = rt1" "r = Inl e"
      using run False app by (auto simp: persist_events_def)
    moreover have "h' = h"
      using res Inl calculation by (simp add: h'_def history_after_def same_journal_def)
    ultimately show ?thesis
      using res Inl inv stores_inv_cong [of rt rt1] by (simp add: same_identity_def journal_step_def)
  next
    case (Inr rs)
    then have A: "appended rt n es rs rt1" and J: "journal_step rt rt1"
      using res by simp_all
    note ah = appended_history [OF inv A J short False]
    obtain a' where "apply_records b (rt_actor rt1) s n rs
        = (foldl f s (map er_event rs), if rs = [] then n else er_sequence_nr (last rs), a')"
      using apply_records_lawful [OF law] by blast
    then have recs: "apply_records b (rt_actor rt1) s n rs
        = (foldl f s (map te_event es), of_nat (length h + length es), a')"
      by (simp only: ah(4-6) if_False)
    obtain sr rt2 where sig: "signal b (rt1\<lparr>rt_actor := a'\<rparr>)
        (EventsPersisted (rt_persistence_id rt1) (case rs of [] \<Rightarrow> sequence_next n | r # _ \<Rightarrow> er_sequence_nr r)
          (of_nat (length h + length es))) = (sr, rt2)"
      by fastforce
    have out: "(r, rt') = (case sr of Inl e \<Rightarrow> (Inl e, rt2)
        | Inr _ \<Rightarrow> (Inr (foldl f s (map te_event es), of_nat (length h + length es)), rt2))"
      using run False app Inr recs sig by (simp only: persist_events_def Let_def prod.case sum.case if_False)
    then have rt': "rt' = rt2"
      by (simp split: sum.splits)
    have r: "\<forall>s' n'. r = Inr (s', n') \<longrightarrow> s' = foldl f s (map te_event es) \<and> n' = of_nat (length h + length es)"
      using out by (simp split: sum.splits)
    have J2: "rt_journal rt' = rt_journal rt1" "rt_snapshots rt' = rt_snapshots rt1"
      "rt_persistence_id rt' = rt_persistence_id rt1" "same_identity rt rt'"
      using signal_frame [OF sig] J by (simp_all add: journal_step_def snapshot_step_def same_identity_def rt')
    have h': "h' = h @ map te_event es"
      using ah(2) J2 by (simp add: h'_def history_after_def)
    have "stores_inv f init rt' h'"
      using ah(1) h' stores_inv_cong [of rt1 rt'] J2 by (simp add: same_journal_def)
    moreover have "s = foldl f init h"
      using pre ah(3) short by (simp add: prefix_state_def unat_of_nat_u64)
    moreover have "unat (of_nat (length h + length es) :: u64) = length h'"
      unfolding h' length_append length_map by (rule unat_of_nat_u64) (use short in simp)
    moreover have "prefix_state f init h' (foldl f init h') (of_nat (length h + length es))"
      using calculation(3) by (simp add: prefix_state_def del: of_nat_add)
    ultimately show ?thesis
      using J2(4) r h' by auto
  qed
qed

lemma snapshot_if_due_result:
  assumes law: "lawful_behavior b f init" and inv: "stores_inv f init rt h" and pre: "prefix_state f init h s n"
    and run: "snapshot_if_due b jops nops clock due s n rt = (r, rt')"
  shows "same_identity rt rt' \<and> stores_inv f init rt' h"
proof (cases due)
  case False
  with run inv show ?thesis
    by (simp add: snapshot_if_due_def same_identity_def)
next
  case True
  obtain q rt1 where save: "save_snapshot_with_backoff b nops clock n s rt = (q, rt1)"
    by fastforce
  have "ok (rt_snapshots rt)"
    using inv by (simp add: stores_inv_def)
  then have res: "snapshot_step rt rt1" "saved_or_same rt n s rt1 (is_ok q)"
    using save_attempts_result [OF save [unfolded save_snapshot_with_backoff_def]] by simp_all
  have inv1: "stores_inv f init rt1 h" "is_ok q \<longrightarrow> snaps (rt_snapshots rt1) (rt_persistence_id rt) \<noteq> []"
    using save_keeps_history [OF inv _ _ res] pre by (simp_all add: prefix_state_def)
  have same: "same_identity rt rt1"
    using res(1) by (simp add: same_identity_def snapshot_step_def)
  show ?thesis
  proof (cases q)
    case (Inl e)
    with run save True have "rt' = rt1"
      by (simp add: snapshot_if_due_def)
    with inv1 same show ?thesis
      by simp
  next
    case (Inr u)
    with run save True have ret: "apply_retention b jops nops n rt1 = (r, rt')"
      by (simp add: snapshot_if_due_def)
    have "snaps (rt_snapshots rt1) (rt_persistence_id rt1) \<noteq> []"
      using inv1(2) Inr same by (simp add: same_identity_def)
    from retention_keeps_history [OF law inv1(1) this ret] same show ?thesis
      by (simp add: same_identity_def)
  qed
qed

lemma es_inv_stores:
  "es_inv highest events snaps ok f init rt h \<longleftrightarrow> stores_inv f init rt h \<and> rt_recovery_options rt = recovery_options_new
     \<and> (\<forall>s n. rt_recovered rt = Some (s, n) \<longrightarrow> prefix_state f init h s n)"
  by (auto simp: es_inv_def stores_inv_def prefix_state_def)

lemma prefix_state_extend: "prefix_state f init h s n \<Longrightarrow> prefix_state f init (h @ t) s n"
  by (simp add: prefix_state_def)

lemma apply_effect_result:
  assumes law: "lawful_behavior b f init" and inv: "es_inv highest events snaps ok f init rt h"
    and short: "length h + length (ef_events ef) < 2 ^ 64 - 1"
    and run: "apply_effect b jops nops jclock sclock ef rt = (r, rt')"
  defines "h' \<equiv> history_after highest rt rt' (map te_event (ef_events ef)) h"
  shows "rt_persistence_id rt' = rt_persistence_id rt \<and> es_inv highest events snaps ok f init rt' h'
    \<and> (is_ok r \<longrightarrow> h' = h @ map te_event (ef_events ef)
         \<and> (ef_events ef = [] \<or> rt_recovered rt' = Some (foldl f init h', of_nat (length h'))))"
proof (cases "rt_recovered rt")
  case None
  then have "rt' = rt" "\<not> is_ok r" "h' = h"
    using run by (auto simp: apply_effect_def h'_def history_after_def)
  with inv show ?thesis
    by simp
next
  case (Some sn)
  obtain s n where sn: "sn = (s, n)"
    by fastforce
  have pre: "prefix_state f init h s n" and sinv: "stores_inv f init rt h"
    using inv Some sn by (simp_all add: es_inv_stores)
  obtain q rt1 where per: "persist_events b jops jclock (ef_events ef) s n rt = (q, rt1)"
    by fastforce
  define h1 where "h1 = history_after highest rt rt1 (map te_event (ef_events ef)) h"
  note res = persist_events_result [OF law sinv pre short per, folded h1_def]
  have inv1: "es_inv highest events snaps ok f init rt1 h1"
    using res inv prefix_state_extend [of f init h]
    by (auto simp: es_inv_stores same_identity_def h1_def history_after_def)
  show ?thesis
  proof (cases q)
    case (Inl e)
    then have "rt' = rt1" "\<not> is_ok r"
      using run Some sn per by (auto simp: apply_effect_def)
    with res inv1 show ?thesis
      by (simp add: h'_def h1_def same_identity_def)
  next
    case (Inr sn')
    obtain s' n' where sn': "sn' = (s', n')"
      by fastforce
    have R: "prefix_state f init h1 s' n'" "h1 = h @ map te_event (ef_events ef)"
      "ef_events ef = [] \<or> unat n' = length h1" "stores_inv f init rt1 h1" "same_identity rt rt1"
      using res Inr sn' by auto
    define due where "due = (ef_snapshot ef \<or> ef_events ef \<noteq> []
      \<and> should_snapshot (b_retention_criteria b (rt_actor rt1)) n')"
    obtain q2 rt2 where snap: "snapshot_if_due b jops nops sclock due s' n' rt1 = (q2, rt2)"
      by fastforce
    note res2 = snapshot_if_due_result [OF law R(4,1) snap]
    have "highest (rt_journal rt2) (rt_persistence_id rt) = highest (rt_journal rt1) (rt_persistence_id rt)"
      using res2 R(4,5) by (auto simp: stores_inv_def same_identity_def durable_history_def)
    then have h2: "history_after highest rt rt2 (map te_event (ef_events ef)) h = h1"
      by (simp add: h1_def history_after_def)
    show ?thesis
    proof (cases q2)
      case (Inl e)
      then have "rt' = rt2" "\<not> is_ok r"
        using run Some sn per Inr sn' snap by (auto simp: apply_effect_def Let_def due_def)
      with res2 R(5) inv1 h2 show ?thesis
        by (simp add: h'_def es_inv_stores same_identity_def)
    next
      case (Inr u)
      then have rt': "rt' = rt2\<lparr>rt_recovered := Some (s', n')\<rparr>"
        using run Some sn per \<open>q = Inr sn'\<close> sn' snap by (auto simp: apply_effect_def Let_def due_def)
      then have h': "h' = h1"
        using h2 by (simp add: h'_def history_after_def)
      have last: "ef_events ef = [] \<or> s' = foldl f init h1 \<and> n' = of_nat (length h1)"
        using R(1,3) by (auto simp: prefix_state_def intro: unat_eq_u64)
      have "es_inv highest events snaps ok f init rt' h1"
        using res2 R(1,5) inv1 unfolding rt' by (auto simp: es_inv_stores stores_inv_def same_identity_def)
      with last R(2,5) res2 h' show ?thesis
        by (auto simp: rt' same_identity_def)
    qed
  qed
qed

lemma recover_result:
  assumes law: "lawful_behavior b f init" and inv: "es_inv highest events snaps ok f init rt h"
    and run: "recover b jops nops rt = (r, rt')"
  shows "rt_persistence_id rt' = rt_persistence_id rt \<and> es_inv highest events snaps ok f init rt' h
    \<and> (is_ok r \<longrightarrow> rt_recovered rt' = Some (foldl f init h, of_nat (length h)))"
proof -
  obtain sr rt1 where sig: "signal b rt (RecoveryStarted (rt_persistence_id rt)) = (sr, rt1)"
    by fastforce
  have frame: "rt_journal rt1 = rt_journal rt" "rt_snapshots rt1 = rt_snapshots rt"
    "rt_persistence_id rt1 = rt_persistence_id rt" "rt_recovered rt1 = rt_recovered rt"
    "rt_recovery_options rt1 = recovery_options_new"
    using signal_frame [OF sig] inv by (simp_all add: journal_step_def snapshot_step_def es_inv_def)
  have inv1: "es_inv highest events snaps ok f init rt1 h"
    using inv frame by (simp add: es_inv_def)
  have okn: "ok (rt_snapshots rt1)" and D: "durable_history f init (highest (rt_journal rt1) (rt_persistence_id rt1))
      (events (rt_journal rt1) (rt_persistence_id rt1)) (snaps (rt_snapshots rt1) (rt_persistence_id rt1)) h"
    using inv1 by (simp_all add: es_inv_def)
  show ?thesis
  proof (cases "rt' = rt1 \<and> \<not> is_ok r")
    case True
    with inv1 frame show ?thesis by simp
  next
    case False
    obtain u where sr: "sr = Inr u"
      using False run sig by (cases sr) (auto simp: recover_def)
    obtain snapshot where load: "sto_load nops (rt_snapshots rt1) (rt_persistence_id rt1) selection_latest = Inr snapshot"
      using False run sig sr frame(5)
      by (cases "sto_load nops (rt_snapshots rt1) (rt_persistence_id rt1) selection_latest")
        (auto simp: recover_def recovery_options_new_def)
    obtain s n where base: "(case snapshot of Some x \<Rightarrow> (sn_snapshot x, sn_sequence_nr x)
        | None \<Rightarrow> (b_empty_state b (rt_actor rt1), 0)) = (s, n)"
      by fastforce
    have "snapshot_base init (snaps (rt_snapshots rt1) (rt_persistence_id rt1)) = (s, n)"
      using base load_selects [OF okn load] law
      by (cases "snaps (rt_snapshots rt1) (rt_persistence_id rt1)") (simp_all add: snapshot_base_def lawful_behavior_def)
    note replay = durable_history_replay [OF D newest_first [OF okn] this]
    have lo: "replay_from_after_snapshot n recovery_options_new = n + 1"
      using replay(3) u64_not_above_one [of "n + 1"]
      by (auto simp: replay_from_after_snapshot_def sequence_next_def recovery_options_new_def Let_def)
    obtain q where jr: "jo_replay jops (rt_journal rt1) (rt_persistence_id rt1) (n + 1) (- 1) = q"
      by simp
    have step: "(r, rt') = (case q of Inl e \<Rightarrow> (Inl e, rt1)
        | Inr replayed \<Rightarrow> (case apply_records b (rt_actor rt1) s n replayed of (s', n', a') \<Rightarrow>
            signal b (rt1\<lparr>rt_actor := a', rt_recovered := Some (s', n')\<rparr>) (RecoveryCompleted (rt_persistence_id rt1) n')))"
      using run sig sr load base lo jr frame(5)
      by (cases q) (simp_all add: recover_def recovery_options_new_def [THEN arg_cong, of ro_snapshot_selection]
        recovery_options_new_def [THEN arg_cong, of ro_replay_to] Let_def)
    obtain replayed where q: "q = Inr replayed"
      using False step by (cases q) auto
    have sel: "replayed = filter (\<lambda>r. n + 1 \<le> er_sequence_nr r \<and> er_sequence_nr r \<le> - 1)
        (events (rt_journal rt1) (rt_persistence_id rt1))"
      using replay_selects jr q by blast
    obtain a' where "apply_records b (rt_actor rt1) s n replayed
        = (foldl f s (map er_event replayed), if replayed = [] then n else er_sequence_nr (last replayed), a')"
      using apply_records_lawful [OF law] by blast
    then have recs: "apply_records b (rt_actor rt1) s n replayed = (foldl f init h, of_nat (length h), a')"
      using replay(1,2) unfolding sel by simp
    have fin: "signal b (rt1\<lparr>rt_actor := a', rt_recovered := Some (foldl f init h, of_nat (length h))\<rparr>)
        (RecoveryCompleted (rt_persistence_id rt1) (of_nat (length h))) = (r, rt')"
      using step q recs by simp
    have short: "unat (of_nat (length h) :: u64) = length h"
      by (rule unat_of_nat_u64) (use D in \<open>simp add: durable_history_def\<close>)
    have "rt_recovered rt' = Some (foldl f init h, of_nat (length h))"
      "rt_persistence_id rt' = rt_persistence_id rt" "es_inv highest events snaps ok f init rt' h"
      using signal_frame [OF fin] frame inv1 short
      by (simp_all add: journal_step_def snapshot_step_def es_inv_def)
    then show ?thesis
      by simp
  qed
qed

lemma es_inv_actor: "es_inv highest events snaps ok f init (rt\<lparr>rt_actor := a\<rparr>) h = es_inv highest events snaps ok f init rt h"
  by (simp add: es_inv_def)

lemma signal_inv:
  assumes "signal b rt sig = (r, rt')" and "es_inv highest events snaps ok f init rt h"
  shows "es_inv highest events snaps ok f init rt' h \<and> rt_persistence_id rt' = rt_persistence_id rt"
  using signal_frame [OF assms(1)] assms(2) by (simp add: journal_step_def snapshot_step_def es_inv_def)

lemma started_result:
  assumes "lawful_behavior b f init" and "es_inv highest events snaps ok f init rt h"
    and "es_started b jops nops rt = (r, rt')"
  shows "es_inv highest events snaps ok f init rt' h \<and> rt_persistence_id rt' = rt_persistence_id rt"
proof -
  obtain q rt1 where rec: "recover b jops nops rt = (q, rt1)"
    by fastforce
  with assms(3) have "rt' = rt1"
    by (auto simp: es_started_def split: sum.splits)
  with recover_result [OF assms(1,2) rec] show ?thesis
    by simp
qed

lemma restarted_result:
  assumes "lawful_behavior b f init" and "es_inv highest events snaps ok f init rt h"
    and "es_restarted b jops nops rt = (r, rt')"
  shows "es_inv highest events snaps ok f init rt' h \<and> rt_persistence_id rt' = rt_persistence_id rt"
proof -
  obtain q rt1 where sig: "signal b rt (PreRestart (rt_persistence_id rt)) = (q, rt1)"
    by fastforce
  note inv1 = signal_inv [OF sig assms(2)]
  show ?thesis
  proof (cases q)
    case (Inl e)
    with assms(3) sig inv1 show ?thesis by (simp add: es_restarted_def)
  next
    case (Inr u)
    with assms(3) sig have "es_started b jops nops rt1 = (r, rt')" by (simp add: es_restarted_def)
    with started_result [OF assms(1)] inv1 show ?thesis by metis
  qed
qed

lemma handle_result:
  assumes law: "lawful_behavior b f init" and inv: "es_inv highest events snaps ok f init rt h"
    and run: "es_handle b jops nops jclock sclock msg rt = (r, rt')"
    and short: "length h + length (handled_events b msg rt) < 2 ^ 64 - 1"
  defines "h' \<equiv> history_after highest rt rt' (handled_events b msg rt) h"
  shows "rt_persistence_id rt' = rt_persistence_id rt \<and> es_inv highest events snaps ok f init rt' h'
    \<and> (is_ok r \<longrightarrow> h' = h @ handled_events b msg rt)"
proof (cases "\<exists>s n ef a. rt_recovered rt = Some (s, n)
    \<and> b_handle_command b (rt_actor rt) (rt_persistence_id rt) n s msg = (Inr ef, a)")
  case False
  have "\<exists>a. rt' = rt\<lparr>rt_actor := a\<rparr>" and "\<not> is_ok r"
    using False run by (auto simp: es_handle_def split: option.splits prod.splits sum.splits intro: exI [of _ "rt_actor rt"])
  then show ?thesis
    using inv by (auto simp: h'_def history_after_def es_inv_actor)
next
  case True
  then obtain s n ef a where rec: "rt_recovered rt = Some (s, n)"
    and cmd: "b_handle_command b (rt_actor rt) (rt_persistence_id rt) n s msg = (Inr ef, a)"
    by blast
  have ev: "handled_events b msg rt = map te_event (ef_events ef)"
    using rec cmd by (simp add: handled_events_def)
  have eff: "apply_effect b jops nops jclock sclock ef (rt\<lparr>rt_actor := a\<rparr>) = (r, rt')"
    using run rec cmd by (simp add: es_handle_def)
  have "history_after highest (rt\<lparr>rt_actor := a\<rparr>) rt' (map te_event (ef_events ef)) h = h'"
    by (simp add: h'_def history_after_def ev)
  with apply_effect_result [OF law _ _ eff, of h] inv short show ?thesis
    by (simp add: es_inv_actor ev)
qed

lemma inv_after_crash:
  "stores_inv f init rt h \<Longrightarrow> es_inv highest events snaps ok f init
     (es_runtime_new a (rt_journal rt) (rt_snapshots rt) (rt_persistence_id rt) recovery_options_new) h"
  by (simp add: es_inv_def stores_inv_def es_runtime_new_def)

lemma es_run_inv:
  assumes law: "lawful_behavior b f init" and start: "ok n0" "highest j0 pid = 0" "events j0 pid = []" "snaps n0 pid = []"
    and run: "es_run b jops nops highest j0 n0 pid rt h"
  shows "es_inv highest events snaps ok f init rt h \<and> rt_persistence_id rt = pid"
  using run
proof induction
  case (es_fresh a)
  show ?case
    using start durable_history_start by (simp add: es_inv_def es_runtime_new_def)
next
  case (es_start rt h r rt')
  then show ?case using started_result [OF law] by metis
next
  case (es_restart rt h r rt')
  then show ?case using restarted_result [OF law] by metis
next
  case (es_stop rt h r rt')
  then have "signal b rt (PostStop (rt_persistence_id rt)) = (fst (signal b rt (PostStop (rt_persistence_id rt))), rt')"
    by (auto simp: es_stopped_def split: prod.splits sum.splits)
  from signal_inv [OF this, of f init h] es_stop.IH show ?case by simp
next
  case (es_command rt h jclock sclock msg r' rt')
  then show ?case using handle_result [OF law _ es_command.hyps(2,3)] by simp
next
  case (es_crash rt h a)
  then show ?case using inv_after_crash [of f init rt h a] by (simp add: es_inv_stores es_runtime_new_def)
next
  case (es_crash_persisting rt h s n es jclock a q rt' a')
  let ?rt = "rt\<lparr>rt_actor := a\<rparr>"
  have "stores_inv f init ?rt h" "prefix_state f init h s n"
    using es_crash_persisting by (auto simp: es_inv_stores stores_inv_def)
  note res = persist_events_result [OF law this es_crash_persisting.hyps(3,4)]
  have "history_after highest rt rt' (map te_event es) h = history_after highest ?rt rt' (map te_event es) h"
    by (simp add: history_after_def)
  with res es_crash_persisting.IH inv_after_crash [of f init rt' _ a'] show ?case
    by (simp add: same_identity_def es_runtime_new_def)
next
  case (es_crash_snapshotting rt h s n es jclock a s' n' rt' sclock p rt'' a')
  let ?rt = "rt\<lparr>rt_actor := a\<rparr>"
  define h1 where "h1 = history_after highest ?rt rt' (map te_event es) h"
  have "stores_inv f init ?rt h" "prefix_state f init h s n"
    using es_crash_snapshotting by (auto simp: es_inv_stores stores_inv_def)
  note res = persist_events_result [OF law this es_crash_snapshotting.hyps(3,4), folded h1_def]
  have "history_after highest rt rt' (map te_event es) h = h1"
    by (simp add: h1_def history_after_def)
  moreover have "snapshot_step rt' rt''" "saved_or_same rt' n' s' rt'' (is_ok p)"
    using save_attempts_result [OF es_crash_snapshotting.hyps(5) [unfolded save_snapshot_with_backoff_def]] res
    by (simp_all add: stores_inv_def)
  moreover have "stores_inv f init rt'' h1"
    using save_keeps_history [of f init rt' h1 n' s' rt''] res calculation by (auto simp: prefix_state_def)
  ultimately show ?case
    using res es_crash_snapshotting.IH inv_after_crash [of f init rt'' h1 a']
    by (simp add: same_identity_def snapshot_step_def es_runtime_new_def)
qed

text \<open>The two guarantees for clients, over any stores that meet their contracts.\<close>

lemma recovery_replays_history:
  assumes "lawful_behavior b f init" and "ok n0" "highest j0 pid = 0" "events j0 pid = []" "snaps n0 pid = []"
    and "es_run b jops nops highest j0 n0 pid rt h" and "recover b jops nops rt = (Inr u, rt')"
  shows "rt_recovered rt' = Some (foldl f init h, of_nat (length h))"
  using recover_result [OF assms(1) _ assms(7), of h] es_run_inv [OF assms(1-6)] by simp

lemma acknowledged_is_durable:
  assumes "lawful_behavior b f init" and "ok n0" "highest j0 pid = 0" "events j0 pid = []" "snaps n0 pid = []"
    and "es_run b jops nops highest j0 n0 pid rt h" and "es_handle b jops nops jclock sclock msg rt = (Inr out, rt')"
    and "length h + length (handled_events b msg rt) < 2 ^ 64 - 1"
    and "recover b jops nops (es_runtime_new a (rt_journal rt') (rt_snapshots rt') pid recovery_options_new) = (Inr u, rt'')"
  shows "rt_recovered rt'' = Some (foldl f init (h @ handled_events b msg rt),
    of_nat (length (h @ handled_events b msg rt)))"
proof -
  have "es_inv highest events snaps ok f init rt h" and pid: "rt_persistence_id rt = pid"
    using es_run_inv [OF assms(1-6)] by simp_all
  note res = handle_result [OF assms(1) this(1) assms(7,8)]
  then have "es_inv highest events snaps ok f init rt' (h @ handled_events b msg rt)" "rt_persistence_id rt' = pid"
    using pid by auto
  from this(1) have "es_inv highest events snaps ok f init
      (es_runtime_new a (rt_journal rt') (rt_snapshots rt') pid recovery_options_new) (h @ handled_events b msg rt)"
    using inv_after_crash [of f init rt' _ a] \<open>rt_persistence_id rt' = pid\<close> by (auto simp: es_inv_stores)
  from recover_result [OF assms(1) this assms(9)] show ?thesis
    by simp
qed

end

end
