(* ===== verification/Event_Durability.thy ===== *)
theory Event_Durability
  imports Event_Recovery
begin

text \<open>
  The guarantees of \<open>Event_Recovery\<close> for the runtime over the in-memory journal and snapshot store
  (\<open>crates/rakka-persistence/src/memory.rs\<close>), and what a retention policy that keeps no snapshot does.
\<close>

section \<open>The in-memory stores\<close>

interpretation es_memory: es_stores memory_journal_ops journal_highest_of journal_events_of
  memory_snapshot_ops snapshots_of snapshots_ok
  by unfold_locales

lemma memory_start: "snapshots_ok []" "journal_highest_of [] pid = 0" "journal_events_of [] pid = []" "snapshots_of [] pid = []"
  by (simp_all add: snapshots_ok_def snapshots_of_def journal_entry_def journal_default_def)

text \<open>A counter whose commands add to it, with a snapshot every two events of which one is kept.\<close>

definition counter_behavior :: "(unit, nat, nat, nat, unit) es_behavior" where
  "counter_behavior = \<lparr>b_empty_state = \<lambda>_. 0,
     b_handle_command = \<lambda>a pid n s k. (Inr (effect_persist_all (replicate k (TaggedEvent (s + 1) []))), a),
     b_apply_event = \<lambda>a s e. (s + e, a),
     b_retention_criteria = \<lambda>_. \<lparr>rc_snapshot_every = Some 2, rc_keep_snapshots = Some 1, rc_delete_events_on_snapshot = True\<rparr>,
     b_persist_failure_backoff = \<lambda>_. \<lparr>bo_retry_delay_millis = 0, bo_max_retries = 0\<rparr>,
     b_on_signal = \<lambda>a _. (Inr (), a)\<rparr>"

definition counter_start :: "(unit, nat memory_journal, nat memory_snapshots, nat) es_runtime" where
  "counter_start = es_runtime_new () [] [] ''c|1'' recovery_options_new"

definition counter_recovered :: "(unit, nat memory_journal, nat memory_snapshots, nat) es_runtime" where
  "counter_recovered = counter_start\<lparr>rt_recovered := Some (0, 0)\<rparr>"

lemmas counter_eval = counter_behavior_def counter_start_def counter_recovered_def es_runtime_new_def
  es_started_def recover_def signal_def recovery_options_new_def memory_snapshot_ops_def memory_journal_ops_def
  es_handle_def apply_effect_def persist_events_def append_with_backoff_def append_attempts.simps
  effect_persist_all_def effect_none_def journal_append_def journal_entry_def journal_default_def
  replay_from_after_snapshot_def sequence_next_def snapshot_load_def journal_replay_def
  should_snapshot_def snapshot_if_due_def

lemma counter_law: "lawful_behavior counter_behavior (+) 0"
  by (simp add: lawful_behavior_def counter_behavior_def)

lemma counter_starts: "es_started counter_behavior memory_journal_ops memory_snapshot_ops counter_start
  = (Inr Continue, counter_recovered)"
  by (simp add: counter_eval)

abbreviation counter_handle where
  "counter_handle \<equiv> es_handle counter_behavior memory_journal_ops memory_snapshot_ops (\<lambda>_ _. 0) (\<lambda>_. 0)"

definition counter_handled :: "(unit, nat memory_journal, nat memory_snapshots, nat) es_runtime" where
  "counter_handled = counter_recovered\<lparr>
     rt_journal := [(''c|1'', \<lparr>js_highest_sequence_nr = 2, js_events = []\<rparr>)],
     rt_snapshots := [(''c|1'', [SnapshotRecord 2 \<lparr>sm_persistence_id = ''c|1'', sm_sequence_nr = 2, sm_timestamp_millis = 0\<rparr>])],
     rt_recovered := Some (2, 2)\<rparr>"

lemma counter_handles: "counter_handle 2 counter_recovered = (Inr (Continue, []), counter_handled)"
  by (simp add: counter_eval counter_handled_def numeral_2_eq_2 Let_def bt_insert.simps save_snapshot_with_backoff_def save_attempts.simps
   snapshot_save_def snapshots_of_def sort_snapshots_newest_first_def apply_retention_def prune_snapshots_def snapshot_list_def
   journal_delete_to_def bt_adjust_def)

lemma counter_run:
  "es_run counter_behavior memory_journal_ops memory_snapshot_ops journal_highest_of [] [] ''c|1'' counter_recovered []"
  using es_start [OF es_fresh counter_starts [unfolded counter_start_def]] .

lemma counter_events: "handled_events counter_behavior 2 counter_recovered = [1, 1]"
  by (simp add: handled_events_def counter_eval numeral_2_eq_2)

section \<open>Retention that keeps no snapshot\<close>

lemma memory_delete_snapshots:
  assumes "delete_snapshots memory_snapshot_ops pid ms st = (r, st')"
  shows "r = Inr () \<and> set (snapshots_of st' pid)
    = {x \<in> set (snapshots_of st pid). sn_sequence_nr x \<notin> sm_sequence_nr ` set ms}"
  using assms
proof (induction ms arbitrary: st)
  case (Cons m ms)
  obtain c st1 where del: "snapshot_delete st pid (selection_between (sm_sequence_nr m) (sm_sequence_nr m)) = (Inr c, st1)"
    by (cases "map_of st pid") (simp_all add: snapshot_delete_def Let_def)
  have "snapshots_of st1 pid = filter (\<lambda>x. sn_sequence_nr x \<noteq> sm_sequence_nr m) (snapshots_of st pid)"
    using del by (auto simp: snapshot_delete_def snapshots_of_def Let_def split: option.splits if_splits)
  moreover have "delete_snapshots memory_snapshot_ops pid ms st1 = (r, st')"
    using Cons.prems del by (simp add: memory_snapshot_ops_def)
  ultimately show ?case
    using Cons.IH [of st1] by auto
qed (simp add: snapshots_of_def)

lemma keep_zero_retention:
  assumes "rc_keep_snapshots (b_retention_criteria b (rt_actor rt)) = Some 0"
    and "rc_delete_events_on_snapshot (b_retention_criteria b (rt_actor rt))"
    and "\<forall>x \<in> set (journal_events_of (rt_journal rt) (rt_persistence_id rt)). er_sequence_nr x \<le> latest"
    and "apply_retention b memory_journal_ops memory_snapshot_ops latest rt = (r, rt')"
  shows "r = Inr () \<and> snapshots_of (rt_snapshots rt') (rt_persistence_id rt) = []
    \<and> journal_events_of (rt_journal rt') (rt_persistence_id rt) = []
    \<and> journal_highest_of (rt_journal rt') (rt_persistence_id rt) = journal_highest_of (rt_journal rt) (rt_persistence_id rt)"
proof -
  let ?pid = "rt_persistence_id rt" and ?ms = "map sn_metadata (snapshots_of (rt_snapshots rt) (rt_persistence_id rt))"
  have list: "snapshot_list (rt_snapshots rt) ?pid selection_latest = Inr ?ms"
    by (simp add: snapshot_list_def snapshots_of_def split: option.splits)
  obtain q st where del: "delete_snapshots memory_snapshot_ops ?pid ?ms (rt_snapshots rt) = (q, st)"
    by fastforce
  note gone = memory_delete_snapshots [OF del]
  have "set (snapshots_of st ?pid) = {}"
    using gone by auto
  moreover have "r = Inr () \<and> rt' = rt\<lparr>rt_snapshots := st, rt_journal := snd (journal_delete_to (rt_journal rt) ?pid latest)\<rparr>"
    using assms(1,2,4) list del gone
    by (auto simp: apply_retention_def prune_snapshots_def Let_def memory_snapshot_ops_def memory_journal_ops_def
      journal_delete_to_def)
  moreover have "jo_delete_to memory_journal_ops (rt_journal rt) ?pid latest
      = (Inr (), snd (journal_delete_to (rt_journal rt) ?pid latest))"
    by (simp add: memory_journal_ops_def journal_delete_to_def)
  ultimately show ?thesis
    using memory_journal.delete_to_drops [of "rt_journal rt" ?pid latest] assms(3)
    by (auto simp: filter_empty_conv fun_eq_iff)
qed

section \<open>Properties\<close>

text \<open>C1: Take any run of an event-sourced actor over the in-memory stores, with commands that succeed
  or fail, restarts, and crashes between commands, after a journal append or after a snapshot write.
  A successful recovery then holds exactly the state obtained by applying every event ever
  persisted, in order, to the empty state, at the sequence number of the last of them, whatever
  snapshots and event deletions the retention policy has made (it must keep at least one snapshot).\<close>

theorem event_sourced_crash_recovery:
  assumes "lawful_behavior b f init"
    and "es_run b memory_journal_ops memory_snapshot_ops journal_highest_of [] [] pid rt h"
    and "recover b memory_journal_ops memory_snapshot_ops rt = (Inr u, rt')"
  shows "rt_recovered rt' = Some (foldl f init h, of_nat (length h))"
  using es_memory.recovery_replays_history [OF assms(1) memory_start assms(2,3)] .

text \<open>C2: When a command is answered with success, its events survive: after a crash right behind the
  answer a successful recovery holds the state of the earlier history followed by the events of
  that command, as long as there are fewer than 2^64 - 1 events and the retention policy keeps at least one snapshot.\<close>

theorem acknowledged_events_survive:
  assumes "lawful_behavior b f init"
    and "es_run b memory_journal_ops memory_snapshot_ops journal_highest_of [] [] pid rt h"
    and "es_handle b memory_journal_ops memory_snapshot_ops jclock sclock msg rt = (Inr out, rt')"
    and "length h + length (handled_events b msg rt) < 2 ^ 64 - 1"
    and "recover b memory_journal_ops memory_snapshot_ops
      (es_runtime_new a (rt_journal rt') (rt_snapshots rt') pid recovery_options_new) = (Inr u, rt'')"
  shows "rt_recovered rt'' = Some (foldl f init (h @ handled_events b msg rt),
    of_nat (length (h @ handled_events b msg rt)))"
  using es_memory.acknowledged_is_durable [OF assms(1) memory_start assms(2-5)] .

definition counter_rebooted :: "(unit, nat memory_journal, nat memory_snapshots, nat) es_runtime" where
  "counter_rebooted = es_runtime_new () (rt_journal counter_handled) (rt_snapshots counter_handled) ''c|1'' recovery_options_new"

lemma counter_recovers:
  "recover counter_behavior memory_journal_ops memory_snapshot_ops counter_rebooted
     = (Inr (), counter_rebooted\<lparr>rt_recovered := Some (2, 2)\<rparr>)"
  by (simp add: counter_rebooted_def counter_handled_def counter_eval)

lemma counter_rebooted_run:
  "es_run counter_behavior memory_journal_ops memory_snapshot_ops journal_highest_of [] [] ''c|1'' counter_rebooted [1, 1]"
proof -
  have hist: "history_after journal_highest_of counter_recovered counter_handled [1, 1] [] = [1, 1 :: nat]"
    by (simp add: history_after_def counter_handled_def counter_eval)
  have "es_run counter_behavior memory_journal_ops memory_snapshot_ops journal_highest_of [] [] ''c|1'' counter_handled [1, 1]"
    using es_command [OF counter_run counter_handles] by (simp add: counter_events hist del: One_nat_def)
  from es_crash [OF this, of "()"] show ?thesis
    by (simp add: counter_rebooted_def)
qed

theorem event_sourced_crash_recovery_witness:
  "rt_recovered (counter_rebooted\<lparr>rt_recovered := Some (2, 2)\<rparr>) = Some (foldl (+) 0 [1, 1], of_nat (length [1, 1 :: nat]))"
  by (rule event_sourced_crash_recovery [OF counter_law counter_rebooted_run counter_recovers])

theorem acknowledged_events_survive_witness:
  "rt_recovered (counter_rebooted\<lparr>rt_recovered := Some (2, 2)\<rparr>) = Some (foldl (+) 0 [1, 1], of_nat (length [1, 1 :: nat]))"
  using acknowledged_events_survive [OF counter_law counter_run counter_handles _ counter_recovers [unfolded counter_rebooted_def]]
  by (simp add: counter_events counter_rebooted_def)

text \<open>C36: A retention policy that keeps no snapshot and deletes events on snapshot loses the whole
  history: once it has been applied, recovery succeeds with the empty state at sequence number
  zero, while the journal still remembers its highest number, so that every later append from the
  recovered number is refused with a sequence conflict.\<close>

theorem keep_no_snapshot_loses_history:
  assumes "rc_keep_snapshots (b_retention_criteria b (rt_actor rt)) = Some 0"
    and "rc_delete_events_on_snapshot (b_retention_criteria b (rt_actor rt))"
    and "\<forall>x. b_empty_state b x = init" and "\<forall>x sig. \<exists>y. b_on_signal b x sig = (Inr (), y)"
    and "\<forall>x \<in> set (journal_events_of (rt_journal rt) (rt_persistence_id rt)). er_sequence_nr x \<le> latest"
    and "journal_highest_of (rt_journal rt) (rt_persistence_id rt) \<noteq> 0"
    and "apply_retention b memory_journal_ops memory_snapshot_ops latest rt = (r, rt')"
    and "recover b memory_journal_ops memory_snapshot_ops
      (es_runtime_new a (rt_journal rt') (rt_snapshots rt') (rt_persistence_id rt) recovery_options_new) = (q, rt'')"
  shows "r = Inr () \<and> q = Inr () \<and> rt_recovered rt'' = Some (init, 0)
    \<and> \<not> is_ok (fst (journal_append (rt_journal rt'') (rt_persistence_id rt) 0 es clock))"
proof -
  let ?pid = "rt_persistence_id rt"
  have ret: "r = Inr ()" "snapshots_of (rt_snapshots rt') ?pid = []" "journal_events_of (rt_journal rt') ?pid = []"
    "journal_highest_of (rt_journal rt') ?pid \<noteq> 0"
    using keep_zero_retention [OF assms(1,2,5,7)] assms(6) by simp_all
  have load: "snapshot_load (rt_snapshots rt') ?pid selection_latest = Inr None"
    using ret(2) by (auto simp: snapshot_load_def snapshots_of_def split: option.splits)
  have replay: "journal_replay (rt_journal rt') ?pid 1 (- 1) = Inr []"
    using ret(3) by (auto simp: journal_replay_def journal_entry_def journal_default_def split: option.splits)
  obtain y where y: "b_on_signal b a (RecoveryStarted ?pid) = (Inr (), y)"
    using assms(4) by blast
  obtain z where z: "b_on_signal b y (RecoveryCompleted ?pid 0) = (Inr (), z)"
    using assms(4) by blast
  have "q = Inr () \<and> rt_recovered rt'' = Some (init, 0) \<and> rt_journal rt'' = rt_journal rt'"
    using assms(8) load replay y z assms(3)
    by (auto simp: recover_def signal_def es_runtime_new_def recovery_options_new_def memory_snapshot_ops_def
      memory_journal_ops_def replay_from_after_snapshot_def sequence_next_def Let_def)
  with ret show ?thesis
    by (auto simp: journal_append_def Let_def)
qed

definition amnesiac_behavior :: "(unit, nat, nat, nat, unit) es_behavior" where
  "amnesiac_behavior = counter_behavior\<lparr>b_retention_criteria :=
     \<lambda>_. \<lparr>rc_snapshot_every = Some 2, rc_keep_snapshots = Some 0, rc_delete_events_on_snapshot = True\<rparr>\<rparr>"

lemma amnesiac_retention:
  "apply_retention amnesiac_behavior memory_journal_ops memory_snapshot_ops 2 counter_handled
     = (Inr (), counter_handled\<lparr>rt_snapshots := []\<rparr>)"
  by (simp add: amnesiac_behavior_def counter_handled_def counter_eval apply_retention_def prune_snapshots_def
    snapshot_list_def snapshot_delete_def bt_remove_def journal_delete_to_def bt_adjust_def Let_def)

theorem keep_no_snapshot_loses_history_witness:
  "rt_recovered (snd (recover amnesiac_behavior memory_journal_ops memory_snapshot_ops
     (es_runtime_new () (rt_journal counter_handled) [] ''c|1'' recovery_options_new))) = Some (0, 0)"
  using keep_no_snapshot_loses_history [OF _ _ _ _ _ _ amnesiac_retention prod.collapse [symmetric],
    where init = 0 and a = "()"]
  by (simp add: amnesiac_behavior_def counter_behavior_def counter_handled_def counter_recovered_def counter_start_def
    es_runtime_new_def journal_entry_def)

end
