(* ===== verification/Rakka_Text.thy ===== *)
theory Rakka_Text
  imports Rakka_Prelude
begin

text \<open>
  The string operations of the standard library the components use. A string is its sequence of
  bytes; trimming and case folding act on ASCII characters.
\<close>

definition ascii_whitespace :: "char \<Rightarrow> bool" where
  "ascii_whitespace c \<longleftrightarrow> (let n = of_char c :: nat in 9 \<le> n \<and> n \<le> 13 \<or> n = 32)"

definition trim :: "string \<Rightarrow> string" where
  "trim s = rev (dropWhile ascii_whitespace (rev (dropWhile ascii_whitespace s)))"

definition ascii_lowercase :: "char \<Rightarrow> char" where
  "ascii_lowercase c = (let n = of_char c :: nat in if 65 \<le> n \<and> n \<le> 90 then char_of (n + 32) else c)"

definition to_ascii_lowercase :: "string \<Rightarrow> string" where
  "to_ascii_lowercase s = map ascii_lowercase s"

definition starts_with :: "string \<Rightarrow> string \<Rightarrow> bool" where
  "starts_with s p \<longleftrightarrow> take (length p) s = p"

fun contains_text :: "string \<Rightarrow> string \<Rightarrow> bool" where
  "contains_text [] p \<longleftrightarrow> p = []"
| "contains_text (c # s) p \<longleftrightarrow> starts_with (c # s) p \<or> contains_text s p"

text \<open>\<open>str::rsplit_once\<close> at the last occurrence of a non-empty pattern.\<close>

fun rsplit_once :: "string \<Rightarrow> string \<Rightarrow> (string \<times> string) option" where
  "rsplit_once [] p = None"
| "rsplit_once (c # s) p =
     (case rsplit_once s p of
        Some (before, after) \<Rightarrow> Some (c # before, after)
      | None \<Rightarrow> if starts_with (c # s) p then Some ([], drop (length p) (c # s)) else None)"

definition ascii_digit :: "char \<Rightarrow> bool" where
  "ascii_digit c \<longleftrightarrow> (let n = of_char c :: nat in 48 \<le> n \<and> n \<le> 57)"

text \<open>\<open>str::parse::<u32>\<close>: an optional plus sign and decimal digits whose value fits.\<close>

definition parse_u32 :: "string \<Rightarrow> nat option" where
  "parse_u32 s =
     (let digits = (case s of c # r \<Rightarrow> if c = CHR ''+'' then r else s | [] \<Rightarrow> s);
          n = foldl (\<lambda>n c. 10 * n + (of_char c - 48)) 0 digits
      in if digits = [] \<or> \<not> list_all ascii_digit digits \<or> 2 ^ 32 \<le> n then None else Some n)"

lemma contains_text_iff: "contains_text s p \<longleftrightarrow> (\<exists>a b. s = a @ p @ b)"
proof (induction s)
  case (Cons c s)
  have "starts_with (c # s) p \<longleftrightarrow> (\<exists>b. c # s = p @ b)"
    unfolding starts_with_def by (metis append_eq_conv_conj append_take_drop_id)
  moreover have "(\<exists>a b. c # s = a @ p @ b) \<longleftrightarrow> (\<exists>b. c # s = p @ b) \<or> (\<exists>a b. s = a @ p @ b)"
    by (metis append_Cons append_Nil list.exhaust list.inject)
  ultimately show ?case
    using Cons.IH by simp
qed auto

end
