(* ===== verification/Shutdown_Registry.thy ===== *)
theory Shutdown_Registry
  imports Rakka_Text
begin

text \<open>
  The coordinated-shutdown registry (\<open>crates/rakka-core/src/coordinated_shutdown.rs\<close>): named phases
  with dependencies, tasks per phase, and the deterministic dependency order in which shutdown runs
  them. The registry's mutex makes every operation one step; a failed operation returns its error
  and the registry it leaves behind. A task's closure is a function of its context and of the
  instant it is started: it finishes after some time with success or an error text, or never
  (\<open>None\<close>). Metrics, names of built-in reasons and accessor methods are left out.
\<close>

section \<open>Names, settings and tasks\<close>

type_synonym shutdown_phase = string
type_synonym instant = nat

datatype shutdown_error =
    UnknownShutdownPhase string
  | DuplicateShutdownPhase string
  | ShutdownPhaseCycle
  | DuplicateShutdownTask string string
  | ShutdownAlreadyStarted
  | InvalidShutdownName string

definition shutdown_name_char :: "char \<Rightarrow> bool" where
  "shutdown_name_char c \<longleftrightarrow>
     (let n = of_char c :: nat in
      48 \<le> n \<and> n \<le> 57 \<or> 65 \<le> n \<and> n \<le> 90 \<or> 97 \<le> n \<and> n \<le> 122) \<or> c \<in> {CHR ''-'', CHR ''_'', CHR ''.''}"

definition validate_shutdown_name :: "string \<Rightarrow> string \<Rightarrow> (shutdown_error, string) result" where
  "validate_shutdown_name kind name =
     (if name = [] \<or> ascii_whitespace (hd name) \<or> ascii_whitespace (last name) then Inl (InvalidShutdownName kind)
      else if \<not> list_all shutdown_name_char name then Inl (InvalidShutdownName kind)
      else Inr name)"

datatype failure_policy = FailFast | ContinueOnFailure

record shutdown_settings =
  sh_default_phase_timeout :: "duration option"
  sh_default_task_timeout :: "duration option"
  sh_failure_policy :: failure_policy

definition shutdown_settings_new :: shutdown_settings where
  "shutdown_settings_new = \<lparr>sh_default_phase_timeout = None, sh_default_task_timeout = None, sh_failure_policy = FailFast\<rparr>"

record task_options =
  to_timeout :: "duration option"
  to_failure_policy :: "failure_policy option"
  to_attributes :: "(string \<times> string) list"

definition task_options_new :: task_options where
  "task_options_new = \<lparr>to_timeout = None, to_failure_policy = None, to_attributes = []\<rparr>"

definition with_attribute :: "task_options \<Rightarrow> string \<Rightarrow> string \<Rightarrow> (shutdown_error, task_options) result" where
  "with_attribute options key v =
     (case validate_shutdown_name ''task attribute key'' key of
        Inl e \<Rightarrow> Inl e
      | Inr key \<Rightarrow> Inr (options\<lparr>to_attributes := to_attributes options @ [(key, v)]\<rparr>))"

record shutdown_task =
  tk_phase :: shutdown_phase
  tk_name :: string
  tk_options :: task_options

definition shutdown_task_new :: "shutdown_phase \<Rightarrow> string \<Rightarrow> task_options \<Rightarrow> (shutdown_error, shutdown_task) result" where
  "shutdown_task_new phase name options =
     (case validate_shutdown_name ''task'' name of
        Inl e \<Rightarrow> Inl e
      | Inr name \<Rightarrow> Inr \<lparr>tk_phase = phase, tk_name = name, tk_options = options\<rparr>)"

record task_context =
  tc_reason :: string
  tc_phase :: shutdown_phase
  tc_task_name :: string

type_synonym task_runner = "instant \<Rightarrow> task_context \<Rightarrow> (duration \<times> (string, unit) result) option"

record task_entry =
  en_descriptor :: shutdown_task
  en_run :: task_runner

section \<open>Reports and the state of a run\<close>

datatype shutdown_outcome = NotStartedOutcome | RunningOutcome | Complete | Partial | Failed | TimedOut

datatype task_status = TaskPending | TaskRunning | TaskCompleted | TaskFailed | TaskTimedOut | TaskSkipped

record task_report =
  tr_phase :: shutdown_phase
  tr_task_name :: string
  tr_status :: task_status
  tr_duration :: "duration option"
  tr_message :: "string option"

record phase_report =
  pr_phase :: shutdown_phase
  pr_outcome :: shutdown_outcome
  pr_duration :: "duration option"
  pr_tasks :: "task_report list"

record shutdown_report =
  rep_reason :: string
  rep_outcome :: shutdown_outcome
  rep_phases :: "phase_report list"

datatype run_error = RegistryError shutdown_error | FailedRun shutdown_report | TimedOutRun shutdown_report

type_synonym run_result = "(run_error, shutdown_report) result"

text \<open>
  The state of the one shutdown run. While it is running, the registry holds a watch channel: the
  value sent so far, and whether the sending half still exists.
\<close>

datatype run_state = NotStarted | Running "run_result option" bool | Finished run_result

section \<open>The registry\<close>

record phase_node =
  pn_phase :: shutdown_phase
  pn_depends_on :: "string list"

record registry =
  rg_settings :: shutdown_settings
  rg_phases :: "(string, phase_node) btree"
  rg_tasks :: "(string, (string, task_entry) btree) btree"
  rg_run_state :: run_state

definition built_in_phases :: "string list" where
  "built_in_phases = [''stop-ingress'', ''drain-http-grpc-and-streams'', ''leave-cluster'', ''handoff-shards'',
     ''stop-process-actors'', ''flush-persistence'', ''stop-user-actors'', ''stop-system-actors'', ''stop-remoting'']"

definition built_in_node :: "nat \<Rightarrow> phase_node" where
  "built_in_node index = \<lparr>pn_phase = built_in_phases ! index,
     pn_depends_on = (if 0 < index then [built_in_phases ! (index - 1)] else [])\<rparr>"

definition registry_new :: "shutdown_settings \<Rightarrow> registry" where
  "registry_new settings = \<lparr>rg_settings = settings,
     rg_phases = foldl (\<lambda>phases index. bt_insert (built_in_phases ! index) (built_in_node index) phases)
       [] [0..<length built_in_phases],
     rg_tasks = [], rg_run_state = NotStarted\<rparr>"

definition ensure_not_started :: "registry \<Rightarrow> (shutdown_error, unit) result" where
  "ensure_not_started rg = (if rg_run_state rg = NotStarted then Inr () else Inl ShutdownAlreadyStarted)"

definition ensure_phase_exists :: "registry \<Rightarrow> shutdown_phase \<Rightarrow> (shutdown_error, unit) result" where
  "ensure_phase_exists rg phase =
     (if map_of (rg_phases rg) phase \<noteq> None then Inr () else Inl (UnknownShutdownPhase phase))"

definition ensure_phase_absent :: "registry \<Rightarrow> shutdown_phase \<Rightarrow> (shutdown_error, unit) result" where
  "ensure_phase_absent rg phase =
     (if map_of (rg_phases rg) phase \<noteq> None then Inl (DuplicateShutdownPhase phase) else Inr ())"

text \<open>The checks shared by the two operations that add a phase, in the order of the source.\<close>

definition new_phase :: "registry \<Rightarrow> string \<Rightarrow> shutdown_phase \<Rightarrow> (shutdown_error, shutdown_phase) result" where
  "new_phase rg name anchor =
     (case ensure_not_started rg of
        Inl e \<Rightarrow> Inl e
      | Inr _ \<Rightarrow>
          (case ensure_phase_exists rg anchor of
             Inl e \<Rightarrow> Inl e
           | Inr _ \<Rightarrow>
               (case validate_shutdown_name ''phase'' name of
                  Inl e \<Rightarrow> Inl e
                | Inr phase \<Rightarrow>
                    (case ensure_phase_absent rg phase of Inl e \<Rightarrow> Inl e | Inr _ \<Rightarrow> Inr phase))))"

definition add_phase_after :: "registry \<Rightarrow> string \<Rightarrow> shutdown_phase \<Rightarrow> (shutdown_error, shutdown_phase) result \<times> registry" where
  "add_phase_after rg name after =
     (case new_phase rg name after of
        Inl e \<Rightarrow> (Inl e, rg)
      | Inr phase \<Rightarrow>
          (Inr phase, rg\<lparr>rg_phases := bt_insert phase \<lparr>pn_phase = phase, pn_depends_on = [after]\<rparr> (rg_phases rg)\<rparr>))"

definition add_phase_before :: "registry \<Rightarrow> string \<Rightarrow> shutdown_phase \<Rightarrow> (shutdown_error, shutdown_phase) result \<times> registry" where
  "add_phase_before rg name before =
     (case new_phase rg name before of
        Inl e \<Rightarrow> (Inl e, rg)
      | Inr phase \<Rightarrow>
          (Inr phase, rg\<lparr>rg_phases :=
             bt_adjust before (\<lambda>n. n\<lparr>pn_depends_on := bs_insert phase (pn_depends_on n)\<rparr>)
               (bt_insert phase \<lparr>pn_phase = phase, pn_depends_on = []\<rparr> (rg_phases rg))\<rparr>))"

section \<open>The dependency order\<close>

text \<open>
  The loop of \<open>ordered_phase_names\<close>: the least ready name is emitted, removed from the remaining
  phases and from their dependencies; whoever has no dependency left becomes ready.
\<close>

definition drop_dependency :: "string \<Rightarrow> (string, string list) btree \<Rightarrow> (string, string list) btree" where
  "drop_dependency name remaining = map (\<lambda>(c, ds). (c, bs_remove name ds)) (bt_remove name remaining)"

definition insert_ready :: "(string, string list) btree \<Rightarrow> string list \<Rightarrow> string list" where
  "insert_ready remaining ready = foldl (\<lambda>r (c, ds). if ds = [] then bs_insert c r else r) ready remaining"

lemma length_filter_bs_insert: "\<not> P c \<Longrightarrow> length (filter P (bs_insert c r)) = length (filter P r)"
  by (induction c r rule: bs_insert.induct) auto

lemma length_filter_insert_ready:
  "\<forall>c \<in> fst ` set remaining. \<not> P c \<Longrightarrow> length (filter P (insert_ready remaining ready)) = length (filter P ready)"
  unfolding insert_ready_def
  by (induction remaining arbitrary: ready) (auto simp: length_filter_bs_insert)

lemma fst_drop_dependency: "map fst (drop_dependency name remaining) = filter (\<lambda>c. c \<noteq> name) (map fst remaining)"
  by (induction remaining) (auto simp: drop_dependency_def bt_remove_def)

function order_ready :: "string list \<Rightarrow> (string, string list) btree \<Rightarrow> string list \<Rightarrow> string list" where
  "order_ready [] remaining ordered = ordered"
| "order_ready (name # ready) remaining ordered =
     (let remaining' = drop_dependency name remaining
      in order_ready (insert_ready remaining' ready) remaining' (ordered @ [name]))"
  by pat_completeness auto

termination
proof (relation "measures [\<lambda>(ready, remaining, ordered). length remaining,
    \<lambda>(ready, remaining, ordered). length (filter (\<lambda>x. x \<notin> fst ` set remaining) ready)]", goal_cases)
  case (2 name ready remaining ordered remaining')
  let ?keys = "fst ` set remaining"
  have len: "length remaining' = length (filter (\<lambda>c. c \<noteq> name) (map fst remaining))"
    using arg_cong [OF fst_drop_dependency, of length] 2 by simp
  show ?case
  proof (cases "name \<in> ?keys")
    case True
    then have "length (filter (\<lambda>c. c \<noteq> name) (map fst remaining)) < length (map fst remaining)"
      by (intro length_filter_less [of name]) auto
    with len show ?thesis by simp
  next
    case False
    then have "filter (\<lambda>c. c \<noteq> name) (map fst remaining) = map fst remaining"
      by (auto simp: filter_id_conv)
    with len fst_drop_dependency [of name remaining] 2 have "length remaining' = length remaining"
      and keys: "fst ` set remaining' = ?keys"
      by (simp, metis list.set_map)
    moreover have "length (filter (\<lambda>x. x \<notin> ?keys) (insert_ready remaining' ready)) = length (filter (\<lambda>x. x \<notin> ?keys) ready)"
      by (rule length_filter_insert_ready) (simp add: keys)
    ultimately show ?thesis
      using False by simp
  qed
qed simp

definition unknown_dependency :: "(string, phase_node) btree \<Rightarrow> string option" where
  "unknown_dependency phases =
     find (\<lambda>d. map_of phases d = None) (concat (map (\<lambda>(_, node). pn_depends_on node) phases))"

definition ordered_phase_names :: "(string, phase_node) btree \<Rightarrow> (shutdown_error, string list) result" where
  "ordered_phase_names phases =
     (case unknown_dependency phases of
        Some d \<Rightarrow> Inl (UnknownShutdownPhase d)
      | None \<Rightarrow>
          let remaining = map (\<lambda>(name, node). (name, pn_depends_on node)) phases;
              ready = List.map_filter (\<lambda>(name, ds). if ds = [] then Some name else None) remaining;
              ordered = order_ready ready remaining []
          in if length ordered \<noteq> length phases then Inl ShutdownPhaseCycle else Inr ordered)"

definition add_phase_dependency ::
  "registry \<Rightarrow> shutdown_phase \<Rightarrow> shutdown_phase \<Rightarrow> (shutdown_error, unit) result \<times> registry"
where
  "add_phase_dependency rg phase depends_on =
     (case ensure_not_started rg of
        Inl e \<Rightarrow> (Inl e, rg)
      | Inr _ \<Rightarrow>
          (case ensure_phase_exists rg phase of
             Inl e \<Rightarrow> (Inl e, rg)
           | Inr _ \<Rightarrow>
               (case ensure_phase_exists rg depends_on of
                  Inl e \<Rightarrow> (Inl e, rg)
                | Inr _ \<Rightarrow>
                    let inserted = (case map_of (rg_phases rg) phase of
                          Some n \<Rightarrow> depends_on \<notin> set (pn_depends_on n) | None \<Rightarrow> False);
                        phases = bt_adjust phase (\<lambda>n. n\<lparr>pn_depends_on := bs_insert depends_on (pn_depends_on n)\<rparr>) (rg_phases rg)
                    in
                    (case ordered_phase_names phases of
                       Inr _ \<Rightarrow> (Inr (), rg\<lparr>rg_phases := phases\<rparr>)
                     | Inl e \<Rightarrow>
                         (Inl e, rg\<lparr>rg_phases :=
                            (if inserted
                             then bt_adjust phase (\<lambda>n. n\<lparr>pn_depends_on := bs_remove depends_on (pn_depends_on n)\<rparr>) phases
                             else phases)\<rparr>)))))"

section \<open>Tasks and the execution plan\<close>

definition add_task ::
  "registry \<Rightarrow> shutdown_phase \<Rightarrow> string \<Rightarrow> task_options \<Rightarrow> task_runner \<Rightarrow> (shutdown_error, shutdown_task) result \<times> registry"
where
  "add_task rg phase name options run =
     (case ensure_not_started rg of
        Inl e \<Rightarrow> (Inl e, rg)
      | Inr _ \<Rightarrow>
          (case ensure_phase_exists rg phase of
             Inl e \<Rightarrow> (Inl e, rg)
           | Inr _ \<Rightarrow>
               (case shutdown_task_new phase name options of
                  Inl e \<Rightarrow> (Inl e, rg)
                | Inr descriptor \<Rightarrow>
                    let phase_tasks = (case map_of (rg_tasks rg) phase of Some ts \<Rightarrow> ts | None \<Rightarrow> []) in
                    if map_of phase_tasks (tk_name descriptor) \<noteq> None
                    then (Inl (DuplicateShutdownTask (tk_name descriptor) phase),
                          rg\<lparr>rg_tasks := bt_insert phase phase_tasks (rg_tasks rg)\<rparr>)
                    else (Inr descriptor,
                          rg\<lparr>rg_tasks := bt_insert phase
                             (bt_insert (tk_name descriptor) \<lparr>en_descriptor = descriptor, en_run = run\<rparr> phase_tasks)
                             (rg_tasks rg)\<rparr>))))"

definition ordered_phases :: "registry \<Rightarrow> (shutdown_error, shutdown_phase list) result" where
  "ordered_phases rg = map_sum id (map (\<lambda>name. case map_of (rg_phases rg) name of Some n \<Rightarrow> pn_phase n | None \<Rightarrow> name))
     (ordered_phase_names (rg_phases rg))"

definition phase_entries :: "registry \<Rightarrow> string \<Rightarrow> task_entry list option" where
  "phase_entries rg name = map_option (map snd) (map_of (rg_tasks rg) name)"

definition ordered_tasks :: "registry \<Rightarrow> (shutdown_error, shutdown_task list) result" where
  "ordered_tasks rg = map_sum id
     (\<lambda>names. concat (map (\<lambda>name. case phase_entries rg name of Some es \<Rightarrow> map en_descriptor es | None \<Rightarrow> []) names))
     (ordered_phase_names (rg_phases rg))"

definition tasks_for_phase :: "registry \<Rightarrow> shutdown_phase \<Rightarrow> (shutdown_error, shutdown_task list) result" where
  "tasks_for_phase rg phase =
     (case ensure_phase_exists rg phase of
        Inl e \<Rightarrow> Inl e
      | Inr _ \<Rightarrow> Inr (case phase_entries rg phase of Some es \<Rightarrow> map en_descriptor es | None \<Rightarrow> []))"

definition task_count :: "registry \<Rightarrow> nat" where
  "task_count rg = sum_list (map (\<lambda>(_, ts). length ts) (rg_tasks rg))"

record execution_plan =
  pl_settings :: shutdown_settings
  pl_phases :: "shutdown_phase list"
  pl_tasks :: "(string, task_entry list) btree"

definition execution_plan_of :: "registry \<Rightarrow> (run_error, execution_plan) result" where
  "execution_plan_of rg =
     (case ordered_phase_names (rg_phases rg) of
        Inl e \<Rightarrow> Inl (RegistryError e)
      | Inr names \<Rightarrow> Inr \<lparr>pl_settings = rg_settings rg,
          pl_phases = map (\<lambda>name. case map_of (rg_phases rg) name of Some n \<Rightarrow> pn_phase n | None \<Rightarrow> name) names,
          pl_tasks = bt_collect (List.map_filter (\<lambda>name. map_option (\<lambda>es. (name, es)) (phase_entries rg name)) names)\<rparr>)"

end
