(* ===== verification/Shutdown_Order.thy ===== *)
theory Shutdown_Order
  imports Shutdown_Registry
begin

text \<open>
  Correctness of the phase order and of the registry that keeps it: the order of
  \<open>ordered_phase_names\<close> exists exactly for registered, acyclic dependencies, and every registry built
  through the public operations has one.
\<close>

section \<open>Correctness of the order\<close>

text \<open>The pairs of a dependency and the phase that must run after it.\<close>

definition dependencies :: "(string, phase_node) btree \<Rightarrow> (string \<times> string) set" where
  "dependencies phases = {(d, n). \<exists>node. map_of phases n = Some node \<and> d \<in> set (pn_depends_on node)}"

definition follows_deps :: "('a \<times> 'a) set \<Rightarrow> 'a list \<Rightarrow> bool" where
  "follows_deps r xs \<longleftrightarrow> (\<forall>i < length xs. \<forall>d. (d, xs ! i) \<in> r \<longrightarrow> d \<in> set (take i xs))"

lemma follows_deps_snoc:
  "follows_deps r xs \<Longrightarrow> (\<forall>d. (d, x) \<in> r \<longrightarrow> d \<in> set xs) \<Longrightarrow> follows_deps r (xs @ [x])"
  by (auto simp: follows_deps_def nth_append less_Suc_eq)

lemma follows_deps_acyclic:
  assumes "follows_deps r xs" and "distinct xs" and "Range r \<subseteq> set xs"
  shows "acyclic r"
proof -
  define pos where "pos x = (LEAST i. i < length xs \<and> xs ! i = x)" for x
  have pos: "pos x < length xs \<and> xs ! pos x = x" if "x \<in> set xs" for x
  proof -
    have "\<exists>i. i < length xs \<and> xs ! i = x"
      using that by (simp add: in_set_conv_nth)
    then show ?thesis
      unfolding pos_def by (rule LeastI_ex)
  qed
  have "r \<subseteq> measure pos"
  proof safe
    fix d n assume "(d, n) \<in> r"
    with assms(3) have "n \<in> set xs"
      by auto
    with pos [of n] assms(1) \<open>(d, n) \<in> r\<close> have "d \<in> set (take (pos n) xs)"
      unfolding follows_deps_def by simp
    then obtain i where i: "i < pos n" "i < length xs" "xs ! i = d"
      by (auto simp: in_set_conv_nth)
    then have "d \<in> set xs"
      by auto
    then have "pos d = i"
      using pos [of d] i assms(2) nth_eq_iff_index_eq [of xs "pos d" i] by simp
    with i show "(d, n) \<in> measure pos"
      by simp
  qed
  then show ?thesis
    using wf_acyclic [OF wf_measure] acyclic_subset by blast
qed

lemma insert_ready_simps [simp]:
  "insert_ready [] ready = ready"
  "insert_ready ((c, ds) # remaining) ready = insert_ready remaining (if ds = [] then bs_insert c ready else ready)"
  by (simp_all add: insert_ready_def)

lemma set_insert_ready: "set (insert_ready remaining ready) = set ready \<union> {c. (c, []) \<in> set remaining}"
proof (induction remaining arbitrary: ready)
  case (Cons p remaining)
  obtain c ds where "p = (c, ds)"
    by fastforce
  then show ?case
    by (cases ds) (simp_all add: Cons.IH, blast)
qed simp

lemma bs_ok_insert_ready: "bs_ok ready \<Longrightarrow> bs_ok (insert_ready remaining ready)"
proof (induction remaining arbitrary: ready)
  case (Cons p remaining)
  then show ?case
    by (cases p) (simp add: Cons.IH)
qed simp

text \<open>The state of the loop after some names have been emitted.\<close>

definition order_inv ::
  "(string \<Rightarrow> string set) \<Rightarrow> string set \<Rightarrow> string list \<Rightarrow> (string, string list) btree \<Rightarrow> string list \<Rightarrow> bool"
where
  "order_inv deps keys ready remaining ordered \<longleftrightarrow>
     distinct ordered \<and> distinct (map fst remaining) \<and> set ordered \<inter> fst ` set remaining = {}
     \<and> set ordered \<union> fst ` set remaining = keys
     \<and> (\<forall>c ds. (c, ds) \<in> set remaining \<longrightarrow> set ds = deps c - set ordered)
     \<and> set ready = {c. (c, []) \<in> set remaining} \<and> bs_ok ready
     \<and> follows_deps {(d, n). d \<in> deps n} ordered"

lemma drop_dependency_iff:
  "(c, ds') \<in> set (drop_dependency name remaining) \<longleftrightarrow>
     c \<noteq> name \<and> (\<exists>ds. (c, ds) \<in> set remaining \<and> ds' = bs_remove name ds)"
  by (induction remaining) (auto simp: drop_dependency_def bt_remove_def)

lemma order_inv_step:
  assumes inv: "order_inv deps keys (name # ready) remaining ordered"
  defines "remaining' \<equiv> drop_dependency name remaining"
  shows "order_inv deps keys (insert_ready remaining' ready) remaining' (ordered @ [name])"
proof -
  have I: "distinct ordered" "distinct (map fst remaining)" "set ordered \<inter> fst ` set remaining = {}"
    "set ordered \<union> fst ` set remaining = keys" "follows_deps {(d, n). d \<in> deps n} ordered"
    "set (name # ready) = {c. (c, []) \<in> set remaining}" "bs_ok (name # ready)"
    using inv by (simp_all add: order_inv_def)
  have deps: "set ds = deps c - set ordered" if "(c, ds) \<in> set remaining" for c ds
    using inv that by (simp add: order_inv_def)
  have mem: "(c, ds') \<in> set remaining' \<longleftrightarrow> c \<noteq> name \<and> (\<exists>ds. (c, ds) \<in> set remaining \<and> ds' = bs_remove name ds)" for c ds'
    by (simp add: remaining'_def drop_dependency_iff)
  have keys': "fst ` set remaining' = fst ` set remaining - {name}"
    using arg_cong [OF fst_drop_dependency [of name remaining], of set] by (auto simp: remaining'_def)
  have name: "(name, []) \<in> set remaining"
    using I(6) by auto
  then have name_key: "name \<in> fst ` set remaining"
    by force
  have new_ready: "set (insert_ready remaining' ready) = {c. (c, []) \<in> set remaining'}"
  proof -
    have "(c, []) \<in> set remaining'" if "c \<in> set ready" for c
    proof -
      have "(c, []) \<in> set remaining"
        using that I(6) by auto
      moreover have "c \<noteq> name"
        using that I(7) by auto
      ultimately show ?thesis
        by (auto simp: mem bs_remove_def)
    qed
    then show ?thesis
      by (auto simp: set_insert_ready)
  qed
  have new_ok: "bs_ok (insert_ready remaining' ready)"
    using I(7) by (intro bs_ok_insert_ready) simp
  have new_dist: "distinct (map fst remaining')"
    using I(2) by (simp add: remaining'_def fst_drop_dependency)
  have new_follows: "follows_deps {(d, n). d \<in> deps n} (ordered @ [name])"
    using deps [OF name] by (intro follows_deps_snoc [OF I(5)]) auto
  have new_deps: "\<forall>c ds. (c, ds) \<in> set remaining' \<longrightarrow> set ds = deps c - set (ordered @ [name])"
    using deps unfolding mem by auto
  have new_ordered: "distinct (ordered @ [name])"
    using I(1,3) name_key by auto
  have new_disj: "set (ordered @ [name]) \<inter> fst ` set remaining' = {}"
    using I(3) unfolding keys' by auto
  have new_all: "set (ordered @ [name]) \<union> fst ` set remaining' = keys"
    using I(4) name_key unfolding keys' by auto
  show ?thesis
    unfolding order_inv_def using new_ready new_ok new_dist new_follows new_deps new_ordered new_disj new_all by blast
qed

lemma order_ready_result:
  assumes "order_inv deps keys ready remaining ordered"
  shows "\<exists>remaining'. order_inv deps keys [] remaining' (order_ready ready remaining ordered)"
  using assms
proof (induction ready remaining ordered rule: order_ready.induct)
  case (2 name ready remaining ordered)
  then show ?case
    using order_inv_step by (simp add: Let_def)
qed auto

lemma finite_acyclic_minimal:
  assumes "acyclic r" and "finite S" and "S \<noteq> {}"
  shows "\<exists>x \<in> S. \<forall>d. (d, x) \<in> r \<longrightarrow> d \<notin> S"
proof -
  let ?r = "r \<inter> S \<times> S"
  have "finite ?r"
    by (rule finite_subset [of _ "S \<times> S"]) (simp_all add: assms(2))
  moreover have "acyclic ?r"
    by (rule acyclic_subset [OF assms(1)]) simp
  ultimately have "wf ?r"
    by (rule finite_acyclic_wf)
  moreover obtain z where "z \<in> S"
    using assms(3) by blast
  ultimately obtain x where "x \<in> S" "\<And>d. (d, x) \<in> ?r \<Longrightarrow> d \<notin> S"
    using wfE_min [of ?r z S] by metis
  then show ?thesis
    by blast
qed

lemma unknown_dependency_None:
  assumes "bt_ok phases"
  shows "unknown_dependency phases = None \<longleftrightarrow> Domain (dependencies phases) \<subseteq> fst ` set phases"
proof -
  have "Domain (dependencies phases) = set (concat (map (\<lambda>(_, node). pn_depends_on node) phases))"
    by (auto simp: dependencies_def bt_get_iff [OF assms])
  then show ?thesis
    unfolding unknown_dependency_def find_None_iff map_of_eq_None_iff by blast
qed

text \<open>
  The order exists exactly when every dependency is registered and there is no cycle; then it lists
  every phase once, behind all its dependencies.
\<close>

lemma ordered_phase_names_spec:
  assumes ok: "bt_ok phases"
  shows "is_ok (ordered_phase_names phases) \<longleftrightarrow>
      Domain (dependencies phases) \<subseteq> fst ` set phases \<and> acyclic (dependencies phases)"
    and "ordered_phase_names phases = Inr xs \<Longrightarrow>
      distinct xs \<and> set xs = fst ` set phases \<and> follows_deps (dependencies phases) xs"
proof -
  define deps where "deps c = {d. (d, c) \<in> dependencies phases}" for c
  define remaining where "remaining = map (\<lambda>(name, node). (name, pn_depends_on node)) phases"
  define ready where "ready = List.map_filter (\<lambda>(name, ds). if ds = [] then Some name else None) remaining"
  let ?keys = "fst ` set phases"
  have rel: "{(d, n). d \<in> deps n} = dependencies phases"
    by (simp add: deps_def)
  have keys: "map fst remaining = map fst phases"
    by (simp add: remaining_def comp_def case_prod_beta)
  have ds: "set ds = deps c" if "(c, ds) \<in> set remaining" for c ds
    using that by (auto simp: remaining_def deps_def dependencies_def bt_get_iff [OF ok])
      (metis bt_get_iff ok option.inject)
  have ready_set: "set ready = {c. (c, []) \<in> set remaining}"
    by (auto simp: ready_def set_map_filter split: if_splits) force
  have "bt_ok remaining"
    using ok by (simp add: bt_ok_def keys)
  then have bs: "bs_ok ready"
    unfolding ready_def by (induction remaining) (auto simp: set_map_filter split: if_splits, metis fst_conv)
  have inv: "order_inv deps ?keys ready remaining []"
  proof -
    have "set (map fst remaining) = set (map fst phases)" "distinct (map fst remaining)"
      using bt_ok_distinct [OF ok] by (simp_all only: keys)
    with bs ds ready_set show ?thesis
      by (simp add: order_inv_def follows_deps_def)
  qed
  obtain remaining' where inv': "order_inv deps ?keys [] remaining' (order_ready ready remaining [])"
    using order_ready_result [OF inv] by blast
  define out where "out = order_ready ready remaining []"
  have out: "distinct out" "set out \<union> fst ` set remaining' = ?keys" "set out \<inter> fst ` set remaining' = {}"
    "follows_deps (dependencies phases) out" "\<forall>c. (c, []) \<notin> set remaining'"
    "\<forall>c ds. (c, ds) \<in> set remaining' \<longrightarrow> set ds = deps c - set out"
    using inv' by (auto simp: order_inv_def out_def rel)
  have card: "length phases = card ?keys"
    using distinct_card [OF bt_ok_distinct [OF ok]] by simp
  have full: "length out = length phases \<longleftrightarrow> set out = ?keys"
  proof
    assume "length out = length phases"
    then have "card (set out) = card ?keys"
      using distinct_card [OF out(1)] card by simp
    with out(2) show "set out = ?keys"
      by (intro card_subset_eq) auto
  qed (use distinct_card [OF out(1)] card in simp)
  have eq: "ordered_phase_names phases = (if unknown_dependency phases = None then
      if set out = ?keys then Inr out else Inl ShutdownPhaseCycle else Inl (UnknownShutdownPhase (the (unknown_dependency phases))))"
    using full by (simp add: ordered_phase_names_def Let_def out_def remaining_def ready_def split: option.splits)
  have range: "Range (dependencies phases) \<subseteq> ?keys"
    by (auto simp: dependencies_def dest!: map_of_SomeD) force
  have done_iff: "set out = ?keys \<longleftrightarrow> acyclic (dependencies phases)" if known: "Domain (dependencies phases) \<subseteq> ?keys"
  proof
    assume "set out = ?keys"
    with range show "acyclic (dependencies phases)"
      by (intro follows_deps_acyclic [OF out(4,1)]) simp
  next
    assume acyc: "acyclic (dependencies phases)"
    show "set out = ?keys"
    proof (rule ccontr)
      assume "set out \<noteq> ?keys"
      then have "fst ` set remaining' \<noteq> {}"
        using out(2) by auto
      from finite_acyclic_minimal [OF acyc _ this] obtain c ds where c: "(c, ds) \<in> set remaining'"
        and min: "\<forall>d. (d, c) \<in> dependencies phases \<longrightarrow> d \<notin> fst ` set remaining'"
        by auto
      have "d \<in> set out" if "(d, c) \<in> dependencies phases" for d
        using that min known out(2) by blast
      then have "set ds = {}"
        using out(6) c by (auto simp: deps_def)
      with c out(5) show False
        by simp
    qed
  qed
  show "is_ok (ordered_phase_names phases) \<longleftrightarrow> Domain (dependencies phases) \<subseteq> ?keys \<and> acyclic (dependencies phases)"
    unfolding eq using done_iff unknown_dependency_None [OF ok] by auto
  show "distinct xs \<and> set xs = ?keys \<and> follows_deps (dependencies phases) xs" if "ordered_phase_names phases = Inr xs"
    using that out(1,4) unfolding eq by (auto split: if_splits)
qed

section \<open>Registries\<close>

definition registry_ok :: "registry \<Rightarrow> bool" where
  "registry_ok rg \<longleftrightarrow> bt_ok (rg_phases rg)
     \<and> (\<forall>n node. map_of (rg_phases rg) n = Some node \<longrightarrow> pn_phase node = n \<and> bs_ok (pn_depends_on node))
     \<and> is_ok (ordered_phase_names (rg_phases rg))"

lemma registry_ok_deps:
  "registry_ok rg \<Longrightarrow> Domain (dependencies (rg_phases rg)) \<subseteq> fst ` set (rg_phases rg) \<and> acyclic (dependencies (rg_phases rg))"
  using ordered_phase_names_spec(1) [of "rg_phases rg"] by (simp add: registry_ok_def)

text \<open>The built-in phases run in the order of their declaration.\<close>

lemma built_in_order: "ordered_phase_names (rg_phases (registry_new settings)) = Inr built_in_phases"
proof -
  have "ordered_phase_names (rg_phases (registry_new shutdown_settings_new)) = Inr built_in_phases"
    by code_simp
  then show ?thesis
    by (simp add: registry_new_def)
qed

lemma registry_new_phases:
  assumes "map_of (rg_phases (registry_new settings)) n = Some node"
  shows "\<exists>i < length built_in_phases. n = built_in_phases ! i \<and> node = built_in_node i"
proof -
  have step: "map_of (foldl (\<lambda>phases index. bt_insert (built_in_phases ! index) (built_in_node index) phases) m is) n = Some node
      \<Longrightarrow> map_of m n = Some node \<or> (\<exists>i \<in> set is. n = built_in_phases ! i \<and> node = built_in_node i)" for m "is"
  proof (induction "is" arbitrary: m)
    case (Cons i "is")
    then show ?case
      using Cons.IH [of "bt_insert (built_in_phases ! i) (built_in_node i) m"] by (cases "n = built_in_phases ! i") auto
  qed simp
  from step [of "[]" "[0..<length built_in_phases]"] assms show ?thesis
    by (auto simp: registry_new_def)
qed

lemma registry_new_ok: "registry_ok (registry_new settings)"
proof -
  have "bt_ok m \<Longrightarrow> bt_ok (foldl (\<lambda>phases index. bt_insert (built_in_phases ! index) (built_in_node index) phases) m is)" for m "is"
    by (induction "is" arbitrary: m) auto
  then have "bt_ok (rg_phases (registry_new settings))"
    by (simp add: registry_new_def)
  moreover have "pn_phase node = n \<and> bs_ok (pn_depends_on node)" if "map_of (rg_phases (registry_new settings)) n = Some node" for n node
    using registry_new_phases [OF that] by (auto simp: built_in_node_def)
  ultimately show ?thesis
    by (auto simp: registry_ok_def built_in_order)
qed

lemma registry_okI:
  assumes "bt_ok (rg_phases rg)"
    and "\<And>n node. map_of (rg_phases rg) n = Some node \<Longrightarrow> pn_phase node = n \<and> bs_ok (pn_depends_on node)"
    and "Domain (dependencies (rg_phases rg)) \<subseteq> dom (map_of (rg_phases rg))" and "acyclic (dependencies (rg_phases rg))"
  shows "registry_ok rg"
  using assms ordered_phase_names_spec(1) [of "rg_phases rg"] by (simp add: registry_ok_def dom_map_of_conv_image_fst)

lemma registry_okD:
  assumes "registry_ok rg"
  shows "bt_ok (rg_phases rg)" and "map_of (rg_phases rg) n = Some node \<Longrightarrow> pn_phase node = n \<and> bs_ok (pn_depends_on node)"
    and "Domain (dependencies (rg_phases rg)) \<subseteq> dom (map_of (rg_phases rg))" and "acyclic (dependencies (rg_phases rg))"
  using assms registry_ok_deps [OF assms] by (simp_all add: registry_ok_def dom_map_of_conv_image_fst)

lemma dependencies_insert:
  "map_of phases n = None \<Longrightarrow>
     dependencies (bt_insert n node phases) = dependencies phases \<union> {(d, n) | d. d \<in> set (pn_depends_on node)}"
  by (auto simp: dependencies_def split: if_splits)

lemma dependencies_adjust:
  "map_of phases n = Some node \<Longrightarrow>
     dependencies (bt_adjust n (\<lambda>x. x\<lparr>pn_depends_on := bs_insert d (pn_depends_on x)\<rparr>) phases) = insert (d, n) (dependencies phases)"
  by (auto simp: dependencies_def split: if_splits)

lemma range_dependencies: "Range (dependencies phases) \<subseteq> dom (map_of phases)"
  by (auto simp: dependencies_def)

lemma new_phase_Inr:
  assumes "new_phase rg name anchor = Inr phase"
  shows "rg_run_state rg = NotStarted" and "map_of (rg_phases rg) anchor \<noteq> None" and "map_of (rg_phases rg) phase = None"
    and "phase \<noteq> anchor"
  using assms
  by (auto simp: new_phase_def ensure_not_started_def ensure_phase_exists_def ensure_phase_absent_def
    split: sum.splits if_splits)

lemma add_phase_after_ok:
  assumes ok: "registry_ok rg" and run: "add_phase_after rg name after = (r, rg')"
  shows "registry_ok rg' \<and> dependencies (rg_phases rg) \<subseteq> dependencies (rg_phases rg') \<and> (\<not> is_ok r \<longrightarrow> rg' = rg)"
proof (cases "new_phase rg name after")
  case (Inl e)
  with run ok show ?thesis by (auto simp: add_phase_after_def)
next
  case (Inr phase)
  note np = new_phase_Inr [OF Inr] and okD = registry_okD [OF ok]
  let ?node = "\<lparr>pn_phase = phase, pn_depends_on = [after]\<rparr>"
  have phases: "rg_phases rg' = bt_insert phase ?node (rg_phases rg)" and r: "is_ok r"
    using run by (auto simp add: add_phase_after_def Inr)
  have deps: "dependencies (rg_phases rg') = insert (after, phase) (dependencies (rg_phases rg))"
    using dependencies_insert [OF np(3), of ?node] by (auto simp: phases)
  have fresh: "phase \<notin> Domain (dependencies (rg_phases rg))"
    using okD(3) np(3) by auto
  have "(phase, after) \<notin> (dependencies (rg_phases rg))\<^sup>*"
    using fresh np(4) by (auto elim: converse_rtranclE)
  then have "acyclic (dependencies (rg_phases rg'))"
    using okD(4) by (simp add: deps acyclic_insert)
  moreover have "Domain (dependencies (rg_phases rg')) \<subseteq> dom (map_of (rg_phases rg'))"
    unfolding deps using okD(3) np(2) by (auto simp: phases)
  moreover have "pn_phase node = n \<and> bs_ok (pn_depends_on node)" if "map_of (rg_phases rg') n = Some node" for n node
    using that okD(2) [of n node] by (auto simp: phases split: if_splits)
  moreover have "bt_ok (rg_phases rg')"
    using okD(1) by (simp add: phases)
  ultimately show ?thesis
    using registry_okI [of rg'] deps r by auto
qed

lemma add_phase_before_ok:
  assumes ok: "registry_ok rg" and run: "add_phase_before rg name before = (r, rg')"
  shows "registry_ok rg' \<and> dependencies (rg_phases rg) \<subseteq> dependencies (rg_phases rg') \<and> (\<not> is_ok r \<longrightarrow> rg' = rg)"
proof (cases "new_phase rg name before")
  case (Inl e)
  with run ok show ?thesis by (auto simp: add_phase_before_def)
next
  case (Inr phase)
  note np = new_phase_Inr [OF Inr] and okD = registry_okD [OF ok]
  let ?node = "\<lparr>pn_phase = phase, pn_depends_on = []\<rparr>"
  let ?mid = "bt_insert phase ?node (rg_phases rg)"
  have phases: "rg_phases rg' = bt_adjust before (\<lambda>n. n\<lparr>pn_depends_on := bs_insert phase (pn_depends_on n)\<rparr>) ?mid"
    and r: "is_ok r"
    using run by (auto simp add: add_phase_before_def Inr)
  obtain b where b: "map_of ?mid before = Some b"
    using np(2,4) by auto
  have deps: "dependencies (rg_phases rg') = insert (phase, before) (dependencies (rg_phases rg))"
    unfolding phases dependencies_adjust [OF b] using dependencies_insert [OF np(3), of ?node] by auto
  have fresh: "phase \<notin> Range (dependencies (rg_phases rg))"
    using range_dependencies [of "rg_phases rg"] np(3) by auto
  have "(before, phase) \<notin> (dependencies (rg_phases rg))\<^sup>*"
    using fresh np(4) by (auto elim: rtranclE)
  then have "acyclic (dependencies (rg_phases rg'))"
    using okD(4) by (simp add: deps acyclic_insert)
  moreover have "Domain (dependencies (rg_phases rg')) \<subseteq> dom (map_of (rg_phases rg'))"
    unfolding deps using okD(3) np(2) by (auto simp: phases)
  moreover have "pn_phase node = n \<and> bs_ok (pn_depends_on node)" if "map_of (rg_phases rg') n = Some node" for n node
    using that okD(2) [of n] by (auto simp: phases split: if_splits)
  moreover have "bt_ok (rg_phases rg')"
    using okD(1) by (simp add: phases)
  ultimately show ?thesis
    using registry_okI [of rg'] deps r by auto
qed

lemma bt_adjust_id: "(\<And>v. map_of m k = Some v \<Longrightarrow> f v = v) \<Longrightarrow> bt_ok m \<Longrightarrow> bt_adjust k f m = m"
  by (rule bt_ext) (auto simp: fun_eq_iff, cases "map_of m k", auto)

lemma bs_insert_present: "bs_ok xs \<Longrightarrow> x \<in> set xs \<Longrightarrow> bs_insert x xs = xs"
  by (induction x xs rule: bs_insert.induct) auto

lemma bs_remove_insert: "x \<notin> set xs \<Longrightarrow> bs_remove x (bs_insert x xs) = xs"
  by (induction x xs rule: bs_insert.induct) (auto simp: bs_remove_def filter_id_conv)

lemma bt_adjust_twice: "bt_adjust k g (bt_adjust k f m) = bt_adjust k (g \<circ> f) m"
  by (induction m) (auto simp: bt_adjust_def)

lemma add_phase_dependency_ok:
  assumes ok: "registry_ok rg" and run: "add_phase_dependency rg phase d = (r, rg')"
  shows "registry_ok rg' \<and> dependencies (rg_phases rg) \<subseteq> dependencies (rg_phases rg') \<and> (\<not> is_ok r \<longrightarrow> rg' = rg)"
proof (cases "rg_run_state rg = NotStarted \<and> map_of (rg_phases rg) phase \<noteq> None \<and> map_of (rg_phases rg) d \<noteq> None")
  case False
  then have "rg' = rg" "\<not> is_ok r"
    using run by (auto simp: add_phase_dependency_def ensure_not_started_def ensure_phase_exists_def split: if_splits)
  with ok show ?thesis by simp
next
  case True
  then obtain node where node: "map_of (rg_phases rg) phase = Some node"
    by blast
  note okD = registry_okD [OF ok]
  define phases where "phases = bt_adjust phase (\<lambda>n. n\<lparr>pn_depends_on := bs_insert d (pn_depends_on n)\<rparr>) (rg_phases rg)"
  have deps: "dependencies phases = insert (d, phase) (dependencies (rg_phases rg))"
    unfolding phases_def by (rule dependencies_adjust [OF node])
  have step: "(r, rg') = (case ordered_phase_names phases of
      Inr _ \<Rightarrow> (Inr (), rg\<lparr>rg_phases := phases\<rparr>)
    | Inl e \<Rightarrow> (Inl e, rg\<lparr>rg_phases := (if d \<notin> set (pn_depends_on node)
        then bt_adjust phase (\<lambda>n. n\<lparr>pn_depends_on := bs_remove d (pn_depends_on n)\<rparr>) phases else phases)\<rparr>))"
    using run True node
    by (cases "ordered_phase_names phases")
      (auto simp add: add_phase_dependency_def ensure_not_started_def ensure_phase_exists_def phases_def Let_def)
  show ?thesis
  proof (cases "ordered_phase_names phases")
    case (Inr xs)
    with step have rg': "rg' = rg\<lparr>rg_phases := phases\<rparr>" and "is_ok r"
      by auto
    moreover have "pn_phase x = n \<and> bs_ok (pn_depends_on x)" if "map_of phases n = Some x" for n x
      using that okD(2) [of n] by (auto simp: phases_def split: if_splits)
    moreover have "bt_ok phases"
      using okD(1) by (simp add: phases_def)
    ultimately show ?thesis
      using Inr deps by (auto simp: registry_ok_def)
  next
    case (Inl e)
    have bs: "bs_ok (pn_depends_on node)"
      using okD(2) [OF node] by simp
    have "rg_phases rg' = rg_phases rg"
    proof (cases "d \<in> set (pn_depends_on node)")
      case True
      then have "phases = rg_phases rg"
        unfolding phases_def using node bs by (intro bt_adjust_id okD(1)) (simp add: bs_insert_present)
      with step Inl True show ?thesis by simp
    next
      case False
      then have "bt_adjust phase (\<lambda>n. n\<lparr>pn_depends_on := bs_remove d (pn_depends_on n)\<rparr>) phases = rg_phases rg"
        unfolding phases_def bt_adjust_twice using node
        by (intro bt_adjust_id okD(1)) (simp add: bs_remove_insert)
      with step Inl False show ?thesis by simp
    qed
    moreover have "rg' = rg\<lparr>rg_phases := rg_phases rg'\<rparr>" "\<not> is_ok r"
      using step Inl by auto
    ultimately show ?thesis
      using ok by simp
  qed
qed

lemma add_task_ok:
  assumes "registry_ok rg" and "add_task rg phase name options run = (r, rg')"
  shows "registry_ok rg' \<and> rg_phases rg' = rg_phases rg"
proof -
  have "rg_phases rg' = rg_phases rg"
    using assms(2) by (auto simp: add_task_def Let_def split: sum.splits if_splits)
  with assms(1) show ?thesis
    by (simp add: registry_ok_def)
qed

text \<open>The registries that the public operations can build.\<close>

inductive registry_built :: "registry \<Rightarrow> bool" where
  built_new: "registry_built (registry_new settings)"
| built_after: "registry_built rg \<Longrightarrow> add_phase_after rg name after = (r, rg') \<Longrightarrow> registry_built rg'"
| built_before: "registry_built rg \<Longrightarrow> add_phase_before rg name before = (r, rg') \<Longrightarrow> registry_built rg'"
| built_dependency: "registry_built rg \<Longrightarrow> add_phase_dependency rg phase d = (q, rg') \<Longrightarrow> registry_built rg'"
| built_task: "registry_built rg \<Longrightarrow> add_task rg phase name options run = (t, rg') \<Longrightarrow> registry_built rg'"

lemma registry_built_ok:
  assumes "registry_built rg"
  shows "registry_ok rg \<and> dependencies (rg_phases (registry_new shutdown_settings_new)) \<subseteq> dependencies (rg_phases rg)"
  using assms
proof induction
  case (built_new settings)
  then show ?case
    using registry_new_ok [of settings] by (simp add: registry_new_def)
next
  case (built_after rg name after r rg')
  then show ?case using add_phase_after_ok [of rg name after r rg'] by blast
next
  case (built_before rg name before r rg')
  then show ?case using add_phase_before_ok [of rg name before r rg'] by blast
next
  case (built_dependency rg phase d q rg')
  then show ?case using add_phase_dependency_ok [of rg phase d q rg'] by blast
next
  case (built_task rg phase name options run t rg')
  then show ?case using add_task_ok [of rg phase name options run t rg'] by simp
qed

section \<open>The built-in phases keep their order\<close>

lemma follows_deps_snoc_iff:
  "follows_deps r (xs @ [x]) \<longleftrightarrow> follows_deps r xs \<and> (\<forall>d. (d, x) \<in> r \<longrightarrow> d \<in> set xs)"
proof
  assume L: "follows_deps r (xs @ [x])"
  have D: "d \<in> set (take i (xs @ [x]))" if "i < length (xs @ [x])" "(d, (xs @ [x]) ! i) \<in> r" for i d
    using L that unfolding follows_deps_def by blast
  have "d \<in> set (take i xs)" if "i < length xs" "(d, xs ! i) \<in> r" for i d
    using D [of i d] that by (simp add: nth_append)
  moreover have "d \<in> set xs" if "(d, x) \<in> r" for d
    using D [of "length xs" d] that by simp
  ultimately show "follows_deps r xs \<and> (\<forall>d. (d, x) \<in> r \<longrightarrow> d \<in> set xs)"
    unfolding follows_deps_def by blast
next
  assume "follows_deps r xs \<and> (\<forall>d. (d, x) \<in> r \<longrightarrow> d \<in> set xs)"
  then show "follows_deps r (xs @ [x])"
    by (intro follows_deps_snoc) simp_all
qed

lemma follows_deps_filter:
  assumes "follows_deps r xs" and "q \<subseteq> r" and "Domain q \<subseteq> {x. P x}"
  shows "follows_deps q (filter P xs)"
  using assms(1)
proof (induction xs rule: rev_induct)
  case (snoc x xs)
  then have IH: "follows_deps q (filter P xs)" and D: "\<forall>d. (d, x) \<in> r \<longrightarrow> d \<in> set xs"
    by (simp_all add: follows_deps_snoc_iff)
  have "d \<in> set (filter P xs)" if "(d, x) \<in> q" for d
    using that D assms(2,3) by auto
  with IH show ?case
    by (simp add: follows_deps_snoc_iff)
qed (simp add: follows_deps_def)

lemma chain_unique:
  assumes "distinct bs" and "distinct ys" and "set ys = set bs"
    and "follows_deps {(bs ! i, bs ! Suc i) | i. Suc i < length bs} ys"
  shows "ys = bs"
proof -
  have len: "length ys = length bs"
    using distinct_card [OF assms(1)] distinct_card [OF assms(2)] assms(3) by simp
  let ?R = "{(bs ! i, bs ! Suc i) | i. Suc i < length bs}"
  have F: "d \<in> set (take i ys)" if "i < length ys" "(d, ys ! i) \<in> ?R" for i d
    using assms(4) that unfolding follows_deps_def by blast
  have "ys ! i = bs ! i" if "i < length bs" for i
    using that
  proof (induction i rule: less_induct)
    case (less i)
    have "ys ! i \<in> set bs"
      using less.prems len assms(3) nth_mem [of i ys] by simp
    then obtain k where k: "k < length bs" "bs ! k = ys ! i"
      by (auto simp: in_set_conv_nth)
    have "i \<le> k"
    proof (rule ccontr)
      assume "\<not> i \<le> k"
      then have "ys ! k = ys ! i" "k < i"
        using less.IH [of k] k by simp_all
      then show False
        using assms(2) len less.prems by (simp add: nth_eq_iff_index_eq)
    qed
    show ?case
    proof (cases k)
      case (Suc j)
      have "(bs ! j, bs ! k) \<in> ?R"
        using k(1) Suc by blast
      then have "bs ! j \<in> set (take i ys)"
        using F [of i "bs ! j"] less.prems len k(2) by simp
      then obtain l where l: "l < i" "ys ! l = bs ! j"
        using len less.prems by (auto simp: in_set_conv_nth)
      then have "bs ! l = bs ! j"
        using less.IH [of l] less.prems by simp
      then have "l = j"
        using assms(1) l(1) less.prems Suc k(1) by (simp add: nth_eq_iff_index_eq)
      with l(1) \<open>i \<le> k\<close> Suc k(2) show ?thesis
        by (simp add: le_Suc_eq)
    qed (use \<open>i \<le> k\<close> k in simp)
  qed
  with len show ?thesis
    by (simp add: list_eq_iff_nth_eq)
qed

lemma built_in_distinct: "distinct built_in_phases"
  by (simp add: built_in_phases_def)

lemma built_in_lookup:
  "i < length built_in_phases \<Longrightarrow> map_of (rg_phases (registry_new settings)) (built_in_phases ! i) = Some (built_in_node i)"
proof -
  assume i: "i < length built_in_phases"
  have "set built_in_phases = fst ` set (rg_phases (registry_new settings))"
    using ordered_phase_names_spec(2) [OF registry_okD(1) [OF registry_new_ok] built_in_order] by blast
  then have "built_in_phases ! i \<in> dom (map_of (rg_phases (registry_new settings)))"
    using i by (metis dom_map_of_conv_image_fst nth_mem)
  then obtain node where node: "map_of (rg_phases (registry_new settings)) (built_in_phases ! i) = Some node"
    by blast
  obtain j where "j < length built_in_phases" "built_in_phases ! i = built_in_phases ! j" "node = built_in_node j"
    using registry_new_phases [OF node] by blast
  moreover from this have "i = j"
    using i built_in_distinct by (simp add: nth_eq_iff_index_eq)
  ultimately show ?thesis
    using node by simp
qed

lemma built_in_chain:
  "{(built_in_phases ! i, built_in_phases ! Suc i) | i. Suc i < length built_in_phases}
     \<subseteq> dependencies (rg_phases (registry_new settings))"
proof clarify
  fix i assume "Suc i < length built_in_phases"
  from built_in_lookup [OF this] show "(built_in_phases ! i, built_in_phases ! Suc i) \<in> dependencies (rg_phases (registry_new settings))"
    by (simp add: dependencies_def built_in_node_def)
qed

section \<open>Properties\<close>

text \<open>C18: Every registry built through the public operations has a phase order: it lists each
  registered phase exactly once and behind all its dependencies, so a shutdown can always start.
  The built-in phases keep their declared relative order in it, whatever custom phases and
  dependencies have been added.\<close>

theorem shutdown_order_sound:
  assumes "registry_built rg"
  shows "\<exists>xs. ordered_phase_names (rg_phases rg) = Inr xs \<and> distinct xs \<and> set xs = dom (map_of (rg_phases rg))
    \<and> follows_deps (dependencies (rg_phases rg)) xs
    \<and> filter (\<lambda>x. x \<in> set built_in_phases) xs = built_in_phases"
proof -
  note built = registry_built_ok [OF assms]
  then obtain xs where xs: "ordered_phase_names (rg_phases rg) = Inr xs"
    by (cases "ordered_phase_names (rg_phases rg)") (auto simp: registry_ok_def)
  have spec: "distinct xs" "set xs = dom (map_of (rg_phases rg))" "follows_deps (dependencies (rg_phases rg)) xs"
    using ordered_phase_names_spec(2) [OF _ xs] built by (simp_all add: registry_ok_def dom_map_of_conv_image_fst)
  let ?chain = "{(built_in_phases ! i, built_in_phases ! Suc i) | i. Suc i < length built_in_phases}"
  have sub: "?chain \<subseteq> dependencies (rg_phases rg)"
    using built built_in_chain by blast
  have edge: "(built_in_phases ! i, built_in_phases ! Suc i) \<in> dependencies (rg_phases rg)" if "Suc i < length built_in_phases" for i
    using sub that by blast
  have "built_in_phases ! i \<in> set xs" if i: "i < length built_in_phases" for i
  proof (cases "Suc i < length built_in_phases")
    case True
    from edge [OF this] show ?thesis
      using registry_okD(3) [of rg] built spec(2) by blast
  next
    case False
    with i obtain j where j: "i = Suc j"
      by (cases i) (simp_all add: built_in_phases_def)
    from edge [of j] show ?thesis
      using range_dependencies [of "rg_phases rg"] spec(2) i j by blast
  qed
  then have "set (filter (\<lambda>x. x \<in> set built_in_phases) xs) = set built_in_phases"
    by (auto simp: in_set_conv_nth)
  moreover have "follows_deps ?chain (filter (\<lambda>x. x \<in> set built_in_phases) xs)"
    by (rule follows_deps_filter [OF spec(3) sub]) auto
  ultimately have "filter (\<lambda>x. x \<in> set built_in_phases) xs = built_in_phases"
    using chain_unique [OF built_in_distinct] spec(1) by simp
  with xs spec show ?thesis
    by blast
qed


definition sample_registry :: registry where
  "sample_registry = snd (add_phase_dependency (snd (add_phase_before (snd (add_phase_after
     (registry_new shutdown_settings_new) ''flush-audit'' ''leave-cluster'')) ''warn-users'' ''stop-ingress''))
     ''stop-user-actors'' ''flush-audit'')"

lemma sample_registry_built: "registry_built sample_registry"
  unfolding sample_registry_def
  by (rule built_dependency [OF built_before [OF built_after [OF built_new]]]) (rule prod.collapse [symmetric])+

theorem shutdown_order_sound_witness:
  "\<exists>xs. ordered_phase_names (rg_phases sample_registry) = Inr xs \<and> distinct xs
    \<and> set xs = dom (map_of (rg_phases sample_registry))
    \<and> follows_deps (dependencies (rg_phases sample_registry)) xs
    \<and> filter (\<lambda>x. x \<in> set built_in_phases) xs = built_in_phases"
  by (rule shutdown_order_sound [OF sample_registry_built])

end
