(* ===== verification/Shutdown_Run.thy ===== *)
theory Shutdown_Run
  imports Shutdown_Registry
begin

text \<open>
  The execution of a shutdown plan (\<open>execute_shutdown_plan\<close> and its helpers in
  \<open>crates/rakka-core/src/coordinated_shutdown.rs\<close>). Time is explicit: a run starts at an instant and
  advances only while a task is awaited; a task that never finishes and has no deadline makes the
  run not return, which is \<open>None\<close>. The progress cell that snapshots read is the list of the values
  written to it, oldest first. The calls a run makes to the tasks' closures are kept as a trace, each with its instant,
  its context and what the task does with it. Metrics are left out.
\<close>

section \<open>Deadlines and outcomes\<close>

definition min_deadline :: "instant option \<Rightarrow> instant option \<Rightarrow> instant option" where
  "min_deadline left right =
     (case (left, right) of
        (Some l, Some r) \<Rightarrow> Some (min l r)
      | (Some d, None) \<Rightarrow> Some d
      | (None, Some d) \<Rightarrow> Some d
      | (None, None) \<Rightarrow> None)"

definition deadline_elapsed :: "instant option \<Rightarrow> instant \<Rightarrow> bool" where
  "deadline_elapsed deadline now \<longleftrightarrow> (case deadline of None \<Rightarrow> False | Some d \<Rightarrow> d \<le> now)"

definition task_deadline :: "shutdown_settings \<Rightarrow> task_entry \<Rightarrow> instant option \<Rightarrow> instant \<Rightarrow> instant option" where
  "task_deadline settings task phase_deadline now =
     (let task_timeout = (case to_timeout (tk_options (en_descriptor task)) of
            Some t \<Rightarrow> Some t | None \<Rightarrow> sh_default_task_timeout settings)
      in min_deadline phase_deadline (map_option (\<lambda>t. now + t) task_timeout))"

fun combine_shutdown_outcome :: "shutdown_outcome \<Rightarrow> shutdown_outcome \<Rightarrow> shutdown_outcome" where
  "combine_shutdown_outcome l r =
     (if l = TimedOut \<or> r = TimedOut then TimedOut
      else if l = Failed \<or> r = Failed then Failed
      else if l = Partial \<or> r = Partial then Partial
      else if l = RunningOutcome \<or> r = RunningOutcome then RunningOutcome
      else if l = NotStartedOutcome then r
      else if r = NotStartedOutcome then l
      else Complete)"

definition report_to_result :: "shutdown_report \<Rightarrow> run_result" where
  "report_to_result report =
     (case rep_outcome report of
        Failed \<Rightarrow> Inl (FailedRun report)
      | TimedOut \<Rightarrow> Inl (TimedOutRun report)
      | _ \<Rightarrow> Inr report)"

section \<open>One task\<close>

datatype task_run_outcome = RunCompleted | RunFailed string | RunTimedOut

definition task_outcome_of :: "(string, unit) result \<Rightarrow> task_run_outcome" where
  "task_outcome_of r = (case r of Inr _ \<Rightarrow> RunCompleted | Inl message \<Rightarrow> RunFailed message)"

text \<open>Awaiting the task, with \<open>timeout_at\<close> when there is a deadline: the outcome and the instant it is known.\<close>

definition await_task :: "task_entry \<Rightarrow> task_context \<Rightarrow> instant option \<Rightarrow> instant \<Rightarrow> (task_run_outcome \<times> instant) option" where
  "await_task task context deadline now =
     (if deadline_elapsed deadline now then Some (RunTimedOut, now)
      else
        (case (en_run task now context, deadline) of
           (Some (d, r), Some t) \<Rightarrow>
             (if now + d \<le> t then Some (task_outcome_of r, now + d) else Some (RunTimedOut, t))
         | (None, Some t) \<Rightarrow> Some (RunTimedOut, t)
         | (Some (d, r), None) \<Rightarrow> Some (task_outcome_of r, now + d)
         | (None, None) \<Rightarrow> None))"

definition task_context_of :: "task_entry \<Rightarrow> string \<Rightarrow> task_context" where
  "task_context_of task reason =
     \<lparr>tc_reason = reason, tc_phase = tk_phase (en_descriptor task), tc_task_name = tk_name (en_descriptor task)\<rparr>"

definition run_shutdown_task :: "task_entry \<Rightarrow> string \<Rightarrow> instant option \<Rightarrow> instant \<Rightarrow> (task_report \<times> instant) option" where
  "run_shutdown_task task reason deadline now =
     (let descriptor = en_descriptor task;
          context = task_context_of task reason
      in
      case await_task task context deadline now of
        None \<Rightarrow> None
      | Some (outcome, end_at) \<Rightarrow>
          Some (\<lparr>tr_phase = tk_phase descriptor, tr_task_name = tk_name descriptor,
             tr_status = (case outcome of
                RunCompleted \<Rightarrow> TaskCompleted | RunFailed _ \<Rightarrow> TaskFailed | RunTimedOut \<Rightarrow> TaskTimedOut),
             tr_duration = Some (end_at - now),
             tr_message = (case outcome of
                RunCompleted \<Rightarrow> None | RunFailed m \<Rightarrow> Some m | RunTimedOut \<Rightarrow> Some ''shutdown task timed out'')\<rparr>,
             end_at))"

text \<open>
  The call \<open>(task.run)(context)\<close> that \<open>run_shutdown_task\<close> makes, if it makes one: its instant, its context, and how long
  the task takes with which result (\<open>None\<close> for a task that never finishes).
\<close>

type_synonym task_call = "instant \<times> task_context \<times> (duration \<times> (string, unit) result) option"

definition task_calls :: "task_entry \<Rightarrow> string \<Rightarrow> instant option \<Rightarrow> instant \<Rightarrow> task_call list" where
  "task_calls task reason deadline now =
     (if deadline_elapsed deadline now then []
      else [(now, task_context_of task reason, en_run task now (task_context_of task reason))])"

section \<open>One phase\<close>

type_synonym progress = "shutdown_phase option \<times> string option"

record phase_run =
  ph_now :: instant
  ph_outcome :: shutdown_outcome
  ph_final :: shutdown_outcome
  ph_stop :: bool
  ph_reports :: "task_report list"
  ph_progress :: "progress list"
  ph_calls :: "task_call list"

definition task_policy :: "shutdown_settings \<Rightarrow> task_entry \<Rightarrow> failure_policy" where
  "task_policy settings task =
     (case to_failure_policy (tk_options (en_descriptor task)) of Some p \<Rightarrow> p | None \<Rightarrow> sh_failure_policy settings)"

definition after_task ::
  "shutdown_settings \<Rightarrow> shutdown_phase \<Rightarrow> instant option \<Rightarrow> task_entry \<Rightarrow> task_report \<Rightarrow> instant \<Rightarrow> phase_run \<Rightarrow> phase_run"
where
  "after_task settings phase phase_deadline task report end_at st =
     (let name = tk_name (en_descriptor task);
          policy = task_policy settings task;
          st = st\<lparr>ph_now := end_at, ph_reports := ph_reports st @ [report],
            ph_progress := ph_progress st @ [(Some phase, Some name), (Some phase, None)]\<rparr>
      in
      case tr_status report of
        TaskFailed \<Rightarrow>
          (if policy = FailFast then st\<lparr>ph_outcome := Failed, ph_stop := True\<rparr>
           else st\<lparr>ph_outcome := combine_shutdown_outcome (ph_outcome st) Partial,
                   ph_final := combine_shutdown_outcome (ph_final st) Partial\<rparr>)
      | TaskTimedOut \<Rightarrow>
          st\<lparr>ph_outcome := combine_shutdown_outcome (ph_outcome st) TimedOut,
             ph_final := combine_shutdown_outcome (ph_final st) TimedOut,
             ph_stop := (policy = FailFast \<or> deadline_elapsed phase_deadline end_at)\<rparr>
      | _ \<Rightarrow> st)"

definition record_calls :: "task_call list \<Rightarrow> phase_run \<Rightarrow> phase_run" where
  "record_calls calls st = st\<lparr>ph_calls := ph_calls st @ calls\<rparr>"

fun run_tasks ::
  "shutdown_settings \<Rightarrow> string \<Rightarrow> shutdown_phase \<Rightarrow> instant option \<Rightarrow> task_entry list \<Rightarrow> phase_run \<Rightarrow> phase_run option"
where
  "run_tasks settings reason phase phase_deadline [] st = Some st"
| "run_tasks settings reason phase phase_deadline (task # tasks) st =
     (if ph_stop st then Some st
      else if deadline_elapsed phase_deadline (ph_now st)
      then Some (st\<lparr>
        ph_reports := ph_reports st @ [\<lparr>tr_phase = phase, tr_task_name = tk_name (en_descriptor task),
          tr_status = TaskTimedOut, tr_duration = Some 0,
          tr_message = Some ''shutdown phase deadline elapsed before task started''\<rparr>],
        ph_progress := ph_progress st @ [(Some phase, Some (tk_name (en_descriptor task)))],
        ph_outcome := TimedOut, ph_stop := True\<rparr>)
      else
        (let deadline = task_deadline settings task phase_deadline (ph_now st) in
         case run_shutdown_task task reason deadline (ph_now st) of
           None \<Rightarrow> None
         | Some (report, end_at) \<Rightarrow>
             run_tasks settings reason phase phase_deadline tasks
               (after_task settings phase phase_deadline task report end_at
                 (record_calls (task_calls task reason deadline (ph_now st)) st))))"

section \<open>The whole plan\<close>

record plan_run =
  pr_now :: instant
  pr_final :: shutdown_outcome
  pr_reports :: "phase_report list"
  pr_progress :: "progress list"
  pr_stopped :: bool
  pr_calls :: "task_call list"

definition plan_tasks :: "execution_plan \<Rightarrow> shutdown_phase \<Rightarrow> task_entry list" where
  "plan_tasks plan phase = (case map_of (pl_tasks plan) phase of Some ts \<Rightarrow> ts | None \<Rightarrow> [])"

definition run_phase :: "execution_plan \<Rightarrow> string \<Rightarrow> instant option \<Rightarrow> shutdown_phase \<Rightarrow> plan_run \<Rightarrow> plan_run option" where
  "run_phase plan reason overall phase st =
     (let phase_start = pr_now st;
          phase_deadline = min_deadline overall
            (map_option (\<lambda>t. phase_start + t) (sh_default_phase_timeout (pl_settings plan)));
          phase_tasks = plan_tasks plan phase;
          late = deadline_elapsed phase_deadline phase_start
      in
      case run_tasks (pl_settings plan) reason phase phase_deadline phase_tasks
          \<lparr>ph_now = phase_start, ph_outcome = (if late then TimedOut else Complete), ph_final = pr_final st,
           ph_stop = late, ph_reports = [], ph_progress = pr_progress st @ [(Some phase, None)], ph_calls = pr_calls st\<rparr> of
        None \<Rightarrow> None
      | Some ph \<Rightarrow>
          let expired = (ph_outcome ph = Complete \<and> deadline_elapsed phase_deadline (ph_now ph));
              outcome = (if expired then TimedOut else ph_outcome ph)
          in Some \<lparr>pr_now = ph_now ph, pr_final = combine_shutdown_outcome (ph_final ph) outcome,
               pr_reports = pr_reports st @ [\<lparr>pr_phase = phase, pr_outcome = outcome,
                 pr_duration = Some (ph_now ph - phase_start), pr_tasks = ph_reports ph\<rparr>],
               pr_progress = ph_progress ph, pr_stopped = (expired \<or> ph_stop ph),
               pr_calls = ph_calls ph\<rparr>)"

fun run_phases :: "execution_plan \<Rightarrow> string \<Rightarrow> instant option \<Rightarrow> shutdown_phase list \<Rightarrow> plan_run \<Rightarrow> plan_run option" where
  "run_phases plan reason overall [] st = Some st"
| "run_phases plan reason overall (phase # phases) st =
     (case run_phase plan reason overall phase st of
        None \<Rightarrow> None
      | Some st' \<Rightarrow> if pr_stopped st' then Some st' else run_phases plan reason overall phases st')"

definition plan_start :: "instant \<Rightarrow> plan_run" where
  "plan_start now = \<lparr>pr_now = now, pr_final = Complete, pr_reports = [], pr_progress = [], pr_stopped = False,
     pr_calls = []\<rparr>"

definition execute_shutdown_plan_inner ::
  "execution_plan \<Rightarrow> string \<Rightarrow> instant option \<Rightarrow> instant \<Rightarrow> (run_result \<times> plan_run) option"
where
  "execute_shutdown_plan_inner plan reason overall now =
     map_option (\<lambda>st. (report_to_result
         \<lparr>rep_reason = reason, rep_outcome = pr_final st, rep_phases = pr_reports st\<rparr>, st))
       (run_phases plan reason overall (pl_phases plan) (plan_start now))"

text \<open>The result, the instant of the return and the values of the progress cell.\<close>

definition execute_shutdown_plan ::
  "execution_plan \<Rightarrow> string \<Rightarrow> instant option \<Rightarrow> instant \<Rightarrow> (run_result \<times> instant \<times> progress list) option"
where
  "execute_shutdown_plan plan reason overall now =
     map_option (\<lambda>(result, st). (result, pr_now st, pr_progress st @ [(None, None)]))
       (execute_shutdown_plan_inner plan reason overall now)"

declare combine_shutdown_outcome.simps [simp del]

section \<open>Deadlines bound the run\<close>

lemma await_task_bounded:
  "\<exists>out e. await_task task context (Some t) now = Some (out, e) \<and> now \<le> e \<and> e \<le> max now t"
  by (auto simp: await_task_def deadline_elapsed_def split: option.splits)

lemma run_shutdown_task_bounded:
  "\<exists>rep e. run_shutdown_task task reason (Some t) now = Some (rep, e) \<and> now \<le> e \<and> e \<le> max now t"
  using await_task_bounded [of task "task_context_of task reason" t now]
  by (auto simp: run_shutdown_task_def Let_def)

lemma min_deadline_Some:
  "\<exists>p \<le> d. min_deadline (Some d) o' = Some p"
  "\<exists>p \<le> d. min_deadline o' (Some d) = Some p"
  by (auto simp: min_deadline_def split: option.splits)

lemma task_deadline_Some: "\<exists>t \<le> p. task_deadline settings task (Some p) now = Some t"
  by (auto simp: task_deadline_def min_deadline_def Let_def split: option.splits)

lemma record_calls_simps [simp]:
  "ph_now (record_calls cs st) = ph_now st" "ph_outcome (record_calls cs st) = ph_outcome st"
  "ph_final (record_calls cs st) = ph_final st" "ph_stop (record_calls cs st) = ph_stop st"
  "ph_reports (record_calls cs st) = ph_reports st" "ph_calls (record_calls cs st) = ph_calls st @ cs"
  by (simp_all add: record_calls_def)

lemma after_task_calls [simp]: "ph_calls (after_task settings phase pd task report e st) = ph_calls st"
  by (simp add: after_task_def Let_def split: task_status.splits)

lemma after_task_now [simp]: "ph_now (after_task settings phase pd task report e st) = e"
  by (simp add: after_task_def Let_def split: task_status.splits)

lemma run_tasks_bounded:
  "\<exists>st'. run_tasks settings reason phase (Some p) tasks st = Some st' \<and> ph_now st \<le> ph_now st' \<and> ph_now st' \<le> max (ph_now st) p"
proof (induction tasks arbitrary: st)
  case (Cons task tasks)
  show ?case
  proof (cases "ph_stop st \<or> deadline_elapsed (Some p) (ph_now st)")
    case True
    then show ?thesis by auto
  next
    case False
    obtain t where t: "t \<le> p" "task_deadline settings task (Some p) (ph_now st) = Some t"
      using task_deadline_Some by blast
    obtain rep e where run: "run_shutdown_task task reason (Some t) (ph_now st) = Some (rep, e)"
      and e: "ph_now st \<le> e" "e \<le> max (ph_now st) t"
      using run_shutdown_task_bounded by blast
    let ?called = "record_calls (task_calls task reason (Some t) (ph_now st)) st"
    obtain st' where st': "run_tasks settings reason phase (Some p) tasks (after_task settings phase (Some p) task rep e ?called) = Some st'"
      "e \<le> ph_now st'" "ph_now st' \<le> max e p"
      using Cons.IH [of "after_task settings phase (Some p) task rep e ?called"] by auto
    have "run_tasks settings reason phase (Some p) (task # tasks) st = Some st'"
      using False t(2) run st'(1) by simp
    with e st'(2,3) t(1) show ?thesis
      by auto
  qed
qed simp

lemma run_phase_bounded:
  assumes "min_deadline overall (map_option (\<lambda>t. pr_now st + t) (sh_default_phase_timeout (pl_settings plan))) = Some p"
  shows "\<exists>st'. run_phase plan reason overall phase st = Some st' \<and> pr_now st \<le> pr_now st' \<and> pr_now st' \<le> max (pr_now st) p"
proof -
  define st0 where "st0 = \<lparr>ph_now = pr_now st, ph_outcome = (if deadline_elapsed (Some p) (pr_now st) then TimedOut else Complete),
    ph_final = pr_final st, ph_stop = deadline_elapsed (Some p) (pr_now st), ph_reports = [],
    ph_progress = pr_progress st @ [(Some phase, None)], ph_calls = pr_calls st\<rparr>"
  obtain ph where "run_tasks (pl_settings plan) reason phase (Some p) (plan_tasks plan phase) st0 = Some ph"
    "ph_now st0 \<le> ph_now ph" "ph_now ph \<le> max (ph_now st0) p"
    using run_tasks_bounded by blast
  then show ?thesis
    using assms by (simp add: run_phase_def Let_def st0_def)
qed

lemma run_phases_overall:
  "\<exists>st'. run_phases plan reason (Some d) phases st = Some st' \<and> pr_now st' \<le> max (pr_now st) d"
proof (induction phases arbitrary: st)
  case (Cons phase phases)
  obtain p where p: "p \<le> d" "min_deadline (Some d) (map_option (\<lambda>t. pr_now st + t) (sh_default_phase_timeout (pl_settings plan))) = Some p"
    using min_deadline_Some(1) by blast
  obtain st1 where st1: "run_phase plan reason (Some d) phase st = Some st1" "pr_now st1 \<le> max (pr_now st) p"
    using run_phase_bounded [OF p(2)] by blast
  obtain st2 where st2: "run_phases plan reason (Some d) phases st1 = Some st2" "pr_now st2 \<le> max (pr_now st1) d"
    using Cons.IH by blast
  with st1 p(1) show ?case
    by (cases "pr_stopped st1") auto
qed simp

lemma run_phases_per_phase:
  assumes "sh_default_phase_timeout (pl_settings plan) = Some q"
  shows "\<exists>st'. run_phases plan reason overall phases st = Some st' \<and> pr_now st' \<le> pr_now st + q * length phases"
proof (induction phases arbitrary: st)
  case (Cons phase phases)
  obtain p where p: "p \<le> pr_now st + q" "min_deadline overall (map_option (\<lambda>t. pr_now st + t) (sh_default_phase_timeout (pl_settings plan))) = Some p"
    using min_deadline_Some(2) [of "pr_now st + q" overall] by (auto simp: assms)
  obtain st1 where st1: "run_phase plan reason overall phase st = Some st1" "pr_now st1 \<le> max (pr_now st) p"
    using run_phase_bounded [OF p(2)] by blast
  obtain st2 where st2: "run_phases plan reason overall phases st1 = Some st2" "pr_now st2 \<le> pr_now st1 + q * length phases"
    using Cons.IH by blast
  with st1 p(1) show ?case
    by (cases "pr_stopped st1") auto
qed simp

section \<open>What the report says\<close>

lemma combine_simps [simp]:
  "combine_shutdown_outcome l TimedOut = TimedOut" "combine_shutdown_outcome TimedOut r = TimedOut"
  "combine_shutdown_outcome l Failed \<in> {Failed, TimedOut}" "combine_shutdown_outcome l Partial \<noteq> Complete"
  "combine_shutdown_outcome Failed r \<in> {Failed, TimedOut}"
  by (auto simp: combine_shutdown_outcome.simps)

definition settled :: "shutdown_outcome \<Rightarrow> bool" where
  "settled out \<longleftrightarrow> out \<in> {Complete, Partial, Failed, TimedOut}"

lemma settled_combine: "settled l \<Longrightarrow> settled r \<Longrightarrow> settled (combine_shutdown_outcome l r)"
  by (auto simp: settled_def combine_shutdown_outcome.simps)

lemma settled_combine_Complete:
  "settled l \<Longrightarrow> settled r \<Longrightarrow> combine_shutdown_outcome l r = Complete \<longleftrightarrow> l = Complete \<and> r = Complete"
  by (auto simp: settled_def combine_shutdown_outcome.simps)

lemma settled_simps [simp]: "settled Complete" "settled Partial" "settled Failed" "settled TimedOut"
  by (simp_all add: settled_def)

lemma run_shutdown_task_report:
  "run_shutdown_task task reason deadline now = Some (rep, e) \<Longrightarrow>
     tr_task_name rep = tk_name (en_descriptor task) \<and> tr_status rep \<in> {TaskCompleted, TaskFailed, TaskTimedOut}"
  by (auto simp: run_shutdown_task_def Let_def split: option.splits prod.splits task_run_outcome.splits)

lemma after_task_reports [simp]: "ph_reports (after_task settings phase pd task report e st) = ph_reports st @ [report]"
  by (simp add: after_task_def Let_def split: task_status.splits)

text \<open>
  The reports of the tasks of a phase: they name the first tasks of the phase in order, a failed
  fail-fast task is the last one run and fails the phase, a stopped phase is failed or timed out,
  and a complete phase ran all its tasks to completion.
\<close>

definition tasks_reported ::
  "shutdown_settings \<Rightarrow> task_entry list \<Rightarrow> task_report list \<Rightarrow> shutdown_outcome \<Rightarrow> bool"
where
  "tasks_reported settings tasks reps outcome \<longleftrightarrow>
     map tr_task_name reps = map (\<lambda>t. tk_name (en_descriptor t)) (take (length reps) tasks)
     \<and> (\<forall>j < length reps. tr_status (reps ! j) = TaskFailed \<and> task_policy settings (tasks ! j) = FailFast
          \<longrightarrow> Suc j = length reps \<and> outcome = Failed)
     \<and> (outcome = Complete \<longrightarrow> length reps = length tasks \<and> (\<forall>r \<in> set reps. tr_status r = TaskCompleted))"

lemma tasks_reported_failed:
  "tasks_reported settings tasks reps outcome \<Longrightarrow> j < length reps \<Longrightarrow> tr_status (reps ! j) = TaskFailed
     \<Longrightarrow> task_policy settings (tasks ! j) = FailFast \<Longrightarrow> Suc j = length reps \<and> outcome = Failed"
  unfolding tasks_reported_def by blast

lemma tasks_reported_Cons:
  assumes "tasks_reported settings tasks reps outcome" and "tr_task_name rep = tk_name (en_descriptor task)"
    and "tr_status rep = TaskFailed \<and> task_policy settings task = FailFast \<Longrightarrow> reps = [] \<and> outcome = Failed"
    and "outcome = Complete \<Longrightarrow> tr_status rep = TaskCompleted"
  shows "tasks_reported settings (task # tasks) (rep # reps) outcome"
proof -
  have names: "map tr_task_name reps = map (\<lambda>t. tk_name (en_descriptor t)) (take (length reps) tasks)"
    and fast: "\<And>j. j < length reps \<Longrightarrow> tr_status (reps ! j) = TaskFailed \<Longrightarrow> task_policy settings (tasks ! j) = FailFast
      \<Longrightarrow> Suc j = length reps \<and> outcome = Failed"
    and all: "outcome = Complete \<Longrightarrow> length reps = length tasks \<and> (\<forall>r \<in> set reps. tr_status r = TaskCompleted)"
    using assms(1) unfolding tasks_reported_def by blast+
  have "Suc j = length (rep # reps) \<and> outcome = Failed" if "j < length (rep # reps)"
    "tr_status ((rep # reps) ! j) = TaskFailed \<and> task_policy settings ((task # tasks) ! j) = FailFast" for j
  proof (cases j)
    case 0
    with that(2) assms(3) show ?thesis by simp
  next
    case (Suc i)
    with that fast [of i] show ?thesis by simp
  qed
  moreover have "outcome = Complete \<longrightarrow> length (rep # reps) = length (task # tasks) \<and> (\<forall>r \<in> set (rep # reps). tr_status r = TaskCompleted)"
    using all assms(4) by simp
  moreover have "map tr_task_name (rep # reps) = map (\<lambda>t. tk_name (en_descriptor t)) (take (length (rep # reps)) (task # tasks))"
    using names assms(2) by simp
  ultimately show ?thesis
    unfolding tasks_reported_def by blast
qed

lemma run_tasks_stopped: "ph_stop st \<Longrightarrow> run_tasks settings reason phase pd tasks st = Some st"
  by (cases tasks) simp_all

lemma run_tasks_reported:
  assumes "run_tasks settings reason phase pd tasks st = Some st'" and "\<not> ph_stop st" and "ph_outcome st \<noteq> Failed"
  shows "\<exists>reps. ph_reports st' = ph_reports st @ reps \<and> tasks_reported settings tasks reps (ph_outcome st')
    \<and> (ph_stop st' \<longrightarrow> ph_outcome st' \<in> {Failed, TimedOut}) \<and> (ph_outcome st' = Failed \<longrightarrow> ph_stop st')
    \<and> (ph_outcome st' = Complete \<longrightarrow> ph_outcome st = Complete \<and> ph_final st' = ph_final st)"
  using assms
proof (induction tasks arbitrary: st)
  case Nil
  then show ?case
    by (auto simp: tasks_reported_def)
next
  case (Cons task tasks)
  show ?case
  proof (cases "deadline_elapsed pd (ph_now st)")
    case True
    then show ?thesis
      using Cons.prems by (auto simp: tasks_reported_def)
  next
    case False
    define called where "called = record_calls (task_calls task reason (task_deadline settings task pd (ph_now st)) (ph_now st)) st"
    obtain rep e where run: "run_shutdown_task task reason (task_deadline settings task pd (ph_now st)) (ph_now st) = Some (rep, e)"
      and rest: "run_tasks settings reason phase pd tasks (after_task settings phase pd task rep e called) = Some st'"
      using False Cons.prems by (auto simp: called_def Let_def split: option.splits)
    define st1 where "st1 = after_task settings phase pd task rep e called"
    have called [simp]: "ph_outcome called = ph_outcome st" "ph_final called = ph_final st" "ph_stop called = ph_stop st"
      "ph_reports called = ph_reports st"
      by (simp_all add: called_def)
    note rep = run_shutdown_task_report [OF run]
    have reports1: "ph_reports st1 = ph_reports st @ [rep]"
      by (simp add: st1_def)
    show ?thesis
    proof (cases "ph_stop st1")
      case True
      then have st': "st' = st1"
        using rest run_tasks_stopped by (auto simp: st1_def)
      have "ph_outcome st1 = (if tr_status rep = TaskFailed then Failed else TimedOut) \<and> tr_status rep \<noteq> TaskCompleted
          \<and> (tr_status rep = TaskFailed \<longrightarrow> ph_outcome st1 = Failed)"
        using True rep Cons.prems(2) by (auto simp: st1_def after_task_def Let_def split: if_splits)
      then show ?thesis
        using rep reports1 True unfolding st' by (auto simp: tasks_reported_def)
    next
      case False
      have out1: "ph_outcome st1 \<noteq> Failed" "tr_status rep = TaskFailed \<Longrightarrow> task_policy settings task \<noteq> FailFast"
        and keep: "ph_outcome st1 = Complete \<Longrightarrow> tr_status rep = TaskCompleted \<and> ph_outcome st = Complete \<and> ph_final st1 = ph_final st"
        using False rep Cons.prems(2,3)
        by (auto simp: st1_def after_task_def Let_def combine_shutdown_outcome.simps split: if_splits)
      obtain reps where reps: "ph_reports st' = ph_reports st1 @ reps" "tasks_reported settings tasks reps (ph_outcome st')"
        "ph_stop st' \<longrightarrow> ph_outcome st' \<in> {Failed, TimedOut}" "ph_outcome st' = Failed \<longrightarrow> ph_stop st'"
        "ph_outcome st' = Complete \<longrightarrow> ph_outcome st1 = Complete \<and> ph_final st' = ph_final st1"
        using Cons.IH [OF rest [folded st1_def] False out1(1)] by blast
      have "tasks_reported settings (task # tasks) (rep # reps) (ph_outcome st')"
        using reps(2,5) rep out1(2) keep by (intro tasks_reported_Cons) auto
      then show ?thesis
        using reps reports1 keep by (intro exI [of _ "rep # reps"]) auto
    qed
  qed
qed

lemma run_tasks_settled:
  "run_tasks settings reason phase pd tasks st = Some st' \<Longrightarrow> settled (ph_outcome st) \<Longrightarrow> settled (ph_final st)
     \<Longrightarrow> settled (ph_outcome st') \<and> settled (ph_final st')"
proof (induction tasks arbitrary: st)
  case (Cons task tasks)
  have "settled (ph_outcome (after_task settings phase pd task rep e (record_calls cs st)))
      \<and> settled (ph_final (after_task settings phase pd task rep e (record_calls cs st)))" for rep e cs
    using Cons.prems(2,3) by (auto simp: after_task_def Let_def settled_combine split: task_status.splits)
  with Cons show ?case
    by (auto simp: Let_def split: if_splits option.splits)
qed simp

lemma run_phase_reported:
  assumes run: "run_phase plan reason overall phase st = Some st'" and "settled (pr_final st)"
  shows "\<exists>pr. pr_reports st' = pr_reports st @ [pr] \<and> pr_phase pr = phase
    \<and> tasks_reported (pl_settings plan) (plan_tasks plan phase) (pr_tasks pr) (pr_outcome pr)
    \<and> (pr_stopped st' \<longrightarrow> pr_outcome pr \<in> {Failed, TimedOut}) \<and> (pr_outcome pr = Failed \<longrightarrow> pr_stopped st')
    \<and> settled (pr_final st') \<and> (pr_outcome pr \<in> {Failed, TimedOut} \<longrightarrow> pr_final st' \<in> {Failed, TimedOut})
    \<and> (pr_final st' = Complete \<longrightarrow> pr_final st = Complete \<and> pr_outcome pr = Complete)"
proof -
  define pd where "pd = min_deadline overall (map_option (\<lambda>t. pr_now st + t) (sh_default_phase_timeout (pl_settings plan)))"
  define late where "late = deadline_elapsed pd (pr_now st)"
  define st0 where "st0 = \<lparr>ph_now = pr_now st, ph_outcome = (if late then TimedOut else Complete), ph_final = pr_final st,
    ph_stop = late, ph_reports = [], ph_progress = pr_progress st @ [(Some phase, None)], ph_calls = pr_calls st\<rparr>"
  obtain ph where ph: "run_tasks (pl_settings plan) reason phase pd (plan_tasks plan phase) st0 = Some ph"
    using run by (auto simp: run_phase_def Let_def pd_def st0_def late_def split: option.splits)
  define expired where "expired = (ph_outcome ph = Complete \<and> deadline_elapsed pd (ph_now ph))"
  define pr where "pr = \<lparr>pr_phase = phase, pr_outcome = (if expired then TimedOut else ph_outcome ph),
    pr_duration = Some (ph_now ph - pr_now st), pr_tasks = ph_reports ph\<rparr>"
  have st': "pr_reports st' = pr_reports st @ [pr]" "pr_stopped st' = (expired \<or> ph_stop ph)"
    "pr_final st' = combine_shutdown_outcome (ph_final ph) (pr_outcome pr)"
    using run ph by (auto simp: run_phase_def Let_def pd_def st0_def late_def expired_def pr_def)
  have settled: "settled (ph_outcome ph)" "settled (ph_final ph)" "settled (pr_outcome pr)"
    using run_tasks_settled [OF ph] assms(2) by (auto simp: st0_def pr_def)
  have core: "tasks_reported (pl_settings plan) (plan_tasks plan phase) (ph_reports ph) (pr_outcome pr)
    \<and> (expired \<or> ph_stop ph \<longrightarrow> pr_outcome pr \<in> {Failed, TimedOut}) \<and> (pr_outcome pr = Failed \<longrightarrow> ph_stop ph)
    \<and> (pr_outcome pr = Complete \<longrightarrow> ph_final ph = pr_final st)"
  proof (cases late)
    case True
    then have "ph = st0"
      using ph run_tasks_stopped [of st0] by (simp add: st0_def)
    with True show ?thesis
      by (auto simp: st0_def pr_def tasks_reported_def)
  next
    case False
    then obtain reps where reps: "ph_reports ph = reps" "tasks_reported (pl_settings plan) (plan_tasks plan phase) reps (ph_outcome ph)"
      "ph_stop ph \<longrightarrow> ph_outcome ph \<in> {Failed, TimedOut}" "ph_outcome ph = Failed \<longrightarrow> ph_stop ph"
      "ph_outcome ph = Complete \<longrightarrow> ph_final ph = pr_final st"
      using run_tasks_reported [OF ph] by (auto simp: st0_def)
    moreover have "tasks_reported (pl_settings plan) (plan_tasks plan phase) reps TimedOut" if expired
      using reps(2) that unfolding tasks_reported_def expired_def by auto
    ultimately show ?thesis
      by (auto simp: pr_def expired_def)
  qed
  have "pr_final st' = Complete \<longrightarrow> pr_final st = Complete \<and> pr_outcome pr = Complete"
    using core settled st'(3) by (auto simp: settled_combine_Complete)
  moreover have "pr_outcome pr \<in> {Failed, TimedOut} \<longrightarrow> pr_final st' \<in> {Failed, TimedOut}"
    using combine_simps(3) [of "ph_final ph"] by (auto simp: st'(3))
  moreover have "settled (pr_final st')"
    using settled by (simp add: st'(3) settled_combine)
  moreover have "pr_phase pr = phase" "pr_tasks pr = ph_reports ph"
    by (simp_all add: pr_def)
  ultimately show ?thesis
    using core st'(1,2) by (intro exI [of _ pr]) simp
qed

text \<open>The phase reports of a run, for a run over the given phases that ends with the given outcome.\<close>

definition phases_reported :: "execution_plan \<Rightarrow> shutdown_phase list \<Rightarrow> phase_report list \<Rightarrow> shutdown_outcome \<Rightarrow> bool" where
  "phases_reported plan phases reps final \<longleftrightarrow>
     map pr_phase reps = take (length reps) phases
     \<and> (\<forall>pr \<in> set reps. tasks_reported (pl_settings plan) (plan_tasks plan (pr_phase pr)) (pr_tasks pr) (pr_outcome pr))
     \<and> (\<forall>k < length reps. pr_outcome (reps ! k) = Failed \<longrightarrow> Suc k = length reps \<and> final \<in> {Failed, TimedOut})
     \<and> (final = Complete \<longrightarrow> length reps = length phases \<and> (\<forall>pr \<in> set reps. pr_outcome pr = Complete))"

lemma run_phases_reported:
  assumes "run_phases plan reason overall phases st = Some st'" and "settled (pr_final st)"
  shows "\<exists>reps. pr_reports st' = pr_reports st @ reps \<and> phases_reported plan phases reps (pr_final st')
    \<and> (pr_final st' = Complete \<longrightarrow> pr_final st = Complete)"
  using assms
proof (induction phases arbitrary: st)
  case Nil
  then show ?case
    by (auto simp: phases_reported_def)
next
  case (Cons phase phases)
  obtain st1 where st1: "run_phase plan reason overall phase st = Some st1"
    using Cons.prems(1) by (auto split: option.splits)
  obtain pr where pr: "pr_reports st1 = pr_reports st @ [pr]" "pr_phase pr = phase"
    "tasks_reported (pl_settings plan) (plan_tasks plan phase) (pr_tasks pr) (pr_outcome pr)"
    "pr_stopped st1 \<longrightarrow> pr_outcome pr \<in> {Failed, TimedOut}" "pr_outcome pr = Failed \<longrightarrow> pr_stopped st1"
    "settled (pr_final st1)" "pr_outcome pr \<in> {Failed, TimedOut} \<longrightarrow> pr_final st1 \<in> {Failed, TimedOut}"
    "pr_final st1 = Complete \<longrightarrow> pr_final st = Complete \<and> pr_outcome pr = Complete"
    using run_phase_reported [OF st1 Cons.prems(2)] by blast
  show ?case
  proof (cases "pr_stopped st1")
    case True
    then have "st' = st1"
      using Cons.prems(1) st1 by simp
    moreover have "phases_reported plan (phase # phases) [pr] (pr_final st1)"
      using pr True by (auto simp: phases_reported_def)
    ultimately show ?thesis
      using pr(1,8) by (intro exI [of _ "[pr]"]) simp
  next
    case False
    then have rest: "run_phases plan reason overall phases st1 = Some st'"
      using Cons.prems(1) st1 by simp
    obtain reps where reps: "pr_reports st' = pr_reports st1 @ reps" "phases_reported plan phases reps (pr_final st')"
      "pr_final st' = Complete \<longrightarrow> pr_final st1 = Complete"
      using Cons.IH [OF rest pr(6)] by blast
    have nf: "pr_outcome pr \<noteq> Failed"
      using False pr(5) by blast
    have "Suc k = length (pr # reps) \<and> pr_final st' \<in> {Failed, TimedOut}"
      if "k < length (pr # reps)" "pr_outcome ((pr # reps) ! k) = Failed" for k
    proof (cases k)
      case 0
      with that(2) nf show ?thesis by simp
    next
      case (Suc i)
      with that reps(2) show ?thesis
        unfolding phases_reported_def by simp
    qed
    moreover have "pr_final st' = Complete \<longrightarrow> length (pr # reps) = length (phase # phases) \<and> (\<forall>x \<in> set (pr # reps). pr_outcome x = Complete)"
      using reps(2,3) pr(8) unfolding phases_reported_def by simp
    moreover have "map pr_phase (pr # reps) = take (length (pr # reps)) (phase # phases)"
      "\<forall>x \<in> set (pr # reps). tasks_reported (pl_settings plan) (plan_tasks plan (pr_phase x)) (pr_tasks x) (pr_outcome x)"
      using reps(2) pr(2,3) unfolding phases_reported_def by simp_all
    ultimately have "phases_reported plan (phase # phases) (pr # reps) (pr_final st')"
      unfolding phases_reported_def by blast
    then show ?thesis
      using reps(1,3) pr(1,8) by (intro exI [of _ "pr # reps"]) simp
  qed
qed

section \<open>The report and the trace of calls\<close>

text \<open>
  A task whose deadline had passed before its call is reported as timed out after no time; every other report is about
  a call. A report tells what its call did: the result and the time of a task that finished, and for a timeout that the
  task had not finished in the time that was waited for it.
\<close>

definition was_started :: "task_report \<Rightarrow> bool" where
  "was_started r \<longleftrightarrow> \<not> (tr_status r = TaskTimedOut \<and> tr_duration r = Some 0)"

definition call_reported :: "task_call \<Rightarrow> task_report \<Rightarrow> bool" where
  "call_reported = (\<lambda>(at, context, answer) r.
     tr_phase r = tc_phase context \<and> tr_task_name r = tc_task_name context
     \<and> (case tr_status r of
          TaskCompleted \<Rightarrow> \<exists>d. answer = Some (d, Inr ()) \<and> tr_duration r = Some d \<and> tr_message r = None
        | TaskFailed \<Rightarrow> \<exists>d m. answer = Some (d, Inl m) \<and> tr_duration r = Some d \<and> tr_message r = Some m
        | TaskTimedOut \<Rightarrow> \<exists>w. tr_duration r = Some w \<and> 0 < w \<and> (case answer of None \<Rightarrow> True | Some (d, _) \<Rightarrow> w < d)
        | _ \<Rightarrow> False))"

lemma run_shutdown_task_calls:
  assumes "run_shutdown_task task reason deadline now = Some (rep, e)"
  shows "list_all2 call_reported (task_calls task reason deadline now) (filter was_started [rep])"
proof -
  define ctx where "ctx = task_context_of task reason"
  obtain out where await: "await_task task ctx deadline now = Some (out, e)"
    and rep: "tr_phase rep = tc_phase ctx" "tr_task_name rep = tc_task_name ctx" "tr_duration rep = Some (e - now)"
      "tr_status rep = (case out of RunCompleted \<Rightarrow> TaskCompleted | RunFailed _ \<Rightarrow> TaskFailed | RunTimedOut \<Rightarrow> TaskTimedOut)"
      "tr_message rep = (case out of RunCompleted \<Rightarrow> None | RunFailed m \<Rightarrow> Some m | RunTimedOut \<Rightarrow> Some ''shutdown task timed out'')"
    using assms by (auto simp: run_shutdown_task_def Let_def ctx_def task_context_of_def split: option.splits)
  show ?thesis
  proof (cases "deadline_elapsed deadline now")
    case True
    with await rep show ?thesis
      by (simp add: await_task_def task_calls_def was_started_def)
  next
    case False
    then have calls: "task_calls task reason deadline now = [(now, ctx, en_run task now ctx)]"
      by (simp add: task_calls_def ctx_def)
    consider d x where "en_run task now ctx = Some (d, x)" "out = task_outcome_of x" "e = now + d"
      | t where "out = RunTimedOut" "e = t" "now < t" "\<forall>d x. en_run task now ctx = Some (d, x) \<longrightarrow> t - now < d"
      using await False by (fastforce simp: await_task_def deadline_elapsed_def split: option.splits if_splits)
    then show ?thesis
    proof cases
      case 1
      then show ?thesis
        using rep by (auto simp: calls call_reported_def was_started_def task_outcome_of_def split: sum.splits)
    next
      case 2
      then show ?thesis
        using rep by (auto simp: calls call_reported_def was_started_def split: option.splits)
    qed
  qed
qed

lemma run_tasks_calls:
  assumes "run_tasks settings reason phase pd tasks st = Some st'"
  shows "\<exists>calls reps. ph_calls st' = ph_calls st @ calls \<and> ph_reports st' = ph_reports st @ reps
    \<and> list_all2 call_reported calls (filter was_started reps)
    \<and> (\<not> ph_stop st' \<longrightarrow> length reps = length tasks)"
  using assms
proof (induction tasks arbitrary: st)
  case (Cons task tasks)
  show ?case
  proof (cases "ph_stop st \<or> deadline_elapsed pd (ph_now st)")
    case True
    with Cons.prems show ?thesis
      by (auto simp: was_started_def split: if_splits)
  next
    case False
    define deadline where "deadline = task_deadline settings task pd (ph_now st)"
    obtain rep e where run: "run_shutdown_task task reason deadline (ph_now st) = Some (rep, e)"
      and rest: "run_tasks settings reason phase pd tasks
        (after_task settings phase pd task rep e (record_calls (task_calls task reason deadline (ph_now st)) st)) = Some st'"
      using False Cons.prems by (auto simp: deadline_def Let_def split: option.splits)
    obtain calls reps where "ph_calls st' = ph_calls st @ task_calls task reason deadline (ph_now st) @ calls"
      "ph_reports st' = ph_reports st @ [rep] @ reps" "list_all2 call_reported calls (filter was_started reps)"
      "\<not> ph_stop st' \<longrightarrow> length reps = length tasks"
      using Cons.IH [OF rest] by auto
    moreover have "list_all2 call_reported (task_calls task reason deadline (ph_now st) @ calls) (filter was_started ([rep] @ reps))"
      unfolding filter_append by (intro list_all2_appendI run_shutdown_task_calls [OF run] calculation(3))
    ultimately show ?thesis
      by (intro exI [of _ "task_calls task reason deadline (ph_now st) @ calls"] exI [of _ "[rep] @ reps"]) simp
  qed
qed simp

lemma run_phase_calls:
  assumes "run_phase plan reason overall phase st = Some st'"
  shows "\<exists>calls pr. pr_calls st' = pr_calls st @ calls \<and> pr_reports st' = pr_reports st @ [pr] \<and> pr_phase pr = phase
    \<and> list_all2 call_reported calls (filter was_started (pr_tasks pr))
    \<and> (\<not> pr_stopped st' \<longrightarrow> length (pr_tasks pr) = length (plan_tasks plan phase))"
proof -
  define pd where "pd = min_deadline overall (map_option (\<lambda>t. pr_now st + t) (sh_default_phase_timeout (pl_settings plan)))"
  define st0 where "st0 = \<lparr>ph_now = pr_now st, ph_outcome = (if deadline_elapsed pd (pr_now st) then TimedOut else Complete),
    ph_final = pr_final st, ph_stop = deadline_elapsed pd (pr_now st), ph_reports = [],
    ph_progress = pr_progress st @ [(Some phase, None)], ph_calls = pr_calls st\<rparr>"
  obtain ph where ph: "run_tasks (pl_settings plan) reason phase pd (plan_tasks plan phase) st0 = Some ph"
    using assms by (auto simp: run_phase_def Let_def pd_def st0_def split: option.splits)
  from assms ph have "pr_calls st' = ph_calls ph" "\<not> pr_stopped st' \<Longrightarrow> \<not> ph_stop ph"
    "\<exists>pr. pr_reports st' = pr_reports st @ [pr] \<and> pr_phase pr = phase \<and> pr_tasks pr = ph_reports ph"
    by (auto simp: run_phase_def Let_def pd_def st0_def)
  with run_tasks_calls [OF ph] show ?thesis
    by (auto simp: st0_def)
qed

text \<open>Every phase before the last one reports all its tasks, and so does the last one unless the run was stopped.\<close>

lemma run_phases_calls:
  assumes "run_phases plan reason overall phases st = Some st'" and "settled (pr_final st)" and "\<not> pr_stopped st"
  shows "\<exists>calls reps. pr_calls st' = pr_calls st @ calls \<and> pr_reports st' = pr_reports st @ reps
    \<and> list_all2 call_reported calls (filter was_started (concat (map pr_tasks reps)))
    \<and> (\<forall>pr \<in> set (butlast reps). length (pr_tasks pr) = length (plan_tasks plan (pr_phase pr)))
    \<and> (pr_final st' \<notin> {Failed, TimedOut} \<longrightarrow>
         length reps = length phases \<and> (\<forall>pr \<in> set reps. length (pr_tasks pr) = length (plan_tasks plan (pr_phase pr))))"
  using assms
proof (induction phases arbitrary: st)
  case (Cons phase phases)
  obtain st1 where st1: "run_phase plan reason overall phase st = Some st1"
    using Cons.prems(1) by (auto split: option.splits)
  obtain c pr where pr: "pr_calls st1 = pr_calls st @ c" "pr_reports st1 = pr_reports st @ [pr]" "pr_phase pr = phase"
    "list_all2 call_reported c (filter was_started (pr_tasks pr))"
    "\<not> pr_stopped st1 \<Longrightarrow> length (pr_tasks pr) = length (plan_tasks plan phase)"
    using run_phase_calls [OF st1] by blast
  have final: "settled (pr_final st1)" "pr_stopped st1 \<Longrightarrow> pr_final st1 \<in> {Failed, TimedOut}"
    using run_phase_reported [OF st1 Cons.prems(2)] by blast+
  show ?case
  proof (cases "pr_stopped st1")
    case True
    then have "st' = st1"
      using Cons.prems(1) st1 by simp
    with pr(1,2,4) final(2) [OF True] show ?thesis
      by (intro exI [of _ c] exI [of _ "[pr]"]) simp
  next
    case False
    then have rest: "run_phases plan reason overall phases st1 = Some st'"
      using Cons.prems(1) st1 by simp
    obtain cs reps where "pr_calls st' = pr_calls st1 @ cs" "pr_reports st' = pr_reports st1 @ reps"
      "list_all2 call_reported cs (filter was_started (concat (map pr_tasks reps)))"
      "\<forall>pr \<in> set (butlast reps). length (pr_tasks pr) = length (plan_tasks plan (pr_phase pr))"
      "pr_final st' \<notin> {Failed, TimedOut} \<longrightarrow> length reps = length phases \<and> (\<forall>pr \<in> set reps. length (pr_tasks pr) = length (plan_tasks plan (pr_phase pr)))"
      using Cons.IH [OF rest final(1) False] by blast
    with pr False show ?thesis
      by (intro exI [of _ "c @ cs"] exI [of _ "pr # reps"]) (auto intro: list_all2_appendI)
  qed
qed simp

end
