(* ===== verification/Shutdown_Calls.thy ===== *)
theory Shutdown_Calls
  imports Shutdown_Order Shutdown_Run
begin

text \<open>
  Callers of a coordinated shutdown (\<open>run_internal\<close> and \<open>snapshot\<close> of
  \<open>crates/rakka-core/src/coordinated_shutdown.rs\<close>): the first caller starts the run, the others wait
  on its watch channel, later ones get the stored result. Each access to the registry is one step;
  callers interleave freely. Dropping the future of the caller that runs the shutdown drops the
  sending half of the channel.
\<close>

section \<open>Starting, waiting and finishing\<close>

datatype run_action = StartRun execution_plan | WaitRun | ReturnRun run_result

definition run_begin :: "registry \<Rightarrow> run_action \<times> registry" where
  "run_begin rg =
     (case rg_run_state rg of
        NotStarted \<Rightarrow>
          (case execution_plan_of rg of
             Inl e \<Rightarrow> (ReturnRun (Inl e), rg)
           | Inr plan \<Rightarrow> (StartRun plan, rg\<lparr>rg_run_state := Running None True\<rparr>))
      | Running _ _ \<Rightarrow> (WaitRun, rg)
      | Finished result \<Rightarrow> (ReturnRun result, rg))"

definition run_send :: "registry \<Rightarrow> run_result \<Rightarrow> registry" where
  "run_send rg result =
     (case rg_run_state rg of
        Running _ alive \<Rightarrow> rg\<lparr>rg_run_state := Running (Some result) alive\<rparr>
      | _ \<Rightarrow> rg)"

definition run_finish :: "registry \<Rightarrow> run_result \<Rightarrow> registry" where
  "run_finish rg result = rg\<lparr>rg_run_state := Finished result\<rparr>"

definition drop_starter :: "registry \<Rightarrow> registry" where
  "drop_starter rg =
     (case rg_run_state rg of Running v _ \<Rightarrow> rg\<lparr>rg_run_state := Running v False\<rparr> | _ \<Rightarrow> rg)"

text \<open>
  A waiter's inner loop: it returns the value of the channel when there is one, suspends while the
  sender exists, and leaves the loop when the sender is gone. The channel keeps its value after the
  registry has stored the result.
\<close>

datatype wait_poll = Ready run_result | Pending | Closed

definition wait_on :: "registry \<Rightarrow> wait_poll" where
  "wait_on rg =
     (case rg_run_state rg of
        Running (Some result) _ \<Rightarrow> Ready result
      | Running None True \<Rightarrow> Pending
      | Running None False \<Rightarrow> Closed
      | Finished result \<Rightarrow> Ready result
      | NotStarted \<Rightarrow> Closed)"

text \<open>One poll of a caller: at most \<open>n\<close> rounds of the outer loop without suspending.\<close>

datatype caller_poll = Returned run_result | Suspended | Starts execution_plan | StillLooping

fun poll_run :: "nat \<Rightarrow> registry \<Rightarrow> caller_poll" where
  "poll_run 0 rg = StillLooping"
| "poll_run (Suc n) rg =
     (case run_begin rg of
        (ReturnRun result, _) \<Rightarrow> Returned result
      | (StartRun plan, _) \<Rightarrow> Starts plan
      | (WaitRun, rg') \<Rightarrow>
          (case wait_on rg' of
             Ready result \<Rightarrow> Returned result
           | Pending \<Rightarrow> Suspended
           | Closed \<Rightarrow> poll_run n rg'))"

section \<open>Snapshots\<close>

record shutdown_snapshot =
  sp_outcome :: shutdown_outcome
  sp_current_phase :: "shutdown_phase option"
  sp_current_task :: "string option"
  sp_report :: "shutdown_report option"

definition snapshot_from_result :: "run_result \<Rightarrow> shutdown_snapshot" where
  "snapshot_from_result result =
     (case result of
        Inr report \<Rightarrow> \<lparr>sp_outcome = rep_outcome report, sp_current_phase = None, sp_current_task = None, sp_report = Some report\<rparr>
      | Inl (RegistryError e) \<Rightarrow> \<lparr>sp_outcome = Failed, sp_current_phase = None, sp_current_task = None, sp_report = None\<rparr>
      | Inl (FailedRun report) \<Rightarrow> \<lparr>sp_outcome = Failed, sp_current_phase = None, sp_current_task = None, sp_report = Some report\<rparr>
      | Inl (TimedOutRun report) \<Rightarrow> \<lparr>sp_outcome = TimedOut, sp_current_phase = None, sp_current_task = None, sp_report = Some report\<rparr>)"

definition shutdown_snapshot_of :: "registry \<Rightarrow> progress \<Rightarrow> shutdown_snapshot" where
  "shutdown_snapshot_of rg now =
     (case rg_run_state rg of
        NotStarted \<Rightarrow> \<lparr>sp_outcome = NotStartedOutcome, sp_current_phase = None, sp_current_task = None, sp_report = None\<rparr>
      | Running None _ \<Rightarrow> \<lparr>sp_outcome = RunningOutcome, sp_current_phase = fst now, sp_current_task = snd now, sp_report = None\<rparr>
      | Running (Some result) _ \<Rightarrow> snapshot_from_result result
      | Finished result \<Rightarrow> snapshot_from_result result)"

section \<open>Interleavings of callers\<close>

text \<open>
  Registries reachable from one that has not started, with the number of runs that were started and
  the results that callers have been given.
\<close>

inductive shutdown_calls :: "registry \<Rightarrow> registry \<Rightarrow> nat \<Rightarrow> run_result list \<Rightarrow> bool" for rg0 where
  call_idle: "shutdown_calls rg0 rg0 0 []"
| call_start: "shutdown_calls rg0 rg k rs \<Longrightarrow> run_begin rg = (StartRun plan, rg') \<Longrightarrow> shutdown_calls rg0 rg' (Suc k) rs"
| call_return: "shutdown_calls rg0 rg k rs \<Longrightarrow> run_begin rg = (ReturnRun r, rg') \<Longrightarrow> shutdown_calls rg0 rg' k (rs @ [r])"
| call_send: "shutdown_calls rg0 rg k rs \<Longrightarrow> rg_run_state rg = Running None True \<Longrightarrow> shutdown_calls rg0 (run_send rg r) k rs"
| call_finish: "shutdown_calls rg0 rg k rs \<Longrightarrow> rg_run_state rg = Running (Some r) True
    \<Longrightarrow> shutdown_calls rg0 (run_finish rg r) k (rs @ [r])"
| call_drop: "shutdown_calls rg0 rg k rs \<Longrightarrow> shutdown_calls rg0 (drop_starter rg) k rs"
| call_wait: "shutdown_calls rg0 rg k rs \<Longrightarrow> wait_on rg = Ready r \<Longrightarrow> shutdown_calls rg0 rg k (rs @ [r])"

definition calls_inv :: "registry \<Rightarrow> registry \<Rightarrow> nat \<Rightarrow> run_result list \<Rightarrow> bool" where
  "calls_inv rg0 rg k rs \<longleftrightarrow>
     (case rg_run_state rg of
        NotStarted \<Rightarrow> rg = rg0 \<and> k = 0 \<and> rs = []
      | Running None _ \<Rightarrow> k = 1 \<and> rs = []
      | Running (Some r) _ \<Rightarrow> k = 1 \<and> set rs \<subseteq> {r}
      | Finished r \<Rightarrow> k = 1 \<and> set rs \<subseteq> {r})"

lemma registry_built_plan:
  assumes "registry_built rg"
  shows "\<exists>plan. execution_plan_of rg = Inr plan"
  using registry_built_ok [OF assms]
  by (cases "ordered_phase_names (rg_phases rg)") (auto simp: registry_ok_def execution_plan_of_def)

lemma registry_built_not_started: "registry_built rg \<Longrightarrow> rg_run_state rg = NotStarted"
proof (induction rule: registry_built.induct)
  case (built_task rg phase name options run t rg')
  then show ?case
    by (auto simp: add_task_def Let_def split: sum.splits if_splits)
next
  case (built_dependency rg phase d q rg')
  then show ?case
    by (auto simp: add_phase_dependency_def Let_def split: sum.splits if_splits)
qed (auto simp: registry_new_def add_phase_after_def add_phase_before_def split: sum.splits)

lemma shutdown_calls_inv:
  assumes "registry_built rg0" and "shutdown_calls rg0 rg k rs"
  shows "calls_inv rg0 rg k rs"
  using assms(2)
proof induction
  case call_idle
  then show ?case
    using registry_built_not_started [OF assms(1)] by (simp add: calls_inv_def)
next
  case (call_start rg k rs plan rg')
  then show ?case
    by (auto simp: run_begin_def calls_inv_def split: run_state.splits sum.splits option.splits)
next
  case (call_return rg k rs r rg')
  show ?case
  proof (cases "rg_run_state rg")
    case NotStarted
    then have "rg = rg0"
      using call_return.IH by (simp add: calls_inv_def)
    then show ?thesis
      using call_return.hyps(2) NotStarted registry_built_plan [OF assms(1)] by (auto simp: run_begin_def)
  qed (use call_return in \<open>auto simp: run_begin_def calls_inv_def\<close>)
next
  case (call_send rg k rs r)
  then show ?case
    by (simp add: run_send_def calls_inv_def)
next
  case (call_finish rg k rs r)
  then show ?case
    by (auto simp: run_finish_def calls_inv_def)
next
  case (call_drop rg k rs)
  then show ?case
    by (auto simp: drop_starter_def calls_inv_def split: run_state.splits option.splits)
next
  case (call_wait rg k rs r)
  then show ?case
    by (auto simp: wait_on_def calls_inv_def split: run_state.splits option.splits bool.splits)
qed

lemma poll_abandoned: "rg_run_state rg = Running None False \<Longrightarrow> poll_run n rg = StillLooping"
  by (induction n) (simp_all add: run_begin_def wait_on_def)

section \<open>A sample shutdown\<close>

text \<open>A registry with a task that succeeds, one that fails and one that hangs.\<close>

definition quick_task :: task_runner where "quick_task = (\<lambda>_ _. Some (5, Inr ()))"
definition broken_task :: task_runner where "broken_task = (\<lambda>_ _. Some (3, Inl ''disk full''))"
definition hanging_task :: task_runner where "hanging_task = (\<lambda>_ _. None)"

definition sample_tasks :: registry where
  "sample_tasks = snd (add_task (snd (add_task (registry_new shutdown_settings_new)
     ''stop-ingress'' ''close-port'' task_options_new quick_task))
     ''leave-cluster'' ''say-goodbye'' task_options_new hanging_task)"

definition sample_plan :: execution_plan where
  "sample_plan = (case execution_plan_of sample_tasks of Inr plan \<Rightarrow> plan
     | Inl _ \<Rightarrow> \<lparr>pl_settings = shutdown_settings_new, pl_phases = [], pl_tasks = []\<rparr>)"

lemma sample_tasks_built: "registry_built sample_tasks"
  unfolding sample_tasks_def by (rule built_task [OF built_task [OF built_new]]) (rule prod.collapse [symmetric])+

section \<open>Properties\<close>

text \<open>C19: A shutdown with an overall deadline always returns, no later than that deadline (or at once if
  it has passed), even if tasks hang; with a default phase timeout it returns within that timeout
  per phase.\<close>

theorem shutdown_returns_in_time:
  "(overall = Some d \<longrightarrow> (\<exists>result end_at log. execute_shutdown_plan plan reason overall now = Some (result, end_at, log)
      \<and> end_at \<le> max now d))
   \<and> (sh_default_phase_timeout (pl_settings plan) = Some q \<longrightarrow>
      (\<exists>result end_at log. execute_shutdown_plan plan reason overall now = Some (result, end_at, log)
      \<and> end_at \<le> now + q * length (pl_phases plan)))"
proof (intro conjI impI)
  assume "overall = Some d"
  with run_phases_overall [of plan reason d "pl_phases plan" "plan_start now"] show
    "\<exists>result end_at log. execute_shutdown_plan plan reason overall now = Some (result, end_at, log) \<and> end_at \<le> max now d"
    by (auto simp: execute_shutdown_plan_def execute_shutdown_plan_inner_def plan_start_def)
next
  assume "sh_default_phase_timeout (pl_settings plan) = Some q"
  from run_phases_per_phase [OF this, of reason overall "pl_phases plan" "plan_start now"] show
    "\<exists>result end_at log. execute_shutdown_plan plan reason overall now = Some (result, end_at, log)
      \<and> end_at \<le> now + q * length (pl_phases plan)"
    by (auto simp: execute_shutdown_plan_def execute_shutdown_plan_inner_def plan_start_def)
qed

theorem shutdown_returns_in_time_witness:
  "\<exists>result end_at log. execute_shutdown_plan sample_plan ''user-request'' (Some 100) 7 = Some (result, end_at, log)
     \<and> end_at \<le> 100"
  using shutdown_returns_in_time [of "Some 100" 100 sample_plan "''user-request''" 7] by simp

text \<open>C20: The report of a shutdown tells the truth about it. The calls the run made to tasks are, one by one and in
  order, the reported tasks other than those reported as timed out after no time, which were never called; each such
  report names the task of its call and says what the call did: completed or failed with the task's own result, message
  and duration, or timed out because the task had not finished in the time waited for it. The reported phases are the
  first phases of the plan, the tasks of each reported phase its first tasks, and every phase before the last one
  reports all its tasks. A failed task whose policy is fail-fast is the last task of the last reported phase and the
  result is an error. A result that is not an error reports every phase with every task, and a complete one reports
  every task as completed.\<close>

theorem shutdown_report_faithful:
  assumes "execute_shutdown_plan_inner plan reason overall now = Some (result, st)"
  shows "(\<exists>report. result \<in> {Inr report, Inl (FailedRun report), Inl (TimedOutRun report)} \<and> rep_phases report = pr_reports st)
    \<and> list_all2 call_reported (pr_calls st) (filter was_started (concat (map pr_tasks (pr_reports st))))
    \<and> map pr_phase (pr_reports st) = take (length (pr_reports st)) (pl_phases plan)
    \<and> (\<forall>pr \<in> set (pr_reports st). map tr_task_name (pr_tasks pr)
         = map (\<lambda>t. tk_name (en_descriptor t)) (take (length (pr_tasks pr)) (plan_tasks plan (pr_phase pr))))
    \<and> (\<forall>pr \<in> set (butlast (pr_reports st)). length (pr_tasks pr) = length (plan_tasks plan (pr_phase pr)))
    \<and> (\<forall>k < length (pr_reports st). \<forall>j < length (pr_tasks (pr_reports st ! k)).
         tr_status (pr_tasks (pr_reports st ! k) ! j) = TaskFailed
         \<and> task_policy (pl_settings plan) (plan_tasks plan (pr_phase (pr_reports st ! k)) ! j) = FailFast
         \<longrightarrow> Suc k = length (pr_reports st) \<and> Suc j = length (pr_tasks (pr_reports st ! k)) \<and> \<not> is_ok result)
    \<and> (is_ok result \<longrightarrow> map pr_phase (pr_reports st) = pl_phases plan
         \<and> (\<forall>pr \<in> set (pr_reports st). length (pr_tasks pr) = length (plan_tasks plan (pr_phase pr))))
    \<and> (\<forall>report. result = Inr report \<and> rep_outcome report = Complete \<longrightarrow>
         (\<forall>pr \<in> set (rep_phases report). \<forall>t \<in> set (pr_tasks pr). tr_status t = TaskCompleted))"
proof -
  let ?reps = "pr_reports st" and ?s = "pl_settings plan"
  have run: "run_phases plan reason overall (pl_phases plan) (plan_start now) = Some st"
    and result: "result = report_to_result \<lparr>rep_reason = reason, rep_outcome = pr_final st, rep_phases = ?reps\<rparr>"
    using assms by (auto simp: execute_shutdown_plan_inner_def)
  have R: "phases_reported plan (pl_phases plan) ?reps (pr_final st)"
    using run_phases_reported [OF run] by (simp add: plan_start_def)
  have tasks: "tasks_reported ?s (plan_tasks plan (pr_phase pr)) (pr_tasks pr) (pr_outcome pr)" if "pr \<in> set ?reps" for pr
    using R that by (simp add: phases_reported_def)
  have names: "map tr_task_name (pr_tasks pr) = map (\<lambda>t. tk_name (en_descriptor t)) (take (length (pr_tasks pr)) (plan_tasks plan (pr_phase pr)))"
    if "pr \<in> set ?reps" for pr
    using tasks [OF that] by (simp add: tasks_reported_def)
  have err: "\<not> is_ok result" if "pr_final st \<in> {Failed, TimedOut}"
    using that by (auto simp: result report_to_result_def)
  have fast: "Suc k = length ?reps \<and> Suc j = length (pr_tasks (?reps ! k)) \<and> \<not> is_ok result"
    if "k < length ?reps" "j < length (pr_tasks (?reps ! k))" "tr_status (pr_tasks (?reps ! k) ! j) = TaskFailed"
      "task_policy ?s (plan_tasks plan (pr_phase (?reps ! k)) ! j) = FailFast" for k j
  proof -
    have "Suc j = length (pr_tasks (?reps ! k))" "pr_outcome (?reps ! k) = Failed"
      using tasks_reported_failed [OF tasks [OF nth_mem [OF that(1)]] that(2-4)] by simp_all
    moreover have "\<And>k. k < length ?reps \<Longrightarrow> pr_outcome (?reps ! k) = Failed \<Longrightarrow> Suc k = length ?reps \<and> pr_final st \<in> {Failed, TimedOut}"
      using R by (simp add: phases_reported_def)
    ultimately show ?thesis
      using that(1) err by simp
  qed
  obtain calls reps where "pr_calls st = calls" "?reps = reps" "list_all2 call_reported calls (filter was_started (concat (map pr_tasks reps)))"
    "\<forall>pr \<in> set (butlast reps). length (pr_tasks pr) = length (plan_tasks plan (pr_phase pr))"
    "pr_final st \<notin> {Failed, TimedOut} \<longrightarrow> length reps = length (pl_phases plan)
      \<and> (\<forall>pr \<in> set reps. length (pr_tasks pr) = length (plan_tasks plan (pr_phase pr)))"
    using run_phases_calls [OF run] by (auto simp: plan_start_def)
  then have traced: "list_all2 call_reported (pr_calls st) (filter was_started (concat (map pr_tasks ?reps)))"
      "\<forall>pr \<in> set (butlast ?reps). length (pr_tasks pr) = length (plan_tasks plan (pr_phase pr))"
    and full: "pr_final st \<notin> {Failed, TimedOut} \<Longrightarrow> length ?reps = length (pl_phases plan)
      \<and> (\<forall>pr \<in> set ?reps. length (pr_tasks pr) = length (plan_tasks plan (pr_phase pr)))"
    by simp_all
  have phases: "map pr_phase ?reps = take (length ?reps) (pl_phases plan)"
    using R by (simp add: phases_reported_def)
  have whole: "map pr_phase ?reps = pl_phases plan \<and> (\<forall>pr \<in> set ?reps. length (pr_tasks pr) = length (plan_tasks plan (pr_phase pr)))"
    if "is_ok result"
  proof -
    have "pr_final st \<notin> {Failed, TimedOut}"
      using err that by blast
    from full [OF this] phases show ?thesis by simp
  qed
  have shape: "\<exists>report. result \<in> {Inr report, Inl (FailedRun report), Inl (TimedOutRun report)} \<and> rep_phases report = ?reps"
    unfolding result report_to_result_def
    by (intro exI [of _ "\<lparr>rep_reason = reason, rep_outcome = pr_final st, rep_phases = ?reps\<rparr>"]) (simp split: shutdown_outcome.splits)
  have complete: "\<forall>pr \<in> set (rep_phases report). \<forall>t \<in> set (pr_tasks pr). tr_status t = TaskCompleted"
    if "result = Inr report" "rep_outcome report = Complete" for report
  proof -
    have rep: "rep_phases report = ?reps" "pr_final st = Complete"
      using that by (auto simp: result report_to_result_def split: shutdown_outcome.splits)
    then have "\<forall>pr \<in> set ?reps. pr_outcome pr = Complete"
      using R by (simp add: phases_reported_def)
    then show ?thesis
      unfolding rep(1) using tasks by (simp add: tasks_reported_def)
  qed
  show ?thesis
    by (intro conjI shape traced phases) (use names fast whole complete in \<open>simp_all (no_asm_simp)\<close>)
qed

text \<open>A phase whose deadline passes just when its first task is done: the second task is never called.\<close>

definition late_plan :: execution_plan where
  "late_plan = \<lparr>pl_settings = shutdown_settings_new\<lparr>sh_default_phase_timeout := Some 5\<rparr>, pl_phases = [''a'', ''b''],
     pl_tasks = [(''a'', [\<lparr>en_descriptor = \<lparr>tk_phase = ''a'', tk_name = ''close'', tk_options = task_options_new\<rparr>, en_run = quick_task\<rparr>,
       \<lparr>en_descriptor = \<lparr>tk_phase = ''a'', tk_name = ''save'', tk_options = task_options_new\<rparr>, en_run = broken_task\<rparr>])]\<rparr>"

definition close_report :: task_report where
  "close_report = \<lparr>tr_phase = ''a'', tr_task_name = ''close'', tr_status = TaskCompleted, tr_duration = Some 5, tr_message = None\<rparr>"

definition save_report :: task_report where
  "save_report = \<lparr>tr_phase = ''a'', tr_task_name = ''save'', tr_status = TaskTimedOut, tr_duration = Some 0,
     tr_message = Some ''shutdown phase deadline elapsed before task started''\<rparr>"

definition late_run :: plan_run where
  "late_run = \<lparr>pr_now = 5, pr_final = TimedOut,
     pr_reports = [\<lparr>pr_phase = ''a'', pr_outcome = TimedOut, pr_duration = Some 5, pr_tasks = [close_report, save_report]\<rparr>],
     pr_progress = [(Some ''a'', None), (Some ''a'', Some ''close''), (Some ''a'', None), (Some ''a'', Some ''save'')], pr_stopped = True,
     pr_calls = [(0, \<lparr>tc_reason = ''user-request'', tc_phase = ''a'', tc_task_name = ''close''\<rparr>, Some (5, Inr ()))]\<rparr>"

lemma late_runs:
  "execute_shutdown_plan_inner late_plan ''user-request'' None 0
     = Some (Inl (TimedOutRun \<lparr>rep_reason = ''user-request'', rep_outcome = TimedOut, rep_phases = pr_reports late_run\<rparr>), late_run)"
  by code_simp

theorem shutdown_report_faithful_witness:
  "list_all2 call_reported (pr_calls late_run) [close_report] \<and> map pr_phase (pr_reports late_run) = take 1 (pl_phases late_plan)"
  using shutdown_report_faithful [OF late_runs] by (simp add: late_run_def was_started_def close_report_def save_report_def)

text \<open>C21: However callers interleave, a shutdown is started at most once and all callers that get a
  result get the same one.\<close>

theorem shutdown_runs_once:
  assumes "registry_built rg0" and "shutdown_calls rg0 rg k rs"
  shows "k \<le> 1 \<and> (\<forall>r \<in> set rs. \<forall>r' \<in> set rs. r = r')"
  using shutdown_calls_inv [OF assms] by (auto simp: calls_inv_def split: run_state.splits option.splits)

definition sample_result :: run_result where
  "sample_result = Inr \<lparr>rep_reason = ''user-request'', rep_outcome = Complete, rep_phases = []\<rparr>"

definition sample_started :: registry where
  "sample_started = sample_tasks\<lparr>rg_run_state := Running None True\<rparr>"

lemma sample_begins: "\<exists>plan. run_begin sample_tasks = (StartRun plan, sample_started)"
  using registry_built_plan [OF sample_tasks_built] registry_built_not_started [OF sample_tasks_built]
  by (auto simp: run_begin_def sample_started_def)

lemma sample_calls:
  "shutdown_calls sample_tasks (run_finish (run_send sample_started sample_result) sample_result) 1 [sample_result, sample_result]"
proof -
  obtain plan where "run_begin sample_tasks = (StartRun plan, sample_started)"
    using sample_begins by blast
  from call_start [OF call_idle this] have "shutdown_calls sample_tasks sample_started 1 []"
    by simp
  from call_send [OF this, of sample_result] have sent: "shutdown_calls sample_tasks (run_send sample_started sample_result) 1 []"
    by (simp add: sample_started_def)
  have running: "rg_run_state (run_send sample_started sample_result) = Running (Some sample_result) True"
    by (simp add: run_send_def sample_started_def)
  have "shutdown_calls sample_tasks (run_send sample_started sample_result) 1 [sample_result]"
    using call_wait [OF sent, of sample_result] running by (simp add: wait_on_def)
  from call_finish [OF this running] show ?thesis
    by simp
qed

theorem shutdown_runs_once_witness:
  "shutdown_calls sample_tasks (run_finish (run_send sample_started sample_result) sample_result) 1 [sample_result, sample_result]
     \<and> (1 :: nat) \<le> 1"
  by (rule conjI [OF sample_calls conjunct1 [OF shutdown_runs_once [OF sample_tasks_built sample_calls]]])

text \<open>C37: When the caller that runs the shutdown is cancelled before it has sent a result, the registry
  stays in the running state for good: every other caller loops without ever returning, starting
  a run or suspending, and snapshots keep reporting a running shutdown.\<close>

theorem cancelled_shutdown_spins:
  assumes "run_begin rg = (StartRun plan, rg')"
  shows "poll_run n (drop_starter rg') = StillLooping \<and> sp_outcome (shutdown_snapshot_of (drop_starter rg') p) = RunningOutcome"
proof -
  have "rg_run_state (drop_starter rg') = Running None False"
    using assms by (auto simp: run_begin_def drop_starter_def split: run_state.splits sum.splits)
  then show ?thesis
    by (simp add: poll_abandoned shutdown_snapshot_of_def)
qed

theorem cancelled_shutdown_spins_witness:
  "poll_run 1000 (drop_starter sample_started) = StillLooping
     \<and> sp_outcome (shutdown_snapshot_of (drop_starter sample_started) (None, None)) = RunningOutcome"
  using cancelled_shutdown_spins sample_begins by blast

end
