(* ===== verification/Workflow_Model.thy ===== *)
theory Workflow_Model
  imports Rakka_Prelude
begin

text \<open>
  The durable workflow snapshot (\<open>crates/rakka-workflow/src/model.rs\<close>): inbox and outbox entries with
  their deduplication indexes, retry attempts and policies, and compaction. Timestamps are \<open>u64\<close>
  milliseconds, so adding a delay to one wraps around; delays themselves saturate.
\<close>

section \<open>Entries\<close>

type_synonym workflow_id = string
type_synonym message_id = string
type_synonym dedup_key = string
type_synonym timestamp = u64

definition workflow_persistence_id :: "workflow_id \<Rightarrow> string" where
  "workflow_persistence_id w = ''workflow:'' @ w"

datatype outbox_target = ActorTarget string | EntityTarget string string | ApplicationTarget string

definition add_millis :: "timestamp \<Rightarrow> u64 \<Rightarrow> timestamp" where
  "add_millis t millis = t + millis"

datatype workflow_status = WorkflowActive | WorkflowCompleted | WorkflowFailed
datatype inbox_status = InPending | InProcessing | InCompleted | InFailed
datatype outbox_status = OutPending | OutDispatching | OutDispatched | OutFailed | OutExhausted | OutCancelled

record retry_attempt =
  ra_attempts :: u32
  ra_max_attempts :: "u32 option"
  ra_next_retry_at :: "timestamp option"
  ra_last_error :: "string option"

definition retry_attempt_new :: retry_attempt where
  "retry_attempt_new = \<lparr>ra_attempts = 0, ra_max_attempts = None, ra_next_retry_at = None, ra_last_error = None\<rparr>"

definition attempt_failure :: "retry_attempt \<Rightarrow> timestamp \<Rightarrow> u64 \<Rightarrow> string \<Rightarrow> retry_attempt" where
  "attempt_failure ra now delay error = ra\<lparr>ra_attempts := ra_attempts ra + 1,
     ra_next_retry_at := Some (add_millis now delay), ra_last_error := Some error\<rparr>"

definition attempt_exhaustion :: "retry_attempt \<Rightarrow> string \<Rightarrow> retry_attempt" where
  "attempt_exhaustion ra error = ra\<lparr>ra_attempts := ra_attempts ra + 1, ra_next_retry_at := None, ra_last_error := Some error\<rparr>"

datatype retry_jitter = NoJitter | FixedMillis u64

fun jitter_millis :: "retry_jitter \<Rightarrow> u64" where
  "jitter_millis NoJitter = 0"
| "jitter_millis (FixedMillis m) = m"

record retry_policy =
  rp_max_attempts :: u32
  rp_initial_backoff_millis :: u64
  rp_max_backoff_millis :: u64
  rp_multiplier :: u32
  rp_jitter :: retry_jitter

definition retry_policy_new :: "u32 \<Rightarrow> u64 \<Rightarrow> u64 \<Rightarrow> retry_policy" where
  "retry_policy_new m initial_backoff max_backoff = \<lparr>rp_max_attempts = m, rp_initial_backoff_millis = initial_backoff,
     rp_max_backoff_millis = max_backoff, rp_multiplier = 2, rp_jitter = NoJitter\<rparr>"

definition default_retry_policy :: retry_policy where
  "default_retry_policy = retry_policy_new 3 1000 30000"

definition is_exhausted_after :: "retry_policy \<Rightarrow> u32 \<Rightarrow> bool" where
  "is_exhausted_after p attempts \<longleftrightarrow> rp_max_attempts p \<le> attempts"

fun backoff_steps :: "nat \<Rightarrow> u64 \<Rightarrow> u64 \<Rightarrow> u64" where
  "backoff_steps 0 factor delay = delay"
| "backoff_steps (Suc n) factor delay = backoff_steps n factor (sat_mul delay factor)"

definition delay_after_failure :: "retry_policy \<Rightarrow> u32 \<Rightarrow> u64" where
  "delay_after_failure p attempts =
     (let exponent = sat_sub attempts 1;
          delay = backoff_steps (unat exponent) (ucast (max (rp_multiplier p) 1)) (rp_initial_backoff_millis p)
      in sat_add (min delay (rp_max_backoff_millis p)) (jitter_millis (rp_jitter p)))"

record inbox_entry =
  ie_message_id :: message_id
  ie_deduplication_key :: "dedup_key option"
  ie_message_type :: string
  ie_payload :: bytes
  ie_status :: inbox_status
  ie_attempts :: retry_attempt
  ie_accepted_at :: timestamp
  ie_updated_at :: timestamp

definition inbox_entry_new :: "message_id \<Rightarrow> dedup_key option \<Rightarrow> string \<Rightarrow> bytes \<Rightarrow> timestamp \<Rightarrow> inbox_entry" where
  "inbox_entry_new mid key mtype payload now = \<lparr>ie_message_id = mid, ie_deduplication_key = key, ie_message_type = mtype,
     ie_payload = payload, ie_status = InPending, ie_attempts = retry_attempt_new, ie_accepted_at = now, ie_updated_at = now\<rparr>"

definition inbox_set_status :: "inbox_status \<Rightarrow> timestamp \<Rightarrow> inbox_entry \<Rightarrow> inbox_entry" where
  "inbox_set_status status now e = e\<lparr>ie_status := status, ie_updated_at := now\<rparr>"

record outbox_entry =
  oe_message_id :: message_id
  oe_deduplication_key :: "dedup_key option"
  oe_target :: outbox_target
  oe_message_type :: string
  oe_payload :: bytes
  oe_status :: outbox_status
  oe_attempts :: retry_attempt
  oe_retry_policy :: retry_policy
  oe_scheduled_at :: timestamp
  oe_updated_at :: timestamp

definition outbox_entry_new ::
  "message_id \<Rightarrow> dedup_key option \<Rightarrow> outbox_target \<Rightarrow> string \<Rightarrow> bytes \<Rightarrow> timestamp \<Rightarrow> retry_policy \<Rightarrow> outbox_entry"
where
  "outbox_entry_new mid key target mtype payload scheduled_at policy = \<lparr>oe_message_id = mid, oe_deduplication_key = key,
     oe_target = target, oe_message_type = mtype, oe_payload = payload, oe_status = OutPending,
     oe_attempts = retry_attempt_new\<lparr>ra_max_attempts := Some (rp_max_attempts policy)\<rparr>,
     oe_retry_policy = policy, oe_scheduled_at = scheduled_at, oe_updated_at = scheduled_at\<rparr>"

definition is_due :: "outbox_entry \<Rightarrow> timestamp \<Rightarrow> bool" where
  "is_due e now =
     (case oe_status e of
        OutPending \<Rightarrow> oe_scheduled_at e \<le> now
      | OutFailed \<Rightarrow> (case ra_next_retry_at (oe_attempts e) of Some next_at \<Rightarrow> next_at \<le> now | None \<Rightarrow> False)
      | OutDispatching \<Rightarrow> True
      | OutDispatched \<Rightarrow> False | OutExhausted \<Rightarrow> False | OutCancelled \<Rightarrow> False)"

definition is_cancellable :: "outbox_entry \<Rightarrow> bool" where
  "is_cancellable e \<longleftrightarrow> oe_status e \<in> {OutPending, OutDispatching, OutFailed}"

definition outbox_set_status :: "outbox_status \<Rightarrow> timestamp \<Rightarrow> outbox_entry \<Rightarrow> outbox_entry" where
  "outbox_set_status status now e = e\<lparr>oe_status := status, oe_updated_at := now\<rparr>"

definition mark_dispatched :: "timestamp \<Rightarrow> outbox_entry \<Rightarrow> outbox_entry" where
  "mark_dispatched now e = outbox_set_status OutDispatched now e"

definition mark_cancelled :: "timestamp \<Rightarrow> outbox_entry \<Rightarrow> outbox_entry" where
  "mark_cancelled now e = outbox_set_status OutCancelled now e"

datatype failure_transition = RetryAt timestamp | RetriesExhausted

definition outbox_record_failure :: "timestamp \<Rightarrow> string \<Rightarrow> outbox_entry \<Rightarrow> outbox_entry \<times> failure_transition" where
  "outbox_record_failure now message e =
     (let failed_attempts = sat_add (ra_attempts (oe_attempts e)) 1 in
      if is_exhausted_after (oe_retry_policy e) failed_attempts
      then (outbox_set_status OutExhausted now (e\<lparr>oe_attempts := attempt_exhaustion (oe_attempts e) message\<rparr>), RetriesExhausted)
      else
        let delay = delay_after_failure (oe_retry_policy e) failed_attempts
        in (outbox_set_status OutFailed now (e\<lparr>oe_attempts := attempt_failure (oe_attempts e) now delay message\<rparr>),
            RetryAt (add_millis now delay)))"

definition record_definitive_failure :: "timestamp \<Rightarrow> string \<Rightarrow> outbox_entry \<Rightarrow> outbox_entry" where
  "record_definitive_failure now message e =
     outbox_set_status OutExhausted now (e\<lparr>oe_attempts := attempt_exhaustion (oe_attempts e) message\<rparr>)"

datatype telemetry_event =
    DispatchSucceeded message_id timestamp
  | DispatchRetried message_id u32 timestamp string
  | DispatchTimedOut message_id u32 "timestamp option" string
  | DispatchExhausted message_id u32 string
  | DispatchCancelled message_id timestamp string

section \<open>The snapshot\<close>

record workflow_state =
  ws_workflow_id :: workflow_id
  ws_status :: workflow_status
  ws_inbox :: "(message_id, inbox_entry) btree"
  ws_inbox_deduplication :: "(dedup_key, message_id) btree"
  ws_outbox :: "(message_id, outbox_entry) btree"
  ws_outbox_deduplication :: "(dedup_key, message_id) btree"
  ws_updated_at :: timestamp

definition empty_workflow :: "workflow_id \<Rightarrow> timestamp \<Rightarrow> workflow_state" where
  "empty_workflow w now = \<lparr>ws_workflow_id = w, ws_status = WorkflowActive, ws_inbox = [], ws_inbox_deduplication = [],
     ws_outbox = [], ws_outbox_deduplication = [], ws_updated_at = now\<rparr>"

definition inbox_entry_of :: "workflow_state \<Rightarrow> message_id \<Rightarrow> inbox_entry option" where
  "inbox_entry_of ws mid = map_of (ws_inbox ws) mid"

definition inbox_entry_by_key :: "workflow_state \<Rightarrow> dedup_key \<Rightarrow> inbox_entry option" where
  "inbox_entry_by_key ws key = Option.bind (map_of (ws_inbox_deduplication ws) key) (map_of (ws_inbox ws))"

definition outbox_entry_of :: "workflow_state \<Rightarrow> message_id \<Rightarrow> outbox_entry option" where
  "outbox_entry_of ws mid = map_of (ws_outbox ws) mid"

definition outbox_entry_by_key :: "workflow_state \<Rightarrow> dedup_key \<Rightarrow> outbox_entry option" where
  "outbox_entry_by_key ws key = Option.bind (map_of (ws_outbox_deduplication ws) key) (map_of (ws_outbox ws))"

definition recoverable_inbox :: "workflow_state \<Rightarrow> inbox_entry list" where
  "recoverable_inbox ws = filter (\<lambda>e. ie_status e \<in> {InPending, InProcessing, InFailed}) (map snd (ws_inbox ws))"

definition due_outbox :: "workflow_state \<Rightarrow> timestamp \<Rightarrow> outbox_entry list" where
  "due_outbox ws now = filter (\<lambda>e. is_due e now) (map snd (ws_outbox ws))"

definition insert_inbox :: "inbox_entry \<Rightarrow> workflow_state \<Rightarrow> workflow_state" where
  "insert_inbox e ws = ws\<lparr>
     ws_inbox_deduplication := (case ie_deduplication_key e of
        Some key \<Rightarrow> bt_insert key (ie_message_id e) (ws_inbox_deduplication ws) | None \<Rightarrow> ws_inbox_deduplication ws),
     ws_updated_at := ie_updated_at e,
     ws_inbox := bt_insert (ie_message_id e) e (ws_inbox ws)\<rparr>"

definition insert_outbox :: "outbox_entry \<Rightarrow> workflow_state \<Rightarrow> workflow_state" where
  "insert_outbox e ws = ws\<lparr>
     ws_outbox_deduplication := (case oe_deduplication_key e of
        Some key \<Rightarrow> bt_insert key (oe_message_id e) (ws_outbox_deduplication ws) | None \<Rightarrow> ws_outbox_deduplication ws),
     ws_updated_at := oe_updated_at e,
     ws_outbox := bt_insert (oe_message_id e) e (ws_outbox ws)\<rparr>"

definition update_inbox_status :: "workflow_state \<Rightarrow> message_id \<Rightarrow> inbox_status \<Rightarrow> timestamp \<Rightarrow> (inbox_entry \<times> workflow_state) option" where
  "update_inbox_status ws mid status now =
     (case map_of (ws_inbox ws) mid of
        None \<Rightarrow> None
      | Some e \<Rightarrow> Some (inbox_set_status status now e,
          ws\<lparr>ws_inbox := bt_adjust mid (inbox_set_status status now) (ws_inbox ws), ws_updated_at := now\<rparr>))"

definition update_outbox ::
  "workflow_state \<Rightarrow> message_id \<Rightarrow> (outbox_entry \<Rightarrow> outbox_entry) \<Rightarrow> (outbox_entry \<times> workflow_state) option"
where
  "update_outbox ws mid update =
     (case map_of (ws_outbox ws) mid of
        None \<Rightarrow> None
      | Some e \<Rightarrow> Some (update e,
          ws\<lparr>ws_outbox := bt_adjust mid update (ws_outbox ws), ws_updated_at := oe_updated_at (update e)\<rparr>))"

section \<open>Compaction\<close>

record compaction_policy =
  cp_inbox_retention_ms :: "u64 option"
  cp_outbox_retention_ms :: "u64 option"
  cp_deduplication_retention_ms :: "u64 option"

definition compaction_disabled :: compaction_policy where
  "compaction_disabled = \<lparr>cp_inbox_retention_ms = None, cp_outbox_retention_ms = None, cp_deduplication_retention_ms = None\<rparr>"

record compaction_report =
  cr_inbox_entries :: nat
  cr_inbox_keys :: nat
  cr_outbox_entries :: nat
  cr_outbox_keys :: nat

definition empty_report :: compaction_report where
  "empty_report = \<lparr>cr_inbox_entries = 0, cr_inbox_keys = 0, cr_outbox_entries = 0, cr_outbox_keys = 0\<rparr>"

definition report_is_empty :: "compaction_report \<Rightarrow> bool" where
  "report_is_empty r \<longleftrightarrow> cr_inbox_entries r = 0 \<and> cr_inbox_keys r = 0 \<and> cr_outbox_entries r = 0 \<and> cr_outbox_keys r = 0"

definition window_elapsed :: "timestamp \<Rightarrow> u64 \<Rightarrow> timestamp \<Rightarrow> bool" where
  "window_elapsed t retention now \<longleftrightarrow> retention \<le> sat_sub now t"

definition should_remove_terminal_entry :: "timestamp \<Rightarrow> u64 option \<Rightarrow> bool \<Rightarrow> u64 option \<Rightarrow> timestamp \<Rightarrow> bool" where
  "should_remove_terminal_entry terminal_at entry_retention has_key key_retention now =
     (case entry_retention of
        None \<Rightarrow> False
      | Some retention \<Rightarrow>
          if \<not> window_elapsed terminal_at retention now then False
          else if \<not> has_key then True
          else (case key_retention of None \<Rightarrow> False | Some retention \<Rightarrow> window_elapsed terminal_at retention now))"

definition inbox_removable :: "compaction_policy \<Rightarrow> timestamp \<Rightarrow> inbox_entry \<Rightarrow> bool" where
  "inbox_removable p now e \<longleftrightarrow> ie_status e = InCompleted
     \<and> should_remove_terminal_entry (ie_updated_at e) (cp_inbox_retention_ms p) (ie_deduplication_key e \<noteq> None)
         (cp_deduplication_retention_ms p) now"

definition outbox_removable :: "compaction_policy \<Rightarrow> timestamp \<Rightarrow> outbox_entry \<Rightarrow> bool" where
  "outbox_removable p now e \<longleftrightarrow> oe_status e \<in> {OutDispatched, OutExhausted, OutCancelled}
     \<and> should_remove_terminal_entry (oe_updated_at e) (cp_outbox_retention_ms p) (oe_deduplication_key e \<noteq> None)
         (cp_deduplication_retention_ms p) now"

text \<open>The removal loop, the same for both sides: entries, index, removed entries and removed keys.\<close>

fun remove_entries ::
  "('e \<Rightarrow> dedup_key option) \<Rightarrow> message_id list \<Rightarrow> (message_id, 'e) btree \<times> (dedup_key, message_id) btree \<times> nat \<times> nat
     \<Rightarrow> (message_id, 'e) btree \<times> (dedup_key, message_id) btree \<times> nat \<times> nat"
where
  "remove_entries key_of [] st = st"
| "remove_entries key_of (mid # mids) (entries, index, n, k) =
     remove_entries key_of mids
       (case map_of entries mid of
          None \<Rightarrow> (entries, index, n, k)
        | Some e \<Rightarrow>
            (case key_of e of
               None \<Rightarrow> (bt_remove mid entries, index, n + 1, k)
             | Some key \<Rightarrow>
                 (bt_remove mid entries, bt_remove key index, n + 1,
                  if map_of index key \<noteq> None then k + 1 else k)))"

definition compact :: "workflow_state \<Rightarrow> compaction_policy \<Rightarrow> timestamp \<Rightarrow> compaction_report \<times> workflow_state" where
  "compact ws p now =
     (let (inbox, inbox_keys, in_n, in_k) = remove_entries ie_deduplication_key
            (map fst (filter (\<lambda>(_, e). inbox_removable p now e) (ws_inbox ws))) (ws_inbox ws, ws_inbox_deduplication ws, 0, 0);
          (outbox, outbox_keys, out_n, out_k) = remove_entries oe_deduplication_key
            (map fst (filter (\<lambda>(_, e). outbox_removable p now e) (ws_outbox ws))) (ws_outbox ws, ws_outbox_deduplication ws, 0, 0);
          report = \<lparr>cr_inbox_entries = in_n, cr_inbox_keys = in_k, cr_outbox_entries = out_n, cr_outbox_keys = out_k\<rparr>;
          ws = ws\<lparr>ws_inbox := inbox, ws_inbox_deduplication := inbox_keys, ws_outbox := outbox, ws_outbox_deduplication := outbox_keys\<rparr>
      in (report, if report_is_empty report then ws else ws\<lparr>ws_updated_at := now\<rparr>))"

section \<open>Retry delays\<close>

lemma min_mul_sat: "1 \<le> y \<Longrightarrow> min (min x m * y) m = min (x * y) m" for x y m :: nat
proof (cases "x \<le> m")
  case False
  assume "1 \<le> y"
  then have "m * 1 \<le> m * y" "x * 1 \<le> x * y"
    by (rule mult_le_mono2)+
  then have "m \<le> m * y" "m \<le> x * y"
    using False by (simp_all only: mult_1_right)
  then show ?thesis
    using False by (simp add: min_absorb2)
qed (simp add: min_absorb1)

lemma unat_backoff_steps:
  "unat factor \<ge> 1 \<Longrightarrow> unat (backoff_steps n factor delay) = min (unat delay * unat factor ^ n) (2 ^ 64 - 1)"
proof (induction n arbitrary: delay)
  case 0
  then show ?case
    using unat_less_two_power [of delay] by (simp add: min_def)
next
  case (Suc n)
  let ?M = "2 ^ 64 - 1 :: nat" and ?f = "unat factor"
  have "unat (backoff_steps (Suc n) factor delay) = min (min (unat delay * ?f) ?M * ?f ^ n) ?M"
    using Suc by (simp add: unat_sat_mul)
  also have "\<dots> = min (unat delay * ?f * ?f ^ n) ?M"
    using Suc.prems by (intro min_mul_sat) simp
  finally show ?case
    by (simp add: mult.assoc)
qed

lemma unat_min_word: "unat (min a b) = min (unat a) (unat b)"
  by (simp add: min_def word_le_nat_alt)

lemma unat_max_of: "unat (max a b) = max (unat a) (unat b)"
  by (simp add: max_def word_le_nat_alt)

lemma unat_u64_of_u32: "unat (ucast (a :: u32) :: u64) = unat a"
  using unat_less_two_power [of a] by (simp add: unsigned_ucast_eq take_bit_nat_eq_self)

definition retry_delay_spec :: "retry_policy \<Rightarrow> nat \<Rightarrow> nat" where
  "retry_delay_spec p attempts = min (2 ^ 64 - 1)
     (min (unat (rp_initial_backoff_millis p) * max 1 (unat (rp_multiplier p)) ^ (attempts - 1)) (unat (rp_max_backoff_millis p))
      + unat (jitter_millis (rp_jitter p)))"

lemma delay_after_failure_spec: "unat (delay_after_failure p a) = retry_delay_spec p (unat a)"
proof -
  let ?f = "ucast (max (rp_multiplier p) 1) :: u64"
  have f: "unat ?f = max 1 (unat (rp_multiplier p))"
    by (simp add: unat_u64_of_u32 unat_max_of max.commute)
  then have "unat (backoff_steps (unat (sat_sub a 1)) ?f (rp_initial_backoff_millis p))
      = min (unat (rp_initial_backoff_millis p) * max 1 (unat (rp_multiplier p)) ^ (unat a - 1)) (2 ^ 64 - 1)"
    by (simp add: unat_backoff_steps unat_sat_sub)
  moreover have "unat (rp_max_backoff_millis p) \<le> 2 ^ 64 - 1"
    using unat_less_two_power [of "rp_max_backoff_millis p"] by simp
  ultimately show ?thesis
    by (simp add: delay_after_failure_def Let_def unat_sat_add unat_min_word retry_delay_spec_def min.commute min.left_commute min.assoc)
      (simp add: min_def)
qed

lemma retry_delay_spec_mono: "a \<le> b \<Longrightarrow> retry_delay_spec p a \<le> retry_delay_spec p b"
proof -
  assume "a \<le> b"
  then have "max 1 (unat (rp_multiplier p)) ^ (a - 1) \<le> max 1 (unat (rp_multiplier p)) ^ (b - 1)"
    by (intro power_increasing) auto
  then have "unat (rp_initial_backoff_millis p) * max 1 (unat (rp_multiplier p)) ^ (a - 1)
      \<le> unat (rp_initial_backoff_millis p) * max 1 (unat (rp_multiplier p)) ^ (b - 1)"
    by (rule mult_le_mono2)
  then show ?thesis
    unfolding retry_delay_spec_def by (intro min.mono add_le_mono) auto
qed

end
