(* ===== verification/Workflow_Index.thy ===== *)
theory Workflow_Index
  imports Workflow_Model
begin

text \<open>
  The invariant of the workflow snapshot: the deduplication indexes agree with the entries. Every
  operation of the snapshot keeps it, and compaction removes exactly the removable entries.
\<close>

section \<open>Entries and their deduplication index\<close>

text \<open>
  The index maps a key exactly to the entry that carries it, so no two entries share a key.
\<close>

definition indexed ::
  "('e \<Rightarrow> message_id) \<Rightarrow> ('e \<Rightarrow> dedup_key option) \<Rightarrow> (message_id, 'e) btree \<Rightarrow> (dedup_key, message_id) btree \<Rightarrow> bool"
where
  "indexed id_of key_of entries index \<longleftrightarrow> bt_ok entries \<and> bt_ok index
     \<and> (\<forall>m e. map_of entries m = Some e \<longrightarrow> id_of e = m)
     \<and> (\<forall>key m. map_of index key = Some m \<longleftrightarrow> (\<exists>e. map_of entries m = Some e \<and> key_of e = Some key))"

definition workflow_ok :: "workflow_state \<Rightarrow> bool" where
  "workflow_ok ws \<longleftrightarrow> indexed ie_message_id ie_deduplication_key (ws_inbox ws) (ws_inbox_deduplication ws)
     \<and> indexed oe_message_id oe_deduplication_key (ws_outbox ws) (ws_outbox_deduplication ws)"

lemma indexedD:
  assumes "indexed id_of key_of entries index"
  shows "bt_ok entries" "bt_ok index" "map_of entries m = Some e \<Longrightarrow> id_of e = m"
    "map_of index key = Some m \<longleftrightarrow> (\<exists>e. map_of entries m = Some e \<and> key_of e = Some key)"
  using assms unfolding indexed_def by blast+

lemma indexedI:
  assumes "bt_ok entries" "bt_ok index" "\<And>m e. map_of entries m = Some e \<Longrightarrow> id_of e = m"
    "\<And>key m. map_of index key = Some m \<longleftrightarrow> (\<exists>e. map_of entries m = Some e \<and> key_of e = Some key)"
  shows "indexed id_of key_of entries index"
  unfolding indexed_def using assms by blast

lemma indexed_empty: "indexed id_of key_of [] []"
  by (simp add: indexed_def)

lemma indexed_insert:
  assumes ok: "indexed id_of key_of entries index" and fresh: "map_of entries (id_of e) = None"
    and key: "\<And>k. key_of e = Some k \<Longrightarrow> map_of index k = None"
  shows "indexed id_of key_of (bt_insert (id_of e) e entries)
    (case key_of e of Some k \<Rightarrow> bt_insert k (id_of e) index | None \<Rightarrow> index)"
proof -
  note D = indexedD [OF ok]
  have idx: "map_of (case key_of e of Some k \<Rightarrow> bt_insert k (id_of e) index | None \<Rightarrow> index) k = Some m \<longleftrightarrow>
      (\<exists>x. map_of (bt_insert (id_of e) e entries) m = Some x \<and> key_of x = Some k)" for k m
  proof (cases "m = id_of e")
    case True
    have "map_of index k \<noteq> Some (id_of e)"
      using D(4) [of k "id_of e"] fresh by simp
    with True show ?thesis
      by (cases "key_of e") auto
  next
    case False
    show ?thesis
    proof (cases "key_of e = Some k")
      case True
      then have "map_of index k = None"
        by (rule key)
      with D(4) [of k m] True False show ?thesis
        by simp
    next
      case False
      with \<open>m \<noteq> id_of e\<close> D(4) [of k m] show ?thesis
        by (cases "key_of e") auto
    qed
  qed
  have ids: "id_of x = m" if x: "map_of (bt_insert (id_of e) e entries) m = Some x" for m x
  proof (cases "m = id_of e")
    case True
    with x have "x = e" by (simp only: map_of_bt_insert fun_upd_same option.inject)
    with True show ?thesis by simp
  next
    case False
    with x have "map_of entries m = Some x" by simp
    then show ?thesis by (rule D(3))
  qed
  have "bt_ok (case key_of e of Some k \<Rightarrow> bt_insert k (id_of e) index | None \<Rightarrow> index)"
    using D(2) by (simp split: option.splits)
  from indexedI [OF _ this ids idx] D(1) show ?thesis
    by simp
qed

lemma indexed_adjust:
  assumes ok: "indexed id_of key_of entries index" and same: "\<And>e. id_of (f e) = id_of e" "\<And>e. key_of (f e) = key_of e"
  shows "indexed id_of key_of (bt_adjust m f entries) index"
proof -
  note D = indexedD [OF ok]
  have look: "map_of (bt_adjust m f entries) n = map_option (\<lambda>e. if n = m then f e else e) (map_of entries n)" for n
    by (cases "n = m") (simp_all add: option.map_ident)
  have keys: "key_of (if n = m then f e else e) = key_of e" "id_of (if n = m then f e else e) = id_of e" for n e
    using same by simp_all
  have idx: "map_of index k = Some n \<longleftrightarrow> (\<exists>x. map_of (bt_adjust m f entries) n = Some x \<and> key_of x = Some k)" for k n
    unfolding D(4) look by (cases "map_of entries n") (simp_all only: option.map option.inject keys simp_thms ex_simps option.distinct)
  have ids: "id_of x = n" if x: "map_of (bt_adjust m f entries) n = Some x" for n x
  proof -
    obtain y where y: "map_of entries n = Some y" "x = (if n = m then f y else y)"
      using x unfolding look map_option_eq_Some by blast
    show ?thesis
      unfolding y(2) keys by (rule D(3) [OF y(1)])
  qed
  have "bt_ok (bt_adjust m f entries)"
    using D(1) by simp
  from indexedI [OF this D(2) ids idx] show ?thesis .
qed

lemma indexed_remove:
  assumes ok: "indexed id_of key_of entries index" and e: "map_of entries m = Some e"
  shows "indexed id_of key_of (bt_remove m entries) (case key_of e of Some k \<Rightarrow> bt_remove k index | None \<Rightarrow> index)"
proof -
  note D = indexedD [OF ok]
  have look: "map_of (bt_remove m entries) n = Some x \<longleftrightarrow> n \<noteq> m \<and> map_of entries n = Some x" for n x
    by simp
  have idx: "map_of (case key_of e of Some k \<Rightarrow> bt_remove k index | None \<Rightarrow> index) k = Some n \<longleftrightarrow>
      (\<exists>x. map_of (bt_remove m entries) n = Some x \<and> key_of x = Some k)" for k n
  proof (cases "key_of e = Some k")
    case True
    then have m: "map_of index k = Some m"
      using D(4) [of k m] e by simp
    have "n = m" if "map_of entries n = Some x" "key_of x = Some k" for x
    proof -
      have "map_of index k = Some n"
        unfolding D(4) using that by blast
      with m show ?thesis by simp
    qed
    with True show ?thesis
      unfolding look by auto
  next
    case False
    have "n \<noteq> m" if "map_of index k = Some n"
    proof
      assume "n = m"
      with that obtain x where "map_of entries m = Some x" "key_of x = Some k"
        using D(4) by blast
      with e False show False by simp
    qed
    moreover have "map_of (case key_of e of Some k \<Rightarrow> bt_remove k index | None \<Rightarrow> index) k = map_of index k"
      using False by (cases "key_of e") auto
    ultimately show ?thesis
      unfolding look using D(4) [of k n] by auto
  qed
  have ids: "id_of x = n" if "map_of (bt_remove m entries) n = Some x" for n x
    using that unfolding look by (intro D(3)) simp
  have "bt_ok (case key_of e of Some k \<Rightarrow> bt_remove k index | None \<Rightarrow> index)"
    using D(2) by (simp split: option.splits)
  from indexedI [OF _ this ids idx] D(1) show ?thesis
    by simp
qed

lemma filter_not_Cons:
  "filter (\<lambda>p. fst p \<notin> set mids) (bt_remove mid entries) = filter (\<lambda>p. fst p \<notin> set (mid # mids)) entries"
  by (induction entries) (auto simp: bt_remove_def)

lemma bt_remove_absent: "map_of entries mid = None \<Longrightarrow> bt_remove mid entries = entries"
  by (auto simp: bt_remove_def map_of_eq_None_iff filter_id_conv)

lemma remove_entries_result:
  assumes "indexed id_of key_of entries index" and "remove_entries key_of mids (entries, index, n, k) = (entries', index', n', k')"
  shows "indexed id_of key_of entries' index' \<and> entries' = filter (\<lambda>p. fst p \<notin> set mids) entries"
  using assms
proof (induction mids arbitrary: entries index n k)
  case (Cons mid mids)
  show ?case
  proof (cases "map_of entries mid")
    case None
    then have "remove_entries key_of mids (entries, index, n, k) = (entries', index', n', k')"
      using Cons.prems(2) by simp
    from Cons.IH [OF Cons.prems(1) this] filter_not_Cons [of mids mid entries] bt_remove_absent [OF None] show ?thesis
      by auto
  next
    case (Some e)
    obtain k2 where "remove_entries key_of mids
        (bt_remove mid entries, (case key_of e of Some key \<Rightarrow> bt_remove key index | None \<Rightarrow> index), n + 1, k2) = (entries', index', n', k')"
      using Cons.prems(2) Some by (cases "key_of e") auto
    from Cons.IH [OF indexed_remove [OF Cons.prems(1) Some] this] filter_not_Cons [of mids mid entries] show ?thesis
      by auto
  qed
qed simp

section \<open>Operations of the snapshot\<close>

lemma workflow_ok_empty: "workflow_ok (empty_workflow w now)"
  by (simp add: workflow_ok_def empty_workflow_def indexed_empty)

lemma by_key_iff:
  assumes "workflow_ok ws"
  shows "inbox_entry_by_key ws key = Some e \<longleftrightarrow> map_of (ws_inbox ws) (ie_message_id e) = Some e \<and> ie_deduplication_key e = Some key"
    and "outbox_entry_by_key ws key = Some o' \<longleftrightarrow> map_of (ws_outbox ws) (oe_message_id o') = Some o' \<and> oe_deduplication_key o' = Some key"
proof -
  have gen: "Option.bind (map_of index key) (map_of entries) = Some x \<longleftrightarrow> map_of entries (id_of x) = Some x \<and> key_of x = Some key"
    if ix: "indexed id_of key_of entries index" for id_of :: "'z \<Rightarrow> message_id" and key_of entries index x
  proof
    assume "Option.bind (map_of index key) (map_of entries) = Some x"
    then obtain m where m: "map_of index key = Some m" "map_of entries m = Some x"
      by (auto simp: bind_eq_Some_conv)
    then obtain y where "map_of entries m = Some y" "key_of y = Some key"
      using indexedD(4) [OF ix] by blast
    with m indexedD(3) [OF ix m(2)] show "map_of entries (id_of x) = Some x \<and> key_of x = Some key"
      by simp
  next
    assume x: "map_of entries (id_of x) = Some x \<and> key_of x = Some key"
    then have "map_of index key = Some (id_of x)"
      using indexedD(4) [OF ix] by blast
    with x show "Option.bind (map_of index key) (map_of entries) = Some x"
      by simp
  qed
  show "inbox_entry_by_key ws key = Some e \<longleftrightarrow> map_of (ws_inbox ws) (ie_message_id e) = Some e \<and> ie_deduplication_key e = Some key"
    unfolding inbox_entry_by_key_def by (rule gen) (use assms in \<open>simp add: workflow_ok_def\<close>)
  show "outbox_entry_by_key ws key = Some o' \<longleftrightarrow> map_of (ws_outbox ws) (oe_message_id o') = Some o' \<and> oe_deduplication_key o' = Some key"
    unfolding outbox_entry_by_key_def by (rule gen) (use assms in \<open>simp add: workflow_ok_def\<close>)
qed

lemma by_key_None:
  assumes "workflow_ok ws"
  shows "inbox_entry_by_key ws key = None \<Longrightarrow> map_of (ws_inbox_deduplication ws) key = None"
    and "outbox_entry_by_key ws key = None \<Longrightarrow> map_of (ws_outbox_deduplication ws) key = None"
proof -
  have gen: "map_of index key = None" if ix: "indexed id_of key_of entries index" and none: "Option.bind (map_of index key) (map_of entries) = None"
    for id_of :: "'z \<Rightarrow> message_id" and key_of entries index
  proof (cases "map_of index key")
    case (Some m)
    then obtain e where "map_of entries m = Some e"
      using indexedD(4) [OF ix] by blast
    with Some none show ?thesis by simp
  qed
  show "map_of (ws_inbox_deduplication ws) key = None" if "inbox_entry_by_key ws key = None"
    using assms that unfolding workflow_ok_def inbox_entry_by_key_def by (elim conjE) (rule gen)
  show "map_of (ws_outbox_deduplication ws) key = None" if "outbox_entry_by_key ws key = None"
    using assms that unfolding workflow_ok_def outbox_entry_by_key_def by (elim conjE) (rule gen)
qed

lemma workflow_ok_insert_inbox:
  assumes "workflow_ok ws" and "inbox_entry_of ws (ie_message_id e) = None"
    and "\<And>key. ie_deduplication_key e = Some key \<Longrightarrow> inbox_entry_by_key ws key = None"
  shows "workflow_ok (insert_inbox e ws)"
proof -
  have "indexed ie_message_id ie_deduplication_key (bt_insert (ie_message_id e) e (ws_inbox ws))
      (case ie_deduplication_key e of Some k \<Rightarrow> bt_insert k (ie_message_id e) (ws_inbox_deduplication ws) | None \<Rightarrow> ws_inbox_deduplication ws)"
    by (rule indexed_insert) (use assms by_key_None in \<open>auto simp: workflow_ok_def inbox_entry_of_def\<close>)
  with assms(1) show ?thesis
    by (simp add: workflow_ok_def insert_inbox_def)
qed

lemma workflow_ok_insert_outbox:
  assumes "workflow_ok ws" and "outbox_entry_of ws (oe_message_id e) = None"
    and "\<And>key. oe_deduplication_key e = Some key \<Longrightarrow> outbox_entry_by_key ws key = None"
  shows "workflow_ok (insert_outbox e ws)"
proof -
  have "indexed oe_message_id oe_deduplication_key (bt_insert (oe_message_id e) e (ws_outbox ws))
      (case oe_deduplication_key e of Some k \<Rightarrow> bt_insert k (oe_message_id e) (ws_outbox_deduplication ws) | None \<Rightarrow> ws_outbox_deduplication ws)"
    by (rule indexed_insert) (use assms by_key_None in \<open>auto simp: workflow_ok_def outbox_entry_of_def\<close>)
  with assms(1) show ?thesis
    by (simp add: workflow_ok_def insert_outbox_def)
qed

lemma workflow_ok_update_inbox:
  "workflow_ok ws \<Longrightarrow> update_inbox_status ws mid status now = Some (e, ws') \<Longrightarrow> workflow_ok ws'"
  by (auto simp: update_inbox_status_def workflow_ok_def inbox_set_status_def split: option.splits intro!: indexed_adjust)

definition keeps_identity :: "(outbox_entry \<Rightarrow> outbox_entry) \<Rightarrow> bool" where
  "keeps_identity f \<longleftrightarrow> (\<forall>e. oe_message_id (f e) = oe_message_id e \<and> oe_deduplication_key (f e) = oe_deduplication_key e
     \<and> oe_retry_policy (f e) = oe_retry_policy e)"

lemma keeps_identity_simps [simp]:
  "keeps_identity (outbox_set_status status now)" "keeps_identity (mark_dispatched now)" "keeps_identity (mark_cancelled now)"
  "keeps_identity (\<lambda>e. fst (outbox_record_failure now message e))" "keeps_identity (record_definitive_failure now message)"
  "keeps_identity (\<lambda>e. if is_cancellable e then mark_cancelled now e else e)"
  by (simp_all add: keeps_identity_def outbox_set_status_def mark_dispatched_def mark_cancelled_def outbox_record_failure_def
    record_definitive_failure_def Let_def)

lemma workflow_ok_update_outbox:
  "workflow_ok ws \<Longrightarrow> keeps_identity f \<Longrightarrow> update_outbox ws mid f = Some (e, ws') \<Longrightarrow> workflow_ok ws'"
  by (auto simp: update_outbox_def workflow_ok_def keeps_identity_def split: option.splits intro!: indexed_adjust)

text \<open>Compaction keeps the invariant and removes exactly the removable entries.\<close>

lemma filter_removed:
  assumes "bt_ok m"
  shows "filter (\<lambda>p. fst p \<notin> set (map fst (filter (\<lambda>(_, e). P e) m))) m = filter (\<lambda>(_, e). \<not> P e) m"
proof (rule filter_cong [OF refl])
  fix p assume p: "p \<in> set m"
  obtain k v where kv: "p = (k, v)"
    by fastforce
  have "k \<in> fst ` {x \<in> set m. case x of (_, e) \<Rightarrow> P e} \<longleftrightarrow> P v"
  proof
    assume "k \<in> fst ` {x \<in> set m. case x of (_, e) \<Rightarrow> P e}"
    then obtain v' where v': "(k, v') \<in> set m" "P v'" by auto
    have "v' = v"
      by (rule eq_key_imp_eq_value [OF bt_ok_distinct [OF assms] v'(1)]) (use p kv in simp)
    with v' show "P v" by simp
  next
    assume "P v"
    with p kv have "(k, v) \<in> {x \<in> set m. case x of (_, e) \<Rightarrow> P e}" by simp
    then show "k \<in> fst ` {x \<in> set m. case x of (_, e) \<Rightarrow> P e}"
      by (rule rev_image_eqI) simp
  qed
  then show "(fst p \<notin> set (map fst (filter (\<lambda>(_, e). P e) m))) = (case p of (_, e) \<Rightarrow> \<not> P e)"
    by (simp add: kv)
qed

lemma compact_result:
  assumes ok: "workflow_ok ws" and run: "compact ws p now = (r, ws')"
  shows "workflow_ok ws'" and "ws_inbox ws' = filter (\<lambda>(_, e). \<not> inbox_removable p now e) (ws_inbox ws)"
    and "ws_outbox ws' = filter (\<lambda>(_, e). \<not> outbox_removable p now e) (ws_outbox ws)"
proof -
  let ?in = "remove_entries ie_deduplication_key (map fst (filter (\<lambda>(_, e). inbox_removable p now e) (ws_inbox ws)))
    (ws_inbox ws, ws_inbox_deduplication ws, 0, 0)"
  let ?out = "remove_entries oe_deduplication_key (map fst (filter (\<lambda>(_, e). outbox_removable p now e) (ws_outbox ws)))
    (ws_outbox ws, ws_outbox_deduplication ws, 0, 0)"
  obtain i ik n k where i: "?in = (i, ik, n, k)"
    by (metis prod_cases4)
  obtain o' ok' n' k' where o': "?out = (o', ok', n', k')"
    by (metis prod_cases4)
  have in_ok: "indexed ie_message_id ie_deduplication_key (ws_inbox ws) (ws_inbox_deduplication ws)"
    and out_ok: "indexed oe_message_id oe_deduplication_key (ws_outbox ws) (ws_outbox_deduplication ws)"
    using ok by (simp_all add: workflow_ok_def)
  note ri = conjunct1 [OF remove_entries_result [OF in_ok i]] conjunct2 [OF remove_entries_result [OF in_ok i]]
    and ro = conjunct1 [OF remove_entries_result [OF out_ok o']] conjunct2 [OF remove_entries_result [OF out_ok o']]
  have ws': "ws_inbox ws' = i" "ws_inbox_deduplication ws' = ik" "ws_outbox ws' = o'" "ws_outbox_deduplication ws' = ok'"
    using run unfolding compact_def i o' Let_def by auto
  show "workflow_ok ws'"
    unfolding workflow_ok_def ws' using ri(1) ro(1) by (rule conjI)
  show "ws_inbox ws' = filter (\<lambda>(_, e). \<not> inbox_removable p now e) (ws_inbox ws)"
    unfolding ws' ri(2) by (rule filter_removed [OF indexedD(1) [OF in_ok]])
  show "ws_outbox ws' = filter (\<lambda>(_, e). \<not> outbox_removable p now e) (ws_outbox ws)"
    unfolding ws' ro(2) by (rule filter_removed [OF indexedD(1) [OF out_ok]])
qed

lemma map_of_filter:
  assumes "bt_ok m"
  shows "map_of (filter (\<lambda>(_, e). P e) m) k = Some e \<longleftrightarrow> map_of m k = Some e \<and> P e"
  by (simp add: bt_get_iff [OF bt_ok_filter [OF assms]] bt_get_iff [OF assms])

section \<open>Properties\<close>

text \<open>
  When an entry may be removed, said without the code's test: it is terminal, the retention window of its side has
  passed since its last update, and if it carries a deduplication key the window of the keys has passed too. A window
  that is not configured never passes; times are compared as numbers, so nothing wraps.
\<close>

definition window_passed :: "u64 option \<Rightarrow> timestamp \<Rightarrow> timestamp \<Rightarrow> bool" where
  "window_passed window since now \<longleftrightarrow> (\<exists>w. window = Some w \<and> (w = 0 \<or> unat since + unat w \<le> unat now))"

definition inbox_expired :: "compaction_policy \<Rightarrow> timestamp \<Rightarrow> inbox_entry \<Rightarrow> bool" where
  "inbox_expired p now e \<longleftrightarrow> ie_status e = InCompleted \<and> window_passed (cp_inbox_retention_ms p) (ie_updated_at e) now
     \<and> (ie_deduplication_key e = None \<or> window_passed (cp_deduplication_retention_ms p) (ie_updated_at e) now)"

definition outbox_expired :: "compaction_policy \<Rightarrow> timestamp \<Rightarrow> outbox_entry \<Rightarrow> bool" where
  "outbox_expired p now e \<longleftrightarrow> oe_status e \<in> {OutDispatched, OutExhausted, OutCancelled}
     \<and> window_passed (cp_outbox_retention_ms p) (oe_updated_at e) now
     \<and> (oe_deduplication_key e = None \<or> window_passed (cp_deduplication_retention_ms p) (oe_updated_at e) now)"

lemma window_elapsed_passed: "window_elapsed t w now \<longleftrightarrow> window_passed (Some w) t now"
proof -
  have "w = 0 \<longleftrightarrow> unat w = 0"
    by (simp add: unat_eq_0)
  then show ?thesis
    by (auto simp: window_elapsed_def window_passed_def word_le_nat_alt unat_sat_sub)
qed

lemma removable_expired:
  "inbox_removable p now e = inbox_expired p now e" "outbox_removable p now e' = outbox_expired p now e'"
  by (auto simp: inbox_removable_def inbox_expired_def outbox_removable_def outbox_expired_def should_remove_terminal_entry_def
      window_elapsed_passed window_passed_def split: option.splits)

text \<open>C24: Compaction keeps the deduplication indexes consistent and removes exactly the expired
  entries: an entry is found afterwards, by its id and by its deduplication key, exactly if it was
  found before and has not expired. A completed inbox entry, or an outbox entry that was dispatched, exhausted or
  cancelled, has expired when the retention window of its side has passed since its last update and, if it has a
  deduplication key, the key window has passed as well.\<close>

theorem compaction_removes_exactly:
  assumes ok: "workflow_ok ws" and run: "compact ws p now = (r, ws')"
  shows "workflow_ok ws'
    \<and> (\<forall>mid e. inbox_entry_of ws' mid = Some e \<longleftrightarrow> inbox_entry_of ws mid = Some e \<and> \<not> inbox_expired p now e)
    \<and> (\<forall>mid e. outbox_entry_of ws' mid = Some e \<longleftrightarrow> outbox_entry_of ws mid = Some e \<and> \<not> outbox_expired p now e)
    \<and> (\<forall>key e. inbox_entry_by_key ws' key = Some e \<longleftrightarrow> inbox_entry_by_key ws key = Some e \<and> \<not> inbox_expired p now e)
    \<and> (\<forall>key e. outbox_entry_by_key ws' key = Some e \<longleftrightarrow> outbox_entry_by_key ws key = Some e \<and> \<not> outbox_expired p now e)"
proof -
  note c = compact_result [OF ok run, unfolded removable_expired]
  have "bt_ok (ws_inbox ws)" "bt_ok (ws_outbox ws)"
    using ok indexedD(1) unfolding workflow_ok_def by blast+
  note look = map_of_filter [OF this(1), of "\<lambda>e. \<not> inbox_expired p now e"] map_of_filter [OF this(2), of "\<lambda>e. \<not> outbox_expired p now e"]
  show ?thesis
    unfolding by_key_iff [OF ok] by_key_iff [OF c(1)] inbox_entry_of_def outbox_entry_of_def c(2,3) look
    using c(1) by blast
qed

definition done_entry :: "message_id \<Rightarrow> dedup_key option \<Rightarrow> inbox_entry" where
  "done_entry mid key = inbox_set_status InCompleted 100 (inbox_entry_new mid key ''t'' [] 50)"

definition aged_state :: workflow_state where
  "aged_state = insert_inbox (done_entry ''done'' None) (insert_inbox (done_entry ''keyed'' (Some ''k'')) (empty_workflow ''w'' 0))"

definition aging_policy :: compaction_policy where
  "aging_policy = compaction_disabled\<lparr>cp_inbox_retention_ms := Some 10, cp_deduplication_retention_ms := Some 200\<rparr>"

theorem compaction_removes_exactly_witness:
  "inbox_entry_of (snd (compact aged_state aging_policy 200)) ''done'' = None
   \<and> inbox_entry_by_key (snd (compact aged_state aging_policy 200)) ''k'' = Some (done_entry ''keyed'' (Some ''k''))"
proof -
  have "workflow_ok (insert_inbox (done_entry ''keyed'' (Some ''k'')) (empty_workflow ''w'' 0))"
    by (rule workflow_ok_insert_inbox [OF workflow_ok_empty])
      (simp_all add: empty_workflow_def inbox_entry_of_def inbox_entry_by_key_def)
  then have ok: "workflow_ok aged_state"
    unfolding aged_state_def
    by (rule workflow_ok_insert_inbox)
      (simp_all add: empty_workflow_def inbox_entry_of_def inbox_entry_by_key_def insert_inbox_def inbox_entry_new_def
        inbox_set_status_def done_entry_def)
  have found: "inbox_entry_of aged_state ''done'' = Some (done_entry ''done'' None)"
      "inbox_entry_by_key aged_state ''k'' = Some (done_entry ''keyed'' (Some ''k''))"
    by code_simp+
  have gone: "inbox_expired aging_policy 200 (done_entry ''done'' None)"
    and kept: "\<not> inbox_expired aging_policy 200 (done_entry ''keyed'' (Some ''k''))"
    by (simp_all add: inbox_expired_def window_passed_def aging_policy_def compaction_disabled_def done_entry_def
        inbox_set_status_def inbox_entry_new_def)
  note removed = compaction_removes_exactly [OF ok, of aging_policy 200, OF prod.collapse [symmetric]]
  have "inbox_entry_of (snd (compact aged_state aging_policy 200)) ''done'' = None"
  proof (rule ccontr)
    assume "inbox_entry_of (snd (compact aged_state aging_policy 200)) ''done'' \<noteq> None"
    then obtain e where "inbox_entry_of (snd (compact aged_state aging_policy 200)) ''done'' = Some e" by blast
    with removed have "inbox_entry_of aged_state ''done'' = Some e" "\<not> inbox_expired aging_policy 200 e" by blast+
    with found(1) gone show False by simp
  qed
  moreover have "inbox_entry_by_key (snd (compact aged_state aging_policy 200)) ''k'' = Some (done_entry ''keyed'' (Some ''k''))"
    using removed found(2) kept by blast
  ultimately show ?thesis by (rule conjI)
qed

text \<open>C25: The delay before the next attempt equals the closed form of capped exponential backoff,
  computed without overflow: the initial delay times the multiplier to the power of the failures
  minus one, capped by the maximal backoff, plus the jitter, saturated at the largest \<open>u64\<close>; and
  later attempts never wait less.\<close>

theorem retry_delay_closed_form:
  "unat (delay_after_failure p n) =
     min (2 ^ 64 - 1)
       (min (unat (rp_initial_backoff_millis p) * max 1 (unat (rp_multiplier p)) ^ (unat n - 1)) (unat (rp_max_backoff_millis p))
        + unat (jitter_millis (rp_jitter p)))
   \<and> (n \<le> m \<longrightarrow> delay_after_failure p n \<le> delay_after_failure p m)"
  using retry_delay_spec_mono [of "unat n" "unat m" p]
  by (simp add: delay_after_failure_spec word_le_nat_alt retry_delay_spec_def)

theorem retry_delay_closed_form_witness:
  "unat (delay_after_failure default_retry_policy 3) = 4000 \<and> delay_after_failure default_retry_policy 3 \<le> delay_after_failure default_retry_policy 9"
proof -
  have "(3 :: u32) \<le> 9" by simp
  with retry_delay_closed_form [of default_retry_policy 3 9] show ?thesis
    by (simp add: default_retry_policy_def retry_policy_new_def power2_eq_square)
qed

end
