(* ===== verification/Durable_Inbox.thy ===== *)
theory Durable_Inbox
  imports Workflow_Index Persistence_Store
begin

text \<open>
  The durable inbox and outbox runtime (\<open>crates/rakka-workflow/src/inbox.rs\<close> and \<open>error.rs\<close>). An
  inbox caches the record it last read or wrote and changes it only through a compare-and-set on a
  store that other inboxes may share, so the store is passed beside the inbox. Every call takes the
  clock readings it makes as arguments.
\<close>

section \<open>Commands and results\<close>

record inbox_command =
  ic_message_id :: message_id
  ic_deduplication_key :: "dedup_key option"
  ic_message_type :: string
  ic_payload :: bytes

definition inbox_command_new :: "message_id \<Rightarrow> string \<Rightarrow> bytes \<Rightarrow> inbox_command" where
  "inbox_command_new mid mtype payload =
     \<lparr>ic_message_id = mid, ic_deduplication_key = None, ic_message_type = mtype, ic_payload = payload\<rparr>"

datatype inbox_acceptance = InboxAccepted inbox_entry revision | InboxDuplicate inbox_entry revision

fun acceptance_entry :: "inbox_acceptance \<Rightarrow> inbox_entry" where
  "acceptance_entry (InboxAccepted e _) = e"
| "acceptance_entry (InboxDuplicate e _) = e"

record outbox_command =
  oc_message_id :: message_id
  oc_deduplication_key :: "dedup_key option"
  oc_target :: outbox_target
  oc_message_type :: string
  oc_payload :: bytes
  oc_scheduled_at :: "timestamp option"
  oc_retry_policy :: retry_policy

definition outbox_command_new :: "message_id \<Rightarrow> outbox_target \<Rightarrow> string \<Rightarrow> bytes \<Rightarrow> outbox_command" where
  "outbox_command_new mid target mtype payload = \<lparr>oc_message_id = mid, oc_deduplication_key = None, oc_target = target,
     oc_message_type = mtype, oc_payload = payload, oc_scheduled_at = None, oc_retry_policy = default_retry_policy\<rparr>"

datatype outbox_acceptance = OutboxScheduled outbox_entry revision | OutboxDuplicate outbox_entry revision

datatype outbox_dispatch_result = DispatchSuccess | DispatchFailure string | DispatchTimeout string

datatype workflow_error =
    WorkflowNotRecovered workflow_id
  | WorkflowRevisionConflict workflow_id revision revision
  | WorkflowPersistence durable_error
  | InboxEntryNotFound workflow_id message_id
  | OutboxEntryNotFound workflow_id message_id

fun workflow_error_code :: "workflow_error \<Rightarrow> string" where
  "workflow_error_code (WorkflowNotRecovered _) = ''not-recovered''"
| "workflow_error_code (WorkflowRevisionConflict _ _ _) = ''revision-conflict''"
| "workflow_error_code (WorkflowPersistence _) = ''persistence-error''"
| "workflow_error_code (InboxEntryNotFound _ _) = ''inbox-entry-not-found''"
| "workflow_error_code (OutboxEntryNotFound _ _) = ''outbox-entry-not-found''"

fun map_durable_error :: "workflow_id \<Rightarrow> durable_error \<Rightarrow> workflow_error" where
  "map_durable_error w (RevisionConflict _ expected actual) = WorkflowRevisionConflict w expected actual"
| "map_durable_error w e = WorkflowPersistence e"

section \<open>The inbox\<close>

record durable_inbox =
  di_workflow_id :: workflow_id
  di_persistence_id :: persistence_id
  di_record :: "workflow_state state_record option"
  di_stale :: bool

type_synonym 'st workflow_ops = "('st, workflow_state) state_store_ops"
type_synonym ('st, 'a) inbox_result = "(workflow_error, 'a) result \<times> 'st \<times> durable_inbox"

definition with_clock :: "workflow_id \<Rightarrow> durable_inbox" where
  "with_clock w = \<lparr>di_workflow_id = w, di_persistence_id = workflow_persistence_id w, di_record = None, di_stale = False\<rparr>"

definition recovered_record :: "durable_inbox \<Rightarrow> (workflow_error, workflow_state state_record) result" where
  "recovered_record d = (case di_record d of Some r \<Rightarrow> Inr r | None \<Rightarrow> Inl (WorkflowNotRecovered (di_workflow_id d)))"

definition inbox_revision :: "durable_inbox \<Rightarrow> (workflow_error, revision) result" where
  "inbox_revision d = map_sum id sr_revision (recovered_record d)"

definition inbox_state :: "durable_inbox \<Rightarrow> (workflow_error, workflow_state) result" where
  "inbox_state d = map_sum id sr_state (recovered_record d)"

definition inbox_recover :: "'st workflow_ops \<Rightarrow> timestamp \<Rightarrow> 'st \<Rightarrow> durable_inbox \<Rightarrow> ('st, workflow_state) inbox_result" where
  "inbox_recover ops now st d =
     (case so_load ops st (di_persistence_id d) of
        Inl e \<Rightarrow> (Inl (map_durable_error (di_workflow_id d) e), st, d)
      | Inr loaded \<Rightarrow>
          let r = (case loaded of Some r \<Rightarrow> r | None \<Rightarrow> missing_record (empty_workflow (di_workflow_id d) now))
          in (Inr (sr_state r), st, d\<lparr>di_record := Some r, di_stale := False\<rparr>))"

definition persistence_failure :: "durable_error \<Rightarrow> durable_inbox \<Rightarrow> workflow_error \<times> durable_inbox" where
  "persistence_failure e d =
     (map_durable_error (di_workflow_id d) e,
      case e of RevisionConflict _ _ _ \<Rightarrow> d\<lparr>di_stale := True\<rparr> | _ \<Rightarrow> d)"

definition persist_state ::
  "'st workflow_ops \<Rightarrow> revision \<Rightarrow> workflow_state \<Rightarrow> 'st \<Rightarrow> durable_inbox \<Rightarrow> ('st, revision) inbox_result"
where
  "persist_state ops expected next_state st d =
     (case so_compare_and_set ops st (di_persistence_id d) expected next_state of
        (Inl e, st) \<Rightarrow> (let (err, d) = persistence_failure e d in (Inl err, st, d))
      | (Inr r, st) \<Rightarrow> (Inr (sr_revision r), st, d\<lparr>di_record := Some r\<rparr>))"

definition inbox_duplicate :: "workflow_state \<Rightarrow> inbox_command \<Rightarrow> inbox_entry option" where
  "inbox_duplicate ws c =
     (case inbox_entry_of ws (ic_message_id c) of
        Some e \<Rightarrow> Some e
      | None \<Rightarrow> (case ic_deduplication_key c of Some key \<Rightarrow> inbox_entry_by_key ws key | None \<Rightarrow> None))"

definition accept ::
  "'st workflow_ops \<Rightarrow> inbox_command \<Rightarrow> timestamp \<Rightarrow> 'st \<Rightarrow> durable_inbox \<Rightarrow> ('st, inbox_acceptance) inbox_result"
where
  "accept ops c now st d =
     (case recovered_record d of
        Inl err \<Rightarrow> (Inl err, st, d)
      | Inr r \<Rightarrow>
          (case inbox_duplicate (sr_state r) c of
             Some e \<Rightarrow> (Inr (InboxDuplicate e (sr_revision r)), st, d)
           | None \<Rightarrow>
               let e = inbox_entry_new (ic_message_id c) (ic_deduplication_key c) (ic_message_type c) (ic_payload c) now
               in (case persist_state ops (sr_revision r) (insert_inbox e (sr_state r)) st d of
                     (Inl err, st, d) \<Rightarrow> (Inl err, st, d)
                   | (Inr revision, st, d) \<Rightarrow> (Inr (InboxAccepted e revision), st, d))))"

definition transition_inbox ::
  "'st workflow_ops \<Rightarrow> message_id \<Rightarrow> inbox_status \<Rightarrow> timestamp \<Rightarrow> 'st \<Rightarrow> durable_inbox \<Rightarrow> ('st, inbox_entry) inbox_result"
where
  "transition_inbox ops mid status now st d =
     (case recovered_record d of
        Inl err \<Rightarrow> (Inl err, st, d)
      | Inr r \<Rightarrow>
          (case update_inbox_status (sr_state r) mid status now of
             None \<Rightarrow> (Inl (InboxEntryNotFound (di_workflow_id d) mid), st, d)
           | Some (e, next_state) \<Rightarrow>
               (case persist_state ops (sr_revision r) next_state st d of
                  (Inl err, st, d) \<Rightarrow> (Inl err, st, d)
                | (Inr _, st, d) \<Rightarrow> (Inr e, st, d))))"

definition outbox_duplicate :: "workflow_state \<Rightarrow> outbox_command \<Rightarrow> outbox_entry option" where
  "outbox_duplicate ws c =
     (case outbox_entry_of ws (oc_message_id c) of
        Some e \<Rightarrow> Some e
      | None \<Rightarrow> (case oc_deduplication_key c of Some key \<Rightarrow> outbox_entry_by_key ws key | None \<Rightarrow> None))"

definition outbox_entry_for :: "outbox_command \<Rightarrow> timestamp \<Rightarrow> outbox_entry" where
  "outbox_entry_for c now = outbox_entry_new (oc_message_id c) (oc_deduplication_key c) (oc_target c) (oc_message_type c)
     (oc_payload c) (case oc_scheduled_at c of Some t \<Rightarrow> t | None \<Rightarrow> now) (oc_retry_policy c)"

definition schedule_outbox ::
  "'st workflow_ops \<Rightarrow> outbox_command \<Rightarrow> timestamp \<Rightarrow> 'st \<Rightarrow> durable_inbox \<Rightarrow> ('st, outbox_acceptance) inbox_result"
where
  "schedule_outbox ops c now st d =
     (case recovered_record d of
        Inl err \<Rightarrow> (Inl err, st, d)
      | Inr r \<Rightarrow>
          (case outbox_duplicate (sr_state r) c of
             Some e \<Rightarrow> (Inr (OutboxDuplicate e (sr_revision r)), st, d)
           | None \<Rightarrow>
               let e = outbox_entry_for c now
               in (case persist_state ops (sr_revision r) (insert_outbox e (sr_state r)) st d of
                     (Inl err, st, d) \<Rightarrow> (Inl err, st, d)
                   | (Inr revision, st, d) \<Rightarrow> (Inr (OutboxScheduled e revision), st, d))))"

section \<open>Outbox updates and dispatch\<close>

text \<open>
  The update calls read the cached record, change one entry and persist the snapshot; they differ
  in the change and in the value they return.
\<close>

definition persist_outbox_update ::
  "'st workflow_ops \<Rightarrow> message_id \<Rightarrow> (outbox_entry \<Rightarrow> outbox_entry) \<Rightarrow> 'st \<Rightarrow> durable_inbox \<Rightarrow> ('st, outbox_entry) inbox_result"
where
  "persist_outbox_update ops mid f st d =
     (case recovered_record d of
        Inl err \<Rightarrow> (Inl err, st, d)
      | Inr r \<Rightarrow>
          (case update_outbox (sr_state r) mid f of
             None \<Rightarrow> (Inl (OutboxEntryNotFound (di_workflow_id d) mid), st, d)
           | Some (e, next_state) \<Rightarrow>
               (case persist_state ops (sr_revision r) next_state st d of
                  (Inl err, st, d) \<Rightarrow> (Inl err, st, d)
                | (Inr _, st, d) \<Rightarrow> (Inr e, st, d))))"

definition mark_outbox_dispatching ::
  "'st workflow_ops \<Rightarrow> message_id \<Rightarrow> timestamp \<Rightarrow> 'st \<Rightarrow> durable_inbox \<Rightarrow> ('st, outbox_entry) inbox_result"
where
  "mark_outbox_dispatching ops mid now = persist_outbox_update ops mid (outbox_set_status OutDispatching now)"

definition record_outbox_success ::
  "'st workflow_ops \<Rightarrow> message_id \<Rightarrow> timestamp \<Rightarrow> 'st \<Rightarrow> durable_inbox \<Rightarrow> ('st, telemetry_event) inbox_result"
where
  "record_outbox_success ops mid now st d =
     (case persist_outbox_update ops mid (mark_dispatched now) st d of
        (Inl err, st, d) \<Rightarrow> (Inl err, st, d)
      | (Inr e, st, d) \<Rightarrow> (Inr (DispatchSucceeded (oe_message_id e) now), st, d))"

definition record_outbox_cancelled ::
  "'st workflow_ops \<Rightarrow> message_id \<Rightarrow> string \<Rightarrow> timestamp \<Rightarrow> 'st \<Rightarrow> durable_inbox \<Rightarrow> ('st, telemetry_event option) inbox_result"
where
  "record_outbox_cancelled ops mid message now st d =
     (case recovered_record d of
        Inl err \<Rightarrow> (Inl err, st, d)
      | Inr r \<Rightarrow>
          (case outbox_entry_of (sr_state r) mid of
             None \<Rightarrow> (Inl (OutboxEntryNotFound (di_workflow_id d) mid), st, d)
           | Some e \<Rightarrow>
               if \<not> is_cancellable e then (Inr None, st, d)
               else
                 (case persist_outbox_update ops mid (mark_cancelled now) st d of
                    (Inl err, st, d) \<Rightarrow> (Inl err, st, d)
                  | (Inr e, st, d) \<Rightarrow> (Inr (Some (DispatchCancelled (oe_message_id e) now message)), st, d))))"

definition failure_event :: "outbox_entry \<Rightarrow> failure_transition \<Rightarrow> string \<Rightarrow> bool \<Rightarrow> telemetry_event" where
  "failure_event e transition message timed_out =
     (case transition of
        RetryAt next_retry_at \<Rightarrow>
          if timed_out then DispatchTimedOut (oe_message_id e) (ra_attempts (oe_attempts e)) (Some next_retry_at) message
          else DispatchRetried (oe_message_id e) (ra_attempts (oe_attempts e)) next_retry_at message
      | RetriesExhausted \<Rightarrow> DispatchExhausted (oe_message_id e) (ra_attempts (oe_attempts e)) message)"

definition record_outbox_failure ::
  "'st workflow_ops \<Rightarrow> message_id \<Rightarrow> string \<Rightarrow> bool \<Rightarrow> timestamp \<Rightarrow> 'st \<Rightarrow> durable_inbox \<Rightarrow> ('st, telemetry_event) inbox_result"
where
  "record_outbox_failure ops mid message timed_out now st d =
     (case recovered_record d of
        Inl err \<Rightarrow> (Inl err, st, d)
      | Inr r \<Rightarrow>
          (case outbox_entry_of (sr_state r) mid of
             None \<Rightarrow> (Inl (OutboxEntryNotFound (di_workflow_id d) mid), st, d)
           | Some e \<Rightarrow>
               let transition = snd (outbox_record_failure now message e) in
               (case persist_outbox_update ops mid (\<lambda>e. fst (outbox_record_failure now message e)) st d of
                  (Inl err, st, d) \<Rightarrow> (Inl err, st, d)
                | (Inr e, st, d) \<Rightarrow> (Inr (failure_event e transition message timed_out), st, d))))"

definition record_outbox_exhausted ::
  "'st workflow_ops \<Rightarrow> message_id \<Rightarrow> string \<Rightarrow> timestamp \<Rightarrow> 'st \<Rightarrow> durable_inbox \<Rightarrow> ('st, telemetry_event) inbox_result"
where
  "record_outbox_exhausted ops mid message now st d =
     (case persist_outbox_update ops mid (record_definitive_failure now message) st d of
        (Inl err, st, d) \<Rightarrow> (Inl err, st, d)
      | (Inr e, st, d) \<Rightarrow> (Inr (DispatchExhausted (oe_message_id e) (ra_attempts (oe_attempts e)) message), st, d))"

definition inbox_recoverable :: "durable_inbox \<Rightarrow> (workflow_error, inbox_entry list) result" where
  "inbox_recoverable d = map_sum id recoverable_inbox (inbox_state d)"

definition inbox_due_outbox :: "durable_inbox \<Rightarrow> timestamp \<Rightarrow> (workflow_error, outbox_entry list) result" where
  "inbox_due_outbox d now = map_sum id (\<lambda>ws. due_outbox ws now) (inbox_state d)"

type_synonym 'x dispatcher = "'x \<Rightarrow> outbox_entry \<Rightarrow> outbox_dispatch_result \<times> 'x"

definition record_dispatch_result ::
  "'st workflow_ops \<Rightarrow> message_id \<Rightarrow> outbox_dispatch_result \<Rightarrow> timestamp \<Rightarrow> 'st \<Rightarrow> durable_inbox \<Rightarrow> ('st, telemetry_event) inbox_result"
where
  "record_dispatch_result ops mid result now =
     (case result of
        DispatchSuccess \<Rightarrow> record_outbox_success ops mid now
      | DispatchFailure message \<Rightarrow> record_outbox_failure ops mid message False now
      | DispatchTimeout message \<Rightarrow> record_outbox_failure ops mid message True now)"

text \<open>The loop over the due entries; each iteration reads the clock twice.\<close>

fun dispatch_entries ::
  "'st workflow_ops \<Rightarrow> 'x dispatcher \<Rightarrow> outbox_entry list \<Rightarrow> (nat \<Rightarrow> timestamp) \<Rightarrow> telemetry_event list \<Rightarrow> 'st \<Rightarrow> durable_inbox \<Rightarrow> 'x
     \<Rightarrow> (workflow_error, telemetry_event list) result \<times> 'st \<times> durable_inbox \<times> 'x"
where
  "dispatch_entries ops dispatch [] clock events st d x = (Inr events, st, d, x)"
| "dispatch_entries ops dispatch (e # due) clock events st d x =
     (case mark_outbox_dispatching ops (oe_message_id e) (clock 0) st d of
        (Inl err, st, d) \<Rightarrow> (Inl err, st, d, x)
      | (Inr dispatching, st, d) \<Rightarrow>
          (case dispatch x dispatching of
             (result, x) \<Rightarrow>
               (case record_dispatch_result ops (oe_message_id e) result (clock 1) st d of
                  (Inl err, st, d) \<Rightarrow> (Inl err, st, d, x)
                | (Inr event, st, d) \<Rightarrow>
                    dispatch_entries ops dispatch due (\<lambda>i. clock (i + 2)) (events @ [event]) st d x)))"

definition dispatch_due_outbox ::
  "'st workflow_ops \<Rightarrow> 'x dispatcher \<Rightarrow> (nat \<Rightarrow> timestamp) \<Rightarrow> 'st \<Rightarrow> durable_inbox \<Rightarrow> 'x
     \<Rightarrow> (workflow_error, telemetry_event list) result \<times> 'st \<times> durable_inbox \<times> 'x"
where
  "dispatch_due_outbox ops dispatch clock st d x =
     (case inbox_due_outbox d (clock 0) of
        Inl err \<Rightarrow> (Inl err, st, d, x)
      | Inr due \<Rightarrow> dispatch_entries ops dispatch due (\<lambda>i. clock (Suc i)) [] st d x)"

end
