(* ===== verification/Inbox_Runs.thy ===== *)
theory Inbox_Runs
  imports Durable_Inbox
begin

text \<open>
  Runs of any number of durable inboxes that share one store: inboxes are opened (also again, after
  a crash), and their calls interleave in any order. The abstract inbox of a workflow is the set of
  commands it accepted; every run keeps the stored snapshot equal to it, so a command is accepted
  at most once whatever the interleaving.
\<close>

section \<open>Calls and runs\<close>

datatype inbox_call =
    CallRecover
  | CallAccept inbox_command
  | CallTransition message_id inbox_status
  | CallSchedule outbox_command
  | CallMarkDispatching message_id
  | CallSuccess message_id
  | CallCancel message_id string
  | CallFailure message_id string bool
  | CallExhausted message_id string

definition quiet :: "('st, 'a) inbox_result \<Rightarrow> inbox_acceptance option \<times> 'st \<times> durable_inbox" where
  "quiet = apfst (\<lambda>_. None)"

fun perform ::
  "'st workflow_ops \<Rightarrow> inbox_call \<Rightarrow> timestamp \<Rightarrow> 'st \<Rightarrow> durable_inbox \<Rightarrow> inbox_acceptance option \<times> 'st \<times> durable_inbox"
where
  "perform ops CallRecover now st d = quiet (inbox_recover ops now st d)"
| "perform ops (CallAccept c) now st d =
     apfst (\<lambda>r. case r of Inl _ \<Rightarrow> None | Inr a \<Rightarrow> Some a) (accept ops c now st d)"
| "perform ops (CallTransition mid status) now st d = quiet (transition_inbox ops mid status now st d)"
| "perform ops (CallSchedule c) now st d = quiet (schedule_outbox ops c now st d)"
| "perform ops (CallMarkDispatching mid) now st d = quiet (mark_outbox_dispatching ops mid now st d)"
| "perform ops (CallSuccess mid) now st d = quiet (record_outbox_success ops mid now st d)"
| "perform ops (CallCancel mid message) now st d = quiet (record_outbox_cancelled ops mid message now st d)"
| "perform ops (CallFailure mid message timed_out) now st d = quiet (record_outbox_failure ops mid message timed_out now st d)"
| "perform ops (CallExhausted mid message) now st d = quiet (record_outbox_exhausted ops mid message now st d)"

type_synonym answers = "(workflow_id \<times> inbox_command \<times> inbox_acceptance) list"

fun answered :: "workflow_id \<Rightarrow> inbox_call \<Rightarrow> inbox_acceptance option \<Rightarrow> answers" where
  "answered w (CallAccept c) (Some a) = [(w, c, a)]"
| "answered w _ _ = []"

inductive inbox_run ::
  "'st workflow_ops \<Rightarrow> 'st \<Rightarrow> 'st \<Rightarrow> (nat \<Rightarrow> durable_inbox option) \<Rightarrow> answers \<Rightarrow> nat \<Rightarrow> bool"
for ops st0 where
  run_start: "inbox_run ops st0 st0 (\<lambda>_. None) [] 0"
| run_open: "inbox_run ops st0 st hs log n \<Longrightarrow> inbox_run ops st0 st (hs(i \<mapsto> with_clock w)) log n"
| run_call: "inbox_run ops st0 st hs log n \<Longrightarrow> hs i = Some d \<Longrightarrow> perform ops call now st d = (a, st', d') \<Longrightarrow>
    inbox_run ops st0 st' (hs(i \<mapsto> d')) (log @ answered (di_workflow_id d) call a) (Suc n)"

definition accepted :: "workflow_id \<Rightarrow> answers \<Rightarrow> inbox_command list" where
  "accepted w log = map (fst \<circ> snd) (filter (\<lambda>(w', _, a). w' = w \<and> (case a of InboxAccepted _ _ \<Rightarrow> True | _ \<Rightarrow> False)) log)"

section \<open>The abstract inbox\<close>

definition command_of :: "inbox_entry \<Rightarrow> inbox_command" where
  "command_of e = \<lparr>ic_message_id = ie_message_id e, ic_deduplication_key = ie_deduplication_key e,
     ic_message_type = ie_message_type e, ic_payload = ie_payload e\<rparr>"

definition abstract_inbox :: "workflow_state \<Rightarrow> message_id \<Rightarrow> inbox_command option" where
  "abstract_inbox ws mid = map_option command_of (inbox_entry_of ws mid)"

definition once_only :: "inbox_command list \<Rightarrow> bool" where
  "once_only cs \<longleftrightarrow> distinct (map ic_message_id cs) \<and> distinct (List.map_filter ic_deduplication_key cs)"

text \<open>Two commands compete when they share the message id or a deduplication key.\<close>

definition competes :: "inbox_command \<Rightarrow> inbox_command \<Rightarrow> bool" where
  "competes c c' \<longleftrightarrow> ic_message_id c = ic_message_id c'
     \<or> (ic_deduplication_key c \<noteq> None \<and> ic_deduplication_key c = ic_deduplication_key c')"

lemma accepted_simps [simp]:
  "accepted w [] = []" "accepted w (log @ log') = accepted w log @ accepted w log'"
  "accepted w [(w', c, InboxAccepted e r)] = (if w' = w then [c] else [])"
  "accepted w [(w', c, InboxDuplicate e r)] = []"
  by (simp_all add: accepted_def)

lemma command_of_simps [simp]:
  "ic_message_id (command_of e) = ie_message_id e" "ic_deduplication_key (command_of e) = ie_deduplication_key e"
  "command_of (inbox_set_status status now e) = command_of e"
  "command_of (inbox_entry_new (ic_message_id c) (ic_deduplication_key c) (ic_message_type c) (ic_payload c) now) = c"
  by (simp_all add: command_of_def inbox_set_status_def inbox_entry_new_def)

lemma abstract_inbox_insert:
  "abstract_inbox (insert_inbox e ws) = (abstract_inbox ws)(ie_message_id e \<mapsto> command_of e)"
  by (rule ext) (simp add: abstract_inbox_def inbox_entry_of_def insert_inbox_def)

lemma abstract_inbox_frame [simp]:
  "abstract_inbox (insert_outbox e ws) = abstract_inbox ws"
  "update_outbox ws mid f = Some (e', ws') \<Longrightarrow> abstract_inbox ws' = abstract_inbox ws"
  by (rule ext, auto simp: abstract_inbox_def inbox_entry_of_def insert_outbox_def update_outbox_def split: option.splits)+

lemma abstract_inbox_transition:
  assumes "update_inbox_status ws mid status now = Some (e, ws')"
  shows "abstract_inbox ws' = abstract_inbox ws"
proof (rule ext)
  fix m
  have "ws_inbox ws' = bt_adjust mid (inbox_set_status status now) (ws_inbox ws)"
    using assms by (auto simp: update_inbox_status_def split: option.splits)
  then show "abstract_inbox ws' m = abstract_inbox ws m"
    by (cases "m = mid") (simp_all add: abstract_inbox_def inbox_entry_of_def option.map_comp comp_def)
qed

text \<open>The duplicate check finds an accepted competitor when there is one.\<close>

lemma inbox_duplicate_Some:
  assumes ok: "workflow_ok ws" and dup: "inbox_duplicate ws c = Some e"
  shows "abstract_inbox ws (ie_message_id e) = Some (command_of e) \<and> competes c (command_of e)"
proof (cases "inbox_entry_of ws (ic_message_id c)")
  case (Some e')
  then have "e' = e" "map_of (ws_inbox ws) (ic_message_id c) = Some e"
    using dup by (simp_all add: inbox_duplicate_def inbox_entry_of_def)
  moreover have "ie_message_id e = ic_message_id c"
    using ok calculation(2) indexedD(3) unfolding workflow_ok_def by metis
  ultimately show ?thesis
    by (simp add: abstract_inbox_def inbox_entry_of_def competes_def)
next
  case None
  then obtain key where key: "ic_deduplication_key c = Some key" "inbox_entry_by_key ws key = Some e"
    using dup by (auto simp: inbox_duplicate_def split: option.splits)
  then show ?thesis
    using by_key_iff(1) [OF ok] by (simp add: abstract_inbox_def inbox_entry_of_def competes_def)
qed

lemma inbox_duplicate_None:
  assumes ok: "workflow_ok ws" and dup: "inbox_duplicate ws c = None" and c': "abstract_inbox ws mid = Some c'"
  shows "\<not> competes c c'"
proof -
  obtain e where e: "map_of (ws_inbox ws) mid = Some e" "c' = command_of e"
    using c' by (auto simp: abstract_inbox_def inbox_entry_of_def)
  have id: "ie_message_id e = mid"
    using ok e(1) indexedD(3) unfolding workflow_ok_def by metis
  have none: "inbox_entry_of ws (ic_message_id c) = None"
    using dup by (simp add: inbox_duplicate_def split: option.splits)
  have "ic_message_id c \<noteq> ie_message_id e"
    using none e(1) id by (auto simp: inbox_entry_of_def)
  moreover have "ic_deduplication_key c \<noteq> ie_deduplication_key e" if key: "ic_deduplication_key c = Some key" for key
  proof
    assume "ic_deduplication_key c = ie_deduplication_key e"
    then have "inbox_entry_by_key ws key = Some e"
      using by_key_iff(1) [OF ok] e(1) id key by simp
    with dup none key show False
      by (simp add: inbox_duplicate_def)
  qed
  ultimately show ?thesis
    unfolding competes_def e(2) by (cases "ic_deduplication_key c") auto
qed

section \<open>What one call does\<close>

text \<open>
  A call reloads the record, leaves store and record alone, or writes a successor of its record.
  A write either keeps the abstract inbox or accepts one new command.
\<close>

definition successor :: "workflow_state \<Rightarrow> workflow_state \<Rightarrow> bool" where
  "successor ws ws' \<longleftrightarrow> abstract_inbox ws' = abstract_inbox ws \<and> (workflow_ok ws \<longrightarrow> workflow_ok ws')"

inductive call_effect ::
  "'st workflow_ops \<Rightarrow> inbox_call \<Rightarrow> 'st \<Rightarrow> durable_inbox \<Rightarrow> inbox_acceptance option \<Rightarrow> 'st \<Rightarrow> durable_inbox \<Rightarrow> bool"
for ops call st d where
  effect_reload: "so_load ops st (di_persistence_id d) = Inr loaded \<Longrightarrow>
    r = (case loaded of Some r \<Rightarrow> r | None \<Rightarrow> missing_record (empty_workflow (di_workflow_id d) now)) \<Longrightarrow>
    call_effect ops call st d None st (d\<lparr>di_record := Some r, di_stale := False\<rparr>)"
| effect_none: "call_effect ops call st d None st d"
| effect_duplicate: "call = CallAccept c \<Longrightarrow> di_record d = Some r \<Longrightarrow> inbox_duplicate (sr_state r) c = Some e \<Longrightarrow>
    call_effect ops call st d (Some (InboxDuplicate e (sr_revision r))) st d"
| effect_refused: "so_compare_and_set ops st (di_persistence_id d) expected ws = (Inl err, st') \<Longrightarrow>
    call_effect ops call st d None st' (d\<lparr>di_stale := stale\<rparr>)"
| effect_write: "di_record d = Some r \<Longrightarrow> successor (sr_state r) ws \<Longrightarrow>
    so_compare_and_set ops st (di_persistence_id d) (sr_revision r) ws = (Inr r', st') \<Longrightarrow>
    call_effect ops call st d None st' (d\<lparr>di_record := Some r'\<rparr>)"
| effect_accept: "call = CallAccept c \<Longrightarrow> di_record d = Some r \<Longrightarrow> inbox_duplicate (sr_state r) c = None \<Longrightarrow>
    e = inbox_entry_new (ic_message_id c) (ic_deduplication_key c) (ic_message_type c) (ic_payload c) now \<Longrightarrow>
    so_compare_and_set ops st (di_persistence_id d) (sr_revision r) (insert_inbox e (sr_state r)) = (Inr r', st') \<Longrightarrow>
    call_effect ops call st d (Some (InboxAccepted e (sr_revision r'))) st' (d\<lparr>di_record := Some r'\<rparr>)"

lemma recovered_record_simps:
  "recovered_record d = Inr r \<longleftrightarrow> di_record d = Some r"
  "recovered_record d = Inl err \<longleftrightarrow> di_record d = None \<and> err = WorkflowNotRecovered (di_workflow_id d)"
  by (auto simp: recovered_record_def split: option.splits)

lemma persistence_failure_stale:
  "snd (persistence_failure e d) = d\<lparr>di_stale := (di_stale d \<or> (case e of RevisionConflict _ _ _ \<Rightarrow> True | _ \<Rightarrow> False))\<rparr>"
  by (cases e) (simp_all add: persistence_failure_def)

lemma persist_state_Inl:
  assumes "persist_state ops expected ws st d = (Inl err, st', d')"
  shows "call_effect ops call st d None st' d'"
proof -
  obtain e where e: "so_compare_and_set ops st (di_persistence_id d) expected ws = (Inl e, st')" "d' = snd (persistence_failure e d)"
    using assms by (cases "so_compare_and_set ops st (di_persistence_id d) expected ws")
      (auto simp: persist_state_def split: sum.splits prod.splits)
  show ?thesis
    unfolding e(2) persistence_failure_stale by (rule effect_refused [OF e(1)])
qed

lemma persist_state_Inr:
  assumes "persist_state ops expected ws st d = (Inr rv, st', d')"
  obtains r where "so_compare_and_set ops st (di_persistence_id d) expected ws = (Inr r, st')" "d' = d\<lparr>di_record := Some r\<rparr>"
    "rv = sr_revision r"
  using assms by (cases "so_compare_and_set ops st (di_persistence_id d) expected ws")
    (auto simp: persist_state_def persistence_failure_def split: sum.splits)

lemma persist_state_effect:
  assumes "persist_state ops (sr_revision r) ws st d = (res, st', d')" and "di_record d = Some r" and "successor (sr_state r) ws"
  shows "call_effect ops call st d None st' d'"
proof (cases res)
  case (Inl err)
  with assms(1) show ?thesis by (auto intro: persist_state_Inl)
next
  case (Inr rv)
  with assms(1) obtain r' where "so_compare_and_set ops st (di_persistence_id d) (sr_revision r) ws = (Inr r', st')"
      "d' = d\<lparr>di_record := Some r'\<rparr>"
    using persist_state_Inr by metis
  with assms(2,3) show ?thesis by (auto intro: effect_write)
qed

lemma successor_outbox:
  "keeps_identity f \<Longrightarrow> update_outbox ws mid f = Some (e, ws') \<Longrightarrow> successor ws ws'"
  by (auto simp: successor_def intro: workflow_ok_update_outbox)

lemma persist_outbox_effect:
  assumes "persist_outbox_update ops mid f st d = (res, st', d')" and "keeps_identity f"
  shows "call_effect ops call st d None st' d'"
proof (cases "di_record d")
  case None
  with assms(1) show ?thesis
    by (auto simp: persist_outbox_update_def recovered_record_def intro: effect_none)
next
  case (Some r)
  show ?thesis
  proof (cases "update_outbox (sr_state r) mid f")
    case None
    with assms(1) Some show ?thesis
      by (auto simp: persist_outbox_update_def recovered_record_def intro: effect_none)
  next
    case u: (Some p)
    obtain e ws where p: "p = (e, ws)" by fastforce
    obtain res' st'' d'' where run: "persist_state ops (sr_revision r) ws st d = (res', st'', d'')"
      by (metis prod_cases3)
    with assms(1) Some u p have "st'' = st'" "d'' = d'"
      by (auto simp: persist_outbox_update_def recovered_record_def split: sum.splits)
    with persist_state_effect [OF run Some] successor_outbox [OF assms(2) u [unfolded p]] show ?thesis by simp
  qed
qed

lemma quiet_simps [simp]: "quiet (res, st, d) = (None, st, d)"
  by (simp add: quiet_def)

lemma accept_effect:
  assumes run: "accept ops c now st d = (res, st', d')"
  shows "call_effect ops (CallAccept c) st d (case res of Inl _ \<Rightarrow> None | Inr a \<Rightarrow> Some a) st' d'"
proof (cases "di_record d")
  case None
  with run show ?thesis
    by (auto simp: accept_def recovered_record_def intro: effect_none)
next
  case (Some r)
  let ?e = "inbox_entry_new (ic_message_id c) (ic_deduplication_key c) (ic_message_type c) (ic_payload c) now"
  show ?thesis
  proof (cases "inbox_duplicate (sr_state r) c")
    case dup: (Some e)
    with run Some show ?thesis
      by (auto simp: accept_def recovered_record_def intro: effect_duplicate)
  next
    case None
    obtain res' st'' d'' where p: "persist_state ops (sr_revision r) (insert_inbox ?e (sr_state r)) st d = (res', st'', d'')"
      by (metis prod_cases3)
    show ?thesis
    proof (cases res')
      case (Inl err)
      with run Some None p have "res = Inl err" "st' = st''" "d' = d''"
        by (auto simp: accept_def recovered_record_def)
      with p Inl show ?thesis
        by (auto intro: persist_state_Inl)
    next
      case (Inr rv)
      then obtain r' where w: "so_compare_and_set ops st (di_persistence_id d) (sr_revision r) (insert_inbox ?e (sr_state r)) = (Inr r', st'')"
          "d'' = d\<lparr>di_record := Some r'\<rparr>" "rv = sr_revision r'"
        using persist_state_Inr p by metis
      have "res = Inr (InboxAccepted ?e (sr_revision r'))" "st' = st''" "d' = d''"
        using run Some None p Inr w(3) by (auto simp: accept_def recovered_record_def)
      with effect_accept [OF refl Some None refl w(1)] w(2) show ?thesis
        by simp
    qed
  qed
qed

lemma transition_effect:
  assumes run: "transition_inbox ops mid status now st d = (res, st', d')"
  shows "call_effect ops call st d None st' d'"
proof (cases "di_record d")
  case None
  with run show ?thesis
    by (auto simp: transition_inbox_def recovered_record_def intro: effect_none)
next
  case (Some r)
  show ?thesis
  proof (cases "update_inbox_status (sr_state r) mid status now")
    case None
    with run Some show ?thesis
      by (auto simp: transition_inbox_def recovered_record_def intro: effect_none)
  next
    case u: (Some p)
    obtain e ws where p: "p = (e, ws)" by fastforce
    obtain res' st'' d'' where w: "persist_state ops (sr_revision r) ws st d = (res', st'', d'')"
      by (metis prod_cases3)
    have "st'' = st'" "d'' = d'"
      using run Some u p w by (auto simp: transition_inbox_def recovered_record_def split: sum.splits)
    moreover have "successor (sr_state r) ws"
      using u p by (auto simp: successor_def intro: workflow_ok_update_inbox abstract_inbox_transition)
    ultimately show ?thesis
      using persist_state_effect [OF w Some] by simp
  qed
qed

lemma outbox_duplicate_None:
  "outbox_duplicate ws c = None \<Longrightarrow> outbox_entry_of ws (oc_message_id c) = None
     \<and> (\<forall>key. oc_deduplication_key c = Some key \<longrightarrow> outbox_entry_by_key ws key = None)"
  by (simp add: outbox_duplicate_def split: option.splits)

lemma schedule_effect:
  assumes run: "schedule_outbox ops c now st d = (res, st', d')"
  shows "call_effect ops call st d None st' d'"
proof (cases "di_record d")
  case None
  with run show ?thesis
    by (auto simp: schedule_outbox_def recovered_record_def intro: effect_none)
next
  case (Some r)
  show ?thesis
  proof (cases "outbox_duplicate (sr_state r) c")
    case dup: (Some e)
    with run Some show ?thesis
      by (auto simp: schedule_outbox_def recovered_record_def intro: effect_none)
  next
    case None
    obtain res' st'' d'' where w: "persist_state ops (sr_revision r) (insert_outbox (outbox_entry_for c now) (sr_state r)) st d = (res', st'', d'')"
      by (metis prod_cases3)
    have "st'' = st'" "d'' = d'"
      using run Some None w by (auto simp: schedule_outbox_def recovered_record_def split: sum.splits)
    moreover have "successor (sr_state r) (insert_outbox (outbox_entry_for c now) (sr_state r))"
      using outbox_duplicate_None [OF None]
      by (auto simp: successor_def outbox_entry_for_def outbox_entry_new_def intro!: workflow_ok_insert_outbox)
    ultimately show ?thesis
      using persist_state_effect [OF w Some] by simp
  qed
qed

lemma failure_effect:
  assumes "record_outbox_failure ops mid message timed_out now st d = (res, st', d')"
  shows "call_effect ops call st d None st' d'"
proof -
  let ?f = "\<lambda>e. fst (outbox_record_failure now message e)"
  obtain res' st'' d'' where w: "persist_outbox_update ops mid ?f st d = (res', st'', d'')"
    by (metis prod_cases3)
  have "st' = st'' \<and> d' = d'' \<or> st' = st \<and> d' = d"
    using assms w by (auto simp: record_outbox_failure_def Let_def split: sum.splits option.splits)
  with persist_outbox_effect [OF w] show ?thesis
    by (auto intro: effect_none)
qed

lemma cancel_effect:
  assumes "record_outbox_cancelled ops mid message now st d = (res, st', d')"
  shows "call_effect ops call st d None st' d'"
proof -
  obtain res' st'' d'' where w: "persist_outbox_update ops mid (mark_cancelled now) st d = (res', st'', d'')"
    by (metis prod_cases3)
  have "st' = st'' \<and> d' = d'' \<or> st' = st \<and> d' = d"
    using assms w by (auto simp: record_outbox_cancelled_def Let_def split: sum.splits option.splits if_splits)
  with persist_outbox_effect [OF w] show ?thesis
    by (auto intro: effect_none)
qed

lemma recover_effect:
  assumes "inbox_recover ops now st d = (res, st', d')"
  shows "call_effect ops call st d None st' d'"
  using assms
  by (cases "so_load ops st (di_persistence_id d)") (auto simp: inbox_recover_def Let_def intro: effect_none effect_reload)

lemma perform_effect:
  assumes "perform ops call now st d = (a, st', d')"
  shows "call_effect ops call st d a st' d'"
proof (cases call)
  case (CallAccept c)
  obtain res st'' d'' where run: "accept ops c now st d = (res, st'', d'')"
    by (metis prod_cases3)
  with assms accept_effect [OF run] CallAccept show ?thesis
    by simp
qed (use assms in \<open>auto simp: quiet_def apfst_def map_prod_def mark_outbox_dispatching_def record_outbox_success_def
       record_outbox_exhausted_def split: prod.splits sum.splits
     intro: recover_effect transition_effect schedule_effect failure_effect cancel_effect persist_outbox_effect\<close>)

section \<open>The invariant of runs\<close>

definition represents :: "inbox_command list \<Rightarrow> workflow_state \<Rightarrow> bool" where
  "represents cs ws \<longleftrightarrow> workflow_ok ws \<and> (\<forall>mid c. abstract_inbox ws mid = Some c \<longleftrightarrow> c \<in> set cs \<and> ic_message_id c = mid)"

text \<open>A cached snapshot may be behind the accepted commands, but never holds another one.\<close>

definition reflects :: "inbox_command list \<Rightarrow> workflow_state \<Rightarrow> bool" where
  "reflects cs ws \<longleftrightarrow> workflow_ok ws \<and> (\<forall>mid c. abstract_inbox ws mid = Some c \<longrightarrow> c \<in> set cs)"

definition answers_ok :: "workflow_id \<Rightarrow> inbox_command list \<Rightarrow> answers \<Rightarrow> bool" where
  "answers_ok w cs log \<longleftrightarrow> (\<forall>c e rv. (w, c, InboxDuplicate e rv) \<in> set log \<longrightarrow> command_of e \<in> set cs \<and> competes c (command_of e))"

definition latest :: "workflow_state state_record option \<Rightarrow> workflow_id \<Rightarrow> workflow_state state_record \<Rightarrow> bool" where
  "latest stored w r \<longleftrightarrow> (case stored of Some r' \<Rightarrow> r' = r | None \<Rightarrow> \<exists>t. r = missing_record (empty_workflow w t))"

definition stored_ok :: "workflow_state state_record option \<Rightarrow> inbox_command list \<Rightarrow> nat \<Rightarrow> bool" where
  "stored_ok stored cs k \<longleftrightarrow>
     (case stored of None \<Rightarrow> k = 0 \<and> cs = [] | Some r \<Rightarrow> sr_revision r = of_nat k \<and> represents cs (sr_state r))"

definition cached_ok :: "workflow_state state_record option \<Rightarrow> workflow_id \<Rightarrow> inbox_command list \<Rightarrow> nat \<Rightarrow> workflow_state state_record \<Rightarrow> bool" where
  "cached_ok stored w cs k r \<longleftrightarrow> reflects cs (sr_state r) \<and> (\<exists>j\<le>k. sr_revision r = of_nat j \<and> (j = k \<longrightarrow> latest stored w r))"

definition inbox_inv ::
  "workflow_id \<Rightarrow> workflow_state state_record option \<Rightarrow> (nat \<Rightarrow> durable_inbox option) \<Rightarrow> answers \<Rightarrow> nat \<Rightarrow> bool"
where
  "inbox_inv w stored hs log k \<longleftrightarrow> stored_ok stored (accepted w log) k \<and> once_only (accepted w log)
     \<and> answers_ok w (accepted w log) log
     \<and> (\<forall>i d r. hs i = Some d \<longrightarrow> di_workflow_id d = w \<longrightarrow> di_record d = Some r \<longrightarrow> cached_ok stored w (accepted w log) k r)"

definition handles_ok :: "(nat \<Rightarrow> durable_inbox option) \<Rightarrow> bool" where
  "handles_ok hs \<longleftrightarrow> (\<forall>i d. hs i = Some d \<longrightarrow> di_persistence_id d = workflow_persistence_id (di_workflow_id d))"

lemma represents_reflects: "represents cs ws \<Longrightarrow> reflects cs ws"
  by (simp add: represents_def reflects_def)

lemma represents_empty: "represents [] (empty_workflow w t)"
  using workflow_ok_empty [of w t] by (simp add: represents_def abstract_inbox_def inbox_entry_of_def empty_workflow_def)

lemma represents_successor: "represents cs ws \<Longrightarrow> successor ws ws' \<Longrightarrow> represents cs ws'"
  by (simp add: represents_def successor_def)

lemma reflects_mono: "reflects cs ws \<Longrightarrow> set cs \<subseteq> set cs' \<Longrightarrow> reflects cs' ws"
  unfolding reflects_def by blast

lemma latest_represents: "stored_ok stored cs k \<Longrightarrow> latest stored w r \<Longrightarrow> represents cs (sr_state r) \<and> sr_revision r = of_nat k"
  by (cases stored) (auto simp: stored_ok_def latest_def missing_record_def represents_empty)

lemma once_only_snoc:
  "once_only cs \<Longrightarrow> (\<And>c'. c' \<in> set cs \<Longrightarrow> \<not> competes c c') \<Longrightarrow> once_only (cs @ [c])"
  unfolding once_only_def competes_def
  by (cases "ic_deduplication_key c") (fastforce simp: map_filter_def)+

lemma represents_accept:
  assumes rep: "represents cs ws" and new: "inbox_duplicate ws c = None"
    and e: "e = inbox_entry_new (ic_message_id c) (ic_deduplication_key c) (ic_message_type c) (ic_payload c) now"
  shows "represents (cs @ [c]) (insert_inbox e ws) \<and> (\<forall>c' \<in> set cs. \<not> competes c c')"
proof -
  have ok: "workflow_ok ws" and abs: "abstract_inbox ws mid = Some c' \<longleftrightarrow> c' \<in> set cs \<and> ic_message_id c' = mid" for mid c'
    using rep by (simp_all add: represents_def)
  have fresh: "\<not> competes c c'" if "c' \<in> set cs" for c'
    using inbox_duplicate_None [OF ok new] abs that by blast
  have ids: "ie_message_id e = ic_message_id c" "ie_deduplication_key e = ic_deduplication_key c" "command_of e = c"
    unfolding e by (simp_all add: inbox_entry_new_def command_of_def)
  have "workflow_ok (insert_inbox e ws)"
    by (rule workflow_ok_insert_inbox [OF ok]) (use new in \<open>simp_all add: ids inbox_duplicate_def split: option.splits\<close>)
  moreover have "abstract_inbox (insert_inbox e ws) mid = Some c' \<longleftrightarrow> c' \<in> set (cs @ [c]) \<and> ic_message_id c' = mid" for mid c'
    using fresh [of c'] abs [of mid c'] unfolding abstract_inbox_insert ids by (auto simp: competes_def)
  ultimately show ?thesis
    using fresh by (simp add: represents_def)
qed

lemma cached_ok_advance:
  "cached_ok stored w cs k r \<Longrightarrow> set cs \<subseteq> set cs' \<Longrightarrow> cached_ok stored' w cs' (Suc k) r"
  unfolding cached_ok_def by (metis le_Suc_eq Suc_n_not_le_n reflects_mono)

text \<open>A compare-and-set that succeeds was made from the latest record.\<close>

lemma cached_current:
  assumes cached: "cached_ok stored w cs k r" and stored: "stored_ok stored cs k" and small: "k < 2 ^ 64"
    and rev: "sr_revision r = (case stored of None \<Rightarrow> 0 | Some c \<Rightarrow> sr_revision c)"
  shows "latest stored w r"
proof -
  obtain j where j: "j \<le> k" "sr_revision r = of_nat j" "j = k \<longrightarrow> latest stored w r"
    using cached by (auto simp: cached_ok_def)
  have "(of_nat j :: u64) = of_nat k"
    using stored rev j(2) by (cases stored) (auto simp: stored_ok_def)
  then have "j = k"
    using j(1) small by (simp add: word_unat_eq_iff unat_of_nat take_bit_nat_eq_self)
  with j(3) show ?thesis by simp
qed

lemma workflow_persistence_id_inj: "workflow_persistence_id w = workflow_persistence_id w' \<longleftrightarrow> w = w'"
  by (simp add: workflow_persistence_id_def)

lemma call_effect_ids:
  "call_effect ops call st d a st' d' \<Longrightarrow> di_workflow_id d' = di_workflow_id d \<and> di_persistence_id d' = di_persistence_id d"
  by (erule call_effect.cases) simp_all

lemma accepted_answered_other: "w' \<noteq> w \<Longrightarrow> accepted w (answered w' call a) = [] \<and> (w, c, x) \<notin> set (answered w' call a)"
  by (cases "(w', call, a)" rule: answered.cases) (auto simp: accepted_def)

lemma inbox_inv_handle:
  "inbox_inv w stored hs log k \<Longrightarrow> hs i = Some d \<Longrightarrow> di_workflow_id d = w \<Longrightarrow> di_record d = Some r \<Longrightarrow>
   cached_ok stored w (accepted w log) k r"
  by (simp add: inbox_inv_def)

lemma inbox_inv_open: "inbox_inv w stored hs log k \<Longrightarrow> inbox_inv w stored (hs(i \<mapsto> with_clock w')) log k"
  unfolding inbox_inv_def by (auto simp: with_clock_def)

lemma inbox_inv_cache:
  assumes "inbox_inv w stored hs log k" and "\<And>r. di_workflow_id d' = w \<Longrightarrow> di_record d' = Some r \<Longrightarrow> cached_ok stored w (accepted w log) k r"
  shows "inbox_inv w stored (hs(i \<mapsto> d')) log k"
  using assms unfolding inbox_inv_def by (metis fun_upd_apply option.inject)

lemma inbox_inv_write:
  assumes inv: "inbox_inv w stored hs log k"
    and log: "accepted w log' = cs" "set (accepted w log) \<subseteq> set cs" "once_only cs" "answers_ok w cs log'"
    and rep: "represents cs ws"
    and d': "di_record d' = Some (StateRecord ws (of_nat k + 1))"
  shows "inbox_inv w (Some (StateRecord ws (of_nat k + 1))) (hs(i \<mapsto> d')) log' (Suc k)"
proof -
  let ?new = "StateRecord ws (of_nat k + 1)"
  have "cached_ok (Some ?new) w cs (Suc k) r" if h: "(hs(i \<mapsto> d')) n = Some d" "di_workflow_id d = w" "di_record d = Some r" for n d r
  proof (cases "n = i")
    case True
    then have "r = ?new"
      using h d' by simp
    then show ?thesis
      using represents_reflects [OF rep] unfolding cached_ok_def by (auto simp: latest_def intro!: exI [of _ "Suc k"])
  next
    case False
    with h inbox_inv_handle [OF inv] have "cached_ok stored w (accepted w log) k r" by simp
    then show ?thesis
      by (rule cached_ok_advance) (rule log(2))
  qed
  with log rep show ?thesis
    by (simp add: inbox_inv_def stored_ok_def)
qed

lemma answers_ok_mono: "answers_ok w cs log \<Longrightarrow> set cs \<subseteq> set cs' \<Longrightarrow> answers_ok w cs' log"
  unfolding answers_ok_def by blast

locale workflow_store = state_store ops current
  for ops :: "('st, workflow_state) state_store_ops" and current :: "'st \<Rightarrow> persistence_id \<Rightarrow> workflow_state state_record option"
begin

lemma effect_frame:
  assumes "call_effect ops call st d a st' d'" and "p \<noteq> di_persistence_id d"
  shows "current st' p = current st p"
  using assms by (elim call_effect.cases) (auto dest: cas_stores cas_keeps)

lemma effect_other:
  assumes eff: "call_effect ops call st d a st' d'" and inv: "inbox_inv w (current st (workflow_persistence_id w)) hs log k"
    and d: "hs i = Some d" "di_persistence_id d = workflow_persistence_id (di_workflow_id d)" "di_workflow_id d \<noteq> w"
  shows "inbox_inv w (current st' (workflow_persistence_id w)) (hs(i \<mapsto> d')) (log @ answered (di_workflow_id d) call a) k"
proof -
  have "current st' (workflow_persistence_id w) = current st (workflow_persistence_id w)"
    by (rule effect_frame [OF eff]) (use d in \<open>simp add: workflow_persistence_id_inj\<close>)
  moreover have "di_workflow_id d' \<noteq> w"
    using call_effect_ids [OF eff] d by simp
  moreover have "inbox_inv w stored hs (log @ answered (di_workflow_id d) call a) k \<longleftrightarrow> inbox_inv w stored hs log k" for stored
    using accepted_answered_other [OF d(3)] by (simp add: inbox_inv_def answers_ok_def)
  ultimately show ?thesis
    using inv by (simp add: inbox_inv_cache)
qed

lemma write_latest:
  assumes inv: "inbox_inv w (current st pid) hs log k" and small: "k < 2 ^ 64"
    and d: "hs i = Some d" "di_workflow_id d = w" "di_record d = Some r"
    and cas: "so_compare_and_set ops st pid (sr_revision r) ws = (Inr r', st')"
  shows "represents (accepted w log) (sr_state r) \<and> r' = StateRecord ws (of_nat k + 1) \<and> current st' pid = Some r'"
proof -
  have st: "stored_ok (current st pid) (accepted w log) k"
    using inv by (simp add: inbox_inv_def)
  have c: "r' = StateRecord ws (sr_revision r + 1)" "current st' pid = Some r'"
    "sr_revision r = (case current st pid of None \<Rightarrow> 0 | Some c \<Rightarrow> sr_revision c)"
    using cas_stores [OF cas] by simp_all
  have "latest (current st pid) w r"
    by (rule cached_current [OF inbox_inv_handle [OF inv d] st small c(3)])
  then have "represents (accepted w log) (sr_state r) \<and> sr_revision r = of_nat k"
    by (rule latest_represents [OF st])
  with c show ?thesis by simp
qed

lemma effect_same:
  assumes eff: "call_effect ops call st d a st' d'" and inv: "inbox_inv w (current st pid) hs log k" and small: "k < 2 ^ 64"
    and d: "hs i = Some d" "di_workflow_id d = w" "di_persistence_id d = pid"
  shows "\<exists>k' \<le> Suc k. inbox_inv w (current st' pid) (hs(i \<mapsto> d')) (log @ answered w call a) k'"
  using eff
proof cases
  case (effect_reload loaded r now)
  have "loaded = current st pid"
    using load_current effect_reload(4) d(3) by simp
  then have "latest (current st pid) w r"
    using effect_reload(5) d(2) by (auto simp: latest_def split: option.splits)
  moreover have "stored_ok (current st pid) (accepted w log) k"
    using inv by (simp add: inbox_inv_def)
  ultimately have "cached_ok (current st pid) w (accepted w log) k r"
    using latest_represents by (auto simp: cached_ok_def intro: represents_reflects)
  then have "inbox_inv w (current st' pid) (hs(i \<mapsto> d')) log k"
    unfolding effect_reload(1-3) by (intro inbox_inv_cache [OF inv]) simp
  then show ?thesis
    unfolding effect_reload(1) by (cases call) (auto intro!: exI [of _ k])
next
  case effect_none
  then have "inbox_inv w (current st' pid) (hs(i \<mapsto> d')) log k"
    using inv d(1) by (simp add: fun_upd_idem)
  then show ?thesis
    unfolding effect_none(1) by (cases call) (auto intro!: exI [of _ k])
next
  case (effect_duplicate c r e)
  have "reflects (accepted w log) (sr_state r)"
    using inbox_inv_handle [OF inv d(1,2) effect_duplicate(5)] by (simp add: cached_ok_def)
  then have "command_of e \<in> set (accepted w log) \<and> competes c (command_of e)"
    using inbox_duplicate_Some [OF _ effect_duplicate(6)] unfolding reflects_def by blast
  then have "inbox_inv w (current st' pid) (hs(i \<mapsto> d')) (log @ answered w call a) k"
    using inv d(1) unfolding effect_duplicate(1-4) by (auto simp: inbox_inv_def answers_ok_def fun_upd_idem)
  then show ?thesis by (auto intro!: exI [of _ k])
next
  case (effect_refused expected ws err stale)
  have "inbox_inv w (current st' pid) (hs(i \<mapsto> d')) log k"
    unfolding cas_keeps [OF effect_refused(3)] using inv inbox_inv_handle [OF inv d(1,2)]
    by (intro inbox_inv_cache) (simp_all add: effect_refused(2))
  then show ?thesis
    unfolding effect_refused(1) by (cases call) (auto intro!: exI [of _ k])
next
  case (effect_write r ws r')
  have rep: "represents (accepted w log) (sr_state r)" "r' = StateRecord ws (of_nat k + 1)" "current st' pid = Some r'"
    using write_latest [OF inv small d(1,2) effect_write(3)] effect_write(5) d(3) by simp_all
  have "inbox_inv w (current st' pid) (hs(i \<mapsto> d')) log (Suc k)"
    unfolding rep(3) unfolding rep(2)
    by (rule inbox_inv_write [OF inv refl _ _ _ represents_successor [OF rep(1) effect_write(4)]])
      (use inv in \<open>simp_all add: inbox_inv_def effect_write(2) rep(2)\<close>)
  then show ?thesis
    unfolding effect_write(1) by (cases call) (auto intro!: exI [of _ "Suc k"])
next
  case (effect_accept c r e now r')
  have rep: "represents (accepted w log) (sr_state r)" "r' = StateRecord (insert_inbox e (sr_state r)) (of_nat k + 1)" "current st' pid = Some r'"
    using write_latest [OF inv small d(1,2) effect_accept(4)] effect_accept(7) d(3) by simp_all
  note new = represents_accept [OF rep(1) effect_accept(5,6)]
  have once: "once_only (accepted w log @ [c])"
    by (rule once_only_snoc) (use inv new in \<open>auto simp: inbox_inv_def\<close>)
  have ans: "answers_ok w (accepted w log @ [c]) (log @ answered w call a)"
    using inv answers_ok_mono [of w "accepted w log" log "accepted w log @ [c]"] unfolding effect_accept(1,3)
    by (auto simp: inbox_inv_def answers_ok_def)
  have "inbox_inv w (current st' pid) (hs(i \<mapsto> d')) (log @ answered w call a) (Suc k)"
    unfolding rep(3) unfolding rep(2)
    by (rule inbox_inv_write [OF inv _ _ once ans conjunct1 [OF new]])
      (auto simp: effect_accept(1,2,3) rep(2))
  then show ?thesis by blast
qed

theorem run_inv:
  assumes "inbox_run ops st0 st hs log n" and "n < 2 ^ 64" and "\<And>w. current st0 (workflow_persistence_id w) = None"
  shows "handles_ok hs \<and> (\<exists>k\<le>n. inbox_inv w (current st (workflow_persistence_id w)) hs log k)"
  using assms(1,2)
proof (induction arbitrary: w rule: inbox_run.induct)
  case run_start
  then show ?case
    using assms(3) by (simp add: handles_ok_def inbox_inv_def stored_ok_def once_only_def answers_ok_def map_filter_simps)
next
  case (run_open st hs log n i w')
  then have hs: "handles_ok hs" and "\<exists>k\<le>n. inbox_inv w (current st (workflow_persistence_id w)) hs log k"
    by blast+
  moreover from hs have "handles_ok (hs(i \<mapsto> with_clock w'))"
    unfolding handles_ok_def by (auto simp: with_clock_def)
  ultimately show ?case
    by (blast intro: inbox_inv_open)
next
  case (run_call st hs log n i d call now a st' d')
  let ?pid = "workflow_persistence_id w"
  have eff: "call_effect ops call st d a st' d'"
    by (rule perform_effect [OF run_call.hyps(3)])
  obtain k where k: "k \<le> n" "inbox_inv w (current st ?pid) hs log k" and hs: "handles_ok hs"
    using run_call.IH [of w] run_call.prems by auto
  have pid: "di_persistence_id d = workflow_persistence_id (di_workflow_id d)"
    using hs run_call.hyps(2) unfolding handles_ok_def by blast
  have "handles_ok (hs(i \<mapsto> d'))"
    using hs pid call_effect_ids [OF eff] unfolding handles_ok_def by simp
  moreover have "\<exists>k'\<le>Suc n. inbox_inv w (current st' ?pid) (hs(i \<mapsto> d')) (log @ answered (di_workflow_id d) call a) k'"
  proof (cases "di_workflow_id d = w")
    case True
    with effect_same [OF eff k(2) _ run_call.hyps(2)] pid k(1) run_call.prems show ?thesis
      by (metis Suc_le_mono Suc_lessD le_trans order.strict_trans1)
  next
    case False
    with effect_other [OF eff k(2) run_call.hyps(2) pid] k(1) show ?thesis
      using le_SucI by blast
  qed
  ultimately show ?case by blast
qed

end

end
