(* ===== verification/Inbox_Delivery.thy ===== *)
theory Inbox_Delivery
  imports Inbox_Runs Persistence_Memory
begin

text \<open>
  The durable inbox over the in-memory state store: commands are accepted exactly once, however
  many inboxes, crashes and stale writers a run has.
\<close>

interpretation memory_workflow: workflow_store memory_state_ops map_of
  by unfold_locales

section \<open>Exactly-once acceptance\<close>

definition stored_command :: "workflow_state memory_state_store \<Rightarrow> workflow_id \<Rightarrow> message_id \<Rightarrow> inbox_command option" where
  "stored_command st w mid = Option.bind (map_of st (workflow_persistence_id w)) (\<lambda>r. abstract_inbox (sr_state r) mid)"

text \<open>C3: In every run of durable inboxes that share one in-memory store (opened and reopened at any
  moment, calls interleaved in any order, fewer than \<open>2 ^ 64\<close> calls), the commands answered
  \<open>Accepted\<close> for a workflow have pairwise different message ids and pairwise different deduplication
  keys; the stored snapshot holds exactly these commands; and every \<open>Duplicate\<close> answer carries the
  entry of an accepted command with the same message id or the same deduplication key.\<close>

theorem inbox_exactly_once:
  assumes "inbox_run memory_state_ops [] st hs log n" and "n < 2 ^ 64"
  shows "once_only (accepted w log)
    \<and> (\<forall>mid c. stored_command st w mid = Some c \<longleftrightarrow> c \<in> set (accepted w log) \<and> ic_message_id c = mid)
    \<and> answers_ok w (accepted w log) log"
proof -
  obtain k where "inbox_inv w (map_of st (workflow_persistence_id w)) hs log k"
    using memory_workflow.run_inv [OF assms, of w] by auto
  then have "once_only (accepted w log)" "answers_ok w (accepted w log) log"
    and "stored_ok (map_of st (workflow_persistence_id w)) (accepted w log) k"
    by (simp_all add: inbox_inv_def)
  then show ?thesis
    by (cases "map_of st (workflow_persistence_id w)") (simp_all add: stored_ok_def stored_command_def represents_def)
qed

text \<open>Two inboxes of one workflow race: the second one holds a stale record, recovers and sees the duplicate.\<close>

definition pay_command :: inbox_command where
  "pay_command = (inbox_command_new ''m1'' ''pay'' [1])\<lparr>ic_deduplication_key := Some ''order-7''\<rparr>"

definition retry_command :: inbox_command where
  "retry_command = pay_command\<lparr>ic_message_id := ''m2''\<rparr>"

definition paid_entry :: inbox_entry where
  "paid_entry = inbox_entry_new ''m1'' (Some ''order-7'') ''pay'' [1] 10"

definition paid_state :: workflow_state where
  "paid_state = insert_inbox paid_entry (empty_workflow ''w'' 5)"

definition paid_store :: "workflow_state memory_state_store" where
  "paid_store = [(workflow_persistence_id ''w'', StateRecord paid_state 1)]"

definition race_answers :: answers where
  "race_answers = [(''w'', pay_command, InboxAccepted paid_entry 1), (''w'', retry_command, InboxDuplicate paid_entry 1)]"

lemma race_run: "\<exists>hs. inbox_run memory_state_ops [] paid_store hs race_answers 6"
proof -
  let ?run = "inbox_run memory_state_ops []"
  let ?at = "\<lambda>r s. (with_clock ''w'')\<lparr>di_record := Some r, di_stale := s\<rparr>"
  let ?empty = "StateRecord (empty_workflow ''w'' 5) 0" and ?paid = "StateRecord paid_state 1"
  note defs = memory_state_ops_def memory_load_def memory_compare_and_set_def actual_revision_def revision_next_def
    inbox_recover_def with_clock_def missing_record_def accept_def recovered_record_def inbox_duplicate_def inbox_entry_of_def
    inbox_entry_by_key_def persist_state_def persistence_failure_def paid_state_def paid_store_def paid_entry_def
    pay_command_def retry_command_def inbox_command_new_def empty_workflow_def insert_inbox_def inbox_entry_new_def
    workflow_persistence_id_def Let_def
  have 1: "?run [] ((\<lambda>_. None)(0 \<mapsto> with_clock ''w'', 1 \<mapsto> with_clock ''w'')) [] 0"
    by (intro run_open run_start)
  have 2: "perform memory_state_ops CallRecover 5 [] (with_clock ''w'') = (None, [], ?at ?empty False)"
    by (simp add: defs)
  have 3: "perform memory_state_ops (CallAccept pay_command) 10 [] (?at ?empty False)
      = (Some (InboxAccepted paid_entry 1), paid_store, ?at ?paid False)"
    by (simp add: defs)
  have 4: "perform memory_state_ops (CallAccept retry_command) 11 paid_store (?at ?empty False) = (None, paid_store, ?at ?empty True)"
    by (simp add: defs)
  have 5: "perform memory_state_ops CallRecover 12 paid_store (?at ?empty True) = (None, paid_store, ?at ?paid False)"
    by (simp add: defs)
  have 6: "perform memory_state_ops (CallAccept retry_command) 13 paid_store (?at ?paid False)
      = (Some (InboxDuplicate paid_entry 1), paid_store, ?at ?paid False)"
    by (simp add: defs)
  have "\<exists>hs. ?run paid_store hs race_answers (Suc (Suc (Suc (Suc (Suc (Suc 0))))))"
    using run_call [OF run_call [OF run_call [OF run_call [OF run_call [OF run_call [OF 1 _ 2, of 0] _ 2, of 1] _ 3, of 0] _ 4, of 1] _ 5, of 1] _ 6, of 1]
    by (auto simp: race_answers_def with_clock_def)
  then show ?thesis
    by (simp add: eval_nat_numeral)
qed

theorem inbox_exactly_once_witness:
  "once_only [pay_command] \<and> stored_command paid_store ''w'' ''m1'' = Some pay_command
   \<and> stored_command paid_store ''w'' ''m2'' = None \<and> answers_ok ''w'' [pay_command] race_answers"
proof -
  obtain hs where run: "inbox_run memory_state_ops [] paid_store hs race_answers 6"
    using race_run by blast
  have acc: "accepted ''w'' race_answers = [pay_command]"
    by (simp add: race_answers_def accepted_def)
  have id: "ic_message_id pay_command = ''m1''"
    by (simp add: pay_command_def inbox_command_new_def)
  have all: "once_only [pay_command] \<and> (\<forall>mid c. stored_command paid_store ''w'' mid = Some c \<longleftrightarrow> c = pay_command \<and> ''m1'' = mid)
      \<and> answers_ok ''w'' [pay_command] race_answers"
    using inbox_exactly_once [OF run, of "''w''"] unfolding acc by (auto simp: id)
  then have "stored_command paid_store ''w'' ''m2'' = None"
    by (cases "stored_command paid_store ''w'' ''m2''") simp_all
  with all show ?thesis by simp
qed

end
