(* ===== verification/Outbox_Dispatch.thy ===== *)
theory Outbox_Dispatch
  imports Inbox_Delivery
begin

text \<open>
  Dispatch passes of a durable outbox over the in-memory store. A pass is shown to refine a
  specification over the due entries alone, and the retry budget of a message is shown to bound its
  dispatches exactly.
\<close>

section \<open>What a pass should do\<close>

definition outcome :: "outbox_dispatch_result \<Rightarrow> timestamp \<Rightarrow> outbox_entry \<Rightarrow> outbox_entry" where
  "outcome result now e =
     (case result of
        DispatchSuccess \<Rightarrow> mark_dispatched now e
      | DispatchFailure message \<Rightarrow> fst (outbox_record_failure now message e)
      | DispatchTimeout message \<Rightarrow> fst (outbox_record_failure now message e))"

fun pass_spec ::
  "'x dispatcher \<Rightarrow> outbox_entry list \<Rightarrow> (nat \<Rightarrow> timestamp) \<Rightarrow> 'x \<Rightarrow> outbox_entry list \<times> 'x"
where
  "pass_spec dispatch [] clock x = ([], x)"
| "pass_spec dispatch (e # due) clock x =
     (let dispatching = outbox_set_status OutDispatching (clock 0) e;
          (result, x) = dispatch x dispatching;
          (es, x) = pass_spec dispatch due (\<lambda>i. clock (i + 2)) x
      in (outcome result (clock 1) dispatching # es, x))"

definition by_id :: "outbox_entry list \<Rightarrow> (message_id \<times> outbox_entry) list" where
  "by_id es = map (\<lambda>e. (oe_message_id e, e)) es"

text \<open>
  An inbox is synchronised when its record is what the store holds, and up to date also when
  nothing is stored yet.
\<close>

definition synced :: "workflow_state memory_state_store \<Rightarrow> durable_inbox \<Rightarrow> workflow_state \<Rightarrow> bool" where
  "synced st d ws \<longleftrightarrow> (\<exists>rv. di_record d = Some (StateRecord ws rv) \<and> map_of st (di_persistence_id d) = Some (StateRecord ws rv))"

definition up_to_date :: "workflow_state memory_state_store \<Rightarrow> durable_inbox \<Rightarrow> workflow_state \<Rightarrow> bool" where
  "up_to_date st d ws \<longleftrightarrow> synced st d ws
     \<or> di_record d = Some (StateRecord ws 0) \<and> map_of st (di_persistence_id d) = None"

definition same_inbox :: "workflow_state \<Rightarrow> workflow_state \<Rightarrow> bool" where
  "same_inbox ws ws' \<longleftrightarrow> ws_inbox ws' = ws_inbox ws \<and> ws_inbox_deduplication ws' = ws_inbox_deduplication ws
     \<and> ws_outbox_deduplication ws' = ws_outbox_deduplication ws \<and> ws_status ws' = ws_status ws \<and> ws_workflow_id ws' = ws_workflow_id ws"

section \<open>One update\<close>

lemma persist_synced:
  assumes "up_to_date st d ws" and "di_record d = Some r"
  shows "\<exists>rv st' d'. persist_state memory_state_ops (sr_revision r) ws' st d = (Inr rv, st', d')
    \<and> synced st' d' ws' \<and> di_persistence_id d' = di_persistence_id d \<and> di_workflow_id d' = di_workflow_id d"
  using assms
  by (auto simp: up_to_date_def synced_def persist_state_def memory_state_ops_def memory_compare_and_set_def actual_revision_def Let_def)

lemma update_outbox_Some:
  assumes "map_of (ws_outbox ws) mid = Some e"
  obtains ws' where "update_outbox ws mid f = Some (f e, ws')" "map_of (ws_outbox ws') = (map_of (ws_outbox ws))(mid \<mapsto> f e)"
    "same_inbox ws ws'"
  using assms by (auto simp: update_outbox_def same_inbox_def fun_eq_iff)

lemma update_synced:
  assumes sync: "synced st d ws" and e: "map_of (ws_outbox ws) mid = Some e" and ok: "workflow_ok ws" and f: "keeps_identity f"
  obtains st' d' ws' where "persist_outbox_update memory_state_ops mid f st d = (Inr (f e), st', d')" "synced st' d' ws'"
    "di_persistence_id d' = di_persistence_id d \<and> di_workflow_id d' = di_workflow_id d"
    "map_of (ws_outbox ws') = (map_of (ws_outbox ws))(mid \<mapsto> f e)" "same_inbox ws ws'" "workflow_ok ws'"
proof -
  obtain r where r: "di_record d = Some r" "sr_state r = ws"
    using sync by (auto simp: synced_def)
  obtain ws' where ws': "update_outbox ws mid f = Some (f e, ws')" "map_of (ws_outbox ws') = (map_of (ws_outbox ws))(mid \<mapsto> f e)"
      "same_inbox ws ws'"
    using update_outbox_Some [OF e] .
  obtain rv st' d' where p: "persist_state memory_state_ops (sr_revision r) ws' st d = (Inr rv, st', d')" "synced st' d' ws'"
      "di_persistence_id d' = di_persistence_id d" "di_workflow_id d' = di_workflow_id d"
    using persist_synced [OF _ r(1)] sync unfolding up_to_date_def by blast
  have "persist_outbox_update memory_state_ops mid f st d = (Inr (f e), st', d')"
    using r ws'(1) p(1) by (simp add: persist_outbox_update_def recovered_record_def)
  then show thesis
    using that p ws' workflow_ok_update_outbox [OF ok f ws'(1)] by blast
qed

lemma same_inbox_trans: "same_inbox a b \<Longrightarrow> same_inbox b c \<Longrightarrow> same_inbox a c"
  by (simp add: same_inbox_def)

lemma same_inbox_refl: "same_inbox a a"
  by (simp add: same_inbox_def)

lemma outcome_identity: "keeps_identity (outcome result now)"
  by (cases result) (simp_all add: outcome_def [abs_def])

lemma record_result_synced:
  assumes sync: "synced st d ws" and e: "map_of (ws_outbox ws) mid = Some e" and ok: "workflow_ok ws"
  obtains event st' d' ws' where "record_dispatch_result memory_state_ops mid result now st d = (Inr event, st', d')" "synced st' d' ws'"
    "di_persistence_id d' = di_persistence_id d \<and> di_workflow_id d' = di_workflow_id d"
    "map_of (ws_outbox ws') = (map_of (ws_outbox ws))(mid \<mapsto> outcome result now e)" "same_inbox ws ws'" "workflow_ok ws'"
proof -
  obtain st' d' ws' where p: "persist_outbox_update memory_state_ops mid (outcome result now) st d = (Inr (outcome result now e), st', d')"
    "synced st' d' ws'" "di_persistence_id d' = di_persistence_id d \<and> di_workflow_id d' = di_workflow_id d"
    "map_of (ws_outbox ws') = (map_of (ws_outbox ws))(mid \<mapsto> outcome result now e)" "same_inbox ws ws'" "workflow_ok ws'"
    using update_synced [OF sync e ok outcome_identity] .
  obtain r where r: "di_record d = Some r" "sr_state r = ws"
    using sync by (auto simp: synced_def)
  have "\<exists>event. record_dispatch_result memory_state_ops mid result now st d = (Inr event, st', d')"
    using p(1) r e by (cases result)
      (simp_all add: record_dispatch_result_def record_outbox_success_def record_outbox_failure_def outcome_def [abs_def]
        recovered_record_def outbox_entry_of_def Let_def)
  then show thesis
    using that p by blast
qed

section \<open>A pass refines its specification\<close>

lemma pass_spec_ids: "map oe_message_id (fst (pass_spec dispatch due clock x)) = map oe_message_id due"
proof (induction due arbitrary: clock x)
  case (Cons e due)
  have "oe_message_id (outcome result now e') = oe_message_id e'" for result now e'
    using outcome_identity by (simp add: keeps_identity_def)
  with Cons show ?case
    by (simp add: Let_def case_prod_beta outbox_set_status_def)
qed simp

lemma by_id_first:
  "map_of (by_id es) mid = None \<Longrightarrow> oe_message_id e = mid \<Longrightarrow> m(mid \<mapsto> e) ++ map_of (by_id es) = m ++ map_of (by_id (e # es))"
  by (auto simp: by_id_def map_add_def fun_eq_iff split: option.splits)

lemma dispatch_entries_spec:
  assumes "synced st d ws" and "workflow_ok ws" and "distinct (map oe_message_id due)"
    and "\<And>e. e \<in> set due \<Longrightarrow> map_of (ws_outbox ws) (oe_message_id e) = Some e"
  shows "\<exists>events st' d' ws'. dispatch_entries memory_state_ops dispatch due clock evs st d x
      = (Inr (evs @ events), st', d', snd (pass_spec dispatch due clock x))
    \<and> length events = length due \<and> synced st' d' ws' \<and> workflow_ok ws' \<and> same_inbox ws ws'
    \<and> di_persistence_id d' = di_persistence_id d \<and> di_workflow_id d' = di_workflow_id d
    \<and> map_of (ws_outbox ws') = map_of (ws_outbox ws) ++ map_of (by_id (fst (pass_spec dispatch due clock x)))"
  using assms
proof (induction due arbitrary: clock evs st d ws x)
  case Nil
  then show ?case
    by (auto simp: by_id_def same_inbox_refl)
next
  case (Cons e due)
  let ?mid = "oe_message_id e"
  let ?e1 = "outbox_set_status OutDispatching (clock 0) e"
  have e: "map_of (ws_outbox ws) ?mid = Some e"
    using Cons.prems(4) by simp
  obtain st1 d1 ws1 where 1: "persist_outbox_update memory_state_ops ?mid (outbox_set_status OutDispatching (clock 0)) st d = (Inr ?e1, st1, d1)"
    "synced st1 d1 ws1" "di_persistence_id d1 = di_persistence_id d \<and> di_workflow_id d1 = di_workflow_id d"
    "map_of (ws_outbox ws1) = (map_of (ws_outbox ws))(?mid \<mapsto> ?e1)" "same_inbox ws ws1" "workflow_ok ws1"
    using update_synced [OF Cons.prems(1) e Cons.prems(2) keeps_identity_simps(1)] .
  obtain result x1 where res: "dispatch x ?e1 = (result, x1)"
    by fastforce
  have e1: "map_of (ws_outbox ws1) ?mid = Some ?e1"
    using 1(4) by simp
  obtain event st2 d2 ws2 where 2: "record_dispatch_result memory_state_ops ?mid result (clock 1) st1 d1 = (Inr event, st2, d2)"
    "synced st2 d2 ws2" "di_persistence_id d2 = di_persistence_id d1 \<and> di_workflow_id d2 = di_workflow_id d1"
    "map_of (ws_outbox ws2) = (map_of (ws_outbox ws1))(?mid \<mapsto> outcome result (clock 1) ?e1)" "same_inbox ws1 ws2" "workflow_ok ws2"
    using record_result_synced [OF 1(2) e1 1(6)] .
  have look: "map_of (ws_outbox ws2) = (map_of (ws_outbox ws))(?mid \<mapsto> outcome result (clock 1) ?e1)"
    unfolding 2(4) 1(4) by simp
  have rest: "map_of (ws_outbox ws2) (oe_message_id e') = Some e'" if "e' \<in> set due" for e'
    using Cons.prems(3,4) that unfolding look by (auto simp: image_iff)
  have dist: "distinct (map oe_message_id due)"
    using Cons.prems(3) by simp
  let ?clock = "\<lambda>i. clock (i + 2)"
  obtain events st' d' ws' where IH: "dispatch_entries memory_state_ops dispatch due ?clock (evs @ [event]) st2 d2 x1
      = (Inr ((evs @ [event]) @ events), st', d', snd (pass_spec dispatch due ?clock x1))"
    "length events = length due" "synced st' d' ws'" "workflow_ok ws'" "same_inbox ws2 ws'"
    "di_persistence_id d' = di_persistence_id d2" "di_workflow_id d' = di_workflow_id d2"
    "map_of (ws_outbox ws') = map_of (ws_outbox ws2) ++ map_of (by_id (fst (pass_spec dispatch due ?clock x1)))"
    using Cons.IH [OF 2(2,6) dist rest] by blast
  have spec: "pass_spec dispatch (e # due) clock x
      = (outcome result (clock 1) ?e1 # fst (pass_spec dispatch due ?clock x1), snd (pass_spec dispatch due ?clock x1))"
    using res by (simp add: case_prod_beta)
  have notin: "map_of (by_id (fst (pass_spec dispatch due ?clock x1))) ?mid = None"
    using pass_spec_ids [of dispatch due ?clock x1] Cons.prems(3)
    by (simp add: by_id_def map_of_eq_None_iff image_image) (metis image_set)
  have id: "oe_message_id (outcome result (clock 1) ?e1) = ?mid"
    using outcome_identity by (simp add: keeps_identity_def outbox_set_status_def)
  have run: "dispatch_entries memory_state_ops dispatch (e # due) clock evs st d x
      = (Inr (evs @ event # events), st', d', snd (pass_spec dispatch (e # due) clock x))"
    using 1(1) res 2(1) IH(1) by (simp add: mark_outbox_dispatching_def spec case_prod_beta)
  have upd: "map_of (ws_outbox ws') = map_of (ws_outbox ws) ++ map_of (by_id (fst (pass_spec dispatch (e # due) clock x)))"
    unfolding IH(8) look spec fst_conv by (rule by_id_first [OF notin id])
  show ?case
    unfolding run using same_inbox_trans [OF same_inbox_trans [OF 1(5) 2(5)] IH(5)] upd IH(2-7) 1(3) 2(3)
    by (intro exI [of _ "event # events"] exI [of _ st'] exI [of _ d'] exI [of _ ws']) (simp only: length_Cons append_Cons simp_thms)
qed

lemma due_entries:
  assumes "workflow_ok ws"
  shows "distinct (map oe_message_id (due_outbox ws now))"
    and "e \<in> set (due_outbox ws now) \<longleftrightarrow> map_of (ws_outbox ws) (oe_message_id e) = Some e \<and> is_due e now"
proof -
  have ok: "indexed oe_message_id oe_deduplication_key (ws_outbox ws) (ws_outbox_deduplication ws)"
    using assms by (simp add: workflow_ok_def)
  have stored: "map_of (ws_outbox ws) m = Some e \<longleftrightarrow> (m, e) \<in> set (ws_outbox ws)" for m e
    by (rule bt_get_iff [OF indexedD(1) [OF ok]])
  have ids: "oe_message_id e = m" if "(m, e) \<in> set (ws_outbox ws)" for m e
    by (rule indexedD(3) [OF ok]) (use that stored in simp)
  have keys: "map oe_message_id (map snd (ws_outbox ws)) = map fst (ws_outbox ws)"
    using ids by (auto simp: comp_def)
  have "distinct (map oe_message_id (map snd (ws_outbox ws)))"
    unfolding keys by (rule bt_ok_distinct [OF indexedD(1) [OF ok]])
  then show "distinct (map oe_message_id (due_outbox ws now))"
    unfolding due_outbox_def by (rule distinct_map_filter)
  show "e \<in> set (due_outbox ws now) \<longleftrightarrow> map_of (ws_outbox ws) (oe_message_id e) = Some e \<and> is_due e now"
  proof -
    have "e \<in> snd ` set (ws_outbox ws) \<longleftrightarrow> (oe_message_id e, e) \<in> set (ws_outbox ws)"
    proof
      assume "e \<in> snd ` set (ws_outbox ws)"
      then obtain m where "(m, e) \<in> set (ws_outbox ws)" by auto
      with ids [OF this] show "(oe_message_id e, e) \<in> set (ws_outbox ws)" by simp
    next
      assume "(oe_message_id e, e) \<in> set (ws_outbox ws)"
      then show "e \<in> snd ` set (ws_outbox ws)" by (rule rev_image_eqI) simp
    qed
    then show ?thesis
      by (simp add: due_outbox_def stored)
  qed
qed

lemma dispatch_due_spec:
  assumes sync: "synced st d ws" and ok: "workflow_ok ws"
  obtains events st' d' ws' where
    "dispatch_due_outbox memory_state_ops dispatch clock st d x
       = (Inr events, st', d', snd (pass_spec dispatch (due_outbox ws (clock 0)) (\<lambda>i. clock (Suc i)) x))"
    "length events = length (due_outbox ws (clock 0))" "synced st' d' ws'" "workflow_ok ws'" "same_inbox ws ws'"
    "di_persistence_id d' = di_persistence_id d"
    "map_of (ws_outbox ws') = map_of (ws_outbox ws)
       ++ map_of (by_id (fst (pass_spec dispatch (due_outbox ws (clock 0)) (\<lambda>i. clock (Suc i)) x)))"
proof -
  have due: "inbox_due_outbox d (clock 0) = Inr (due_outbox ws (clock 0))"
    using sync by (auto simp: synced_def inbox_due_outbox_def inbox_state_def recovered_record_def)
  show thesis
    using dispatch_entries_spec [OF sync ok due_entries(1) [OF ok], of "clock 0" dispatch "\<lambda>i. clock (Suc i)" "[]" x] that
    unfolding due_entries(2) [OF ok] dispatch_due_outbox_def due by auto
qed

section \<open>The retry budget\<close>

fun dispatch_passes ::
  "'st workflow_ops \<Rightarrow> 'x dispatcher \<Rightarrow> (nat \<Rightarrow> timestamp) list \<Rightarrow> 'st \<times> durable_inbox \<times> 'x \<Rightarrow> 'st \<times> durable_inbox \<times> 'x"
where
  "dispatch_passes ops dispatch [] s = s"
| "dispatch_passes ops dispatch (clock # clocks) (st, d, x) =
     dispatch_passes ops dispatch clocks (snd (dispatch_due_outbox ops dispatch clock st d x))"

text \<open>A dispatcher that keeps the ids of the messages it was asked to dispatch.\<close>

definition logged :: "'x dispatcher \<Rightarrow> (message_id list \<times> 'x) dispatcher" where
  "logged dispatch s e = (let (result, x) = dispatch (snd s) e in (result, fst s @ [oe_message_id e], x))"

definition never_succeeds :: "'x dispatcher \<Rightarrow> bool" where
  "never_succeeds dispatch \<longleftrightarrow> (\<forall>x e. fst (dispatch x e) \<noteq> DispatchSuccess)"

definition budget :: "retry_policy \<Rightarrow> nat" where
  "budget p = max 1 (unat (rp_max_attempts p))"

text \<open>An entry whose dispatches have all failed: \<open>n\<close> attempts are recorded and the budget is not exceeded.\<close>

definition failing_entry :: "nat \<Rightarrow> outbox_entry \<Rightarrow> bool" where
  "failing_entry n e \<longleftrightarrow> unat (ra_attempts (oe_attempts e)) = n \<and> n \<le> budget (oe_retry_policy e)
     \<and> (oe_status e = OutExhausted \<longleftrightarrow> n = budget (oe_retry_policy e))
     \<and> oe_status e \<in> {OutPending, OutFailed, OutExhausted}
     \<and> (oe_status e = OutFailed \<longrightarrow> ra_next_retry_at (oe_attempts e) \<noteq> None)"

lemma failing_entry_step:
  assumes e: "failing_entry n e" and due: "is_due e t" and fail: "result \<noteq> DispatchSuccess"
  shows "failing_entry (Suc n) (outcome result now (outbox_set_status OutDispatching now' e))"
proof -
  let ?p = "oe_retry_policy e" and ?a = "ra_attempts (oe_attempts e)"
  have n: "unat ?a = n" "n < budget ?p"
    using e due by (auto simp: failing_entry_def is_due_def)
  have top: "budget ?p < 2 ^ 32"
    using unat_less_two_power [of "rp_max_attempts ?p"] by (simp add: budget_def)
  have inc: "unat (?a + 1) = Suc n" "unat (sat_add ?a 1) = Suc n"
    using n top by (simp_all add: unat_sat_add unat_word_ariths)
  obtain message where "outcome result now = (\<lambda>e. fst (outbox_record_failure now message e))"
    using fail by (cases result) (auto simp: outcome_def fun_eq_iff)
  moreover have "rp_max_attempts ?p \<le> sat_add ?a 1 \<longleftrightarrow> Suc n = budget ?p"
    using n(2) unfolding word_le_nat_alt inc(2) budget_def by auto
  ultimately show ?thesis
    using n inc(1) by (auto simp: failing_entry_def outbox_record_failure_def is_exhausted_after_def outbox_set_status_def
      attempt_exhaustion_def attempt_failure_def Let_def)
qed

lemma pass_spec_entry:
  assumes "distinct (map oe_message_id due)" and "e \<in> set due" and "never_succeeds dispatch"
  shows "\<exists>result now now'. result \<noteq> DispatchSuccess
    \<and> map_of (by_id (fst (pass_spec dispatch due clock x))) (oe_message_id e) = Some (outcome result now (outbox_set_status OutDispatching now' e))"
  using assms
proof (induction due arbitrary: clock x)
  case (Cons a due)
  let ?a = "outbox_set_status OutDispatching (clock 0) a"
  obtain result x1 where r: "dispatch x ?a = (result, x1)"
    by fastforce
  have fail: "result \<noteq> DispatchSuccess"
    using Cons.prems(3) r unfolding never_succeeds_def by (metis fst_conv)
  have id: "oe_message_id (outcome result (clock 1) ?a) = oe_message_id a"
    using outcome_identity by (simp add: keeps_identity_def outbox_set_status_def)
  have spec: "fst (pass_spec dispatch (a # due) clock x) = outcome result (clock 1) ?a # fst (pass_spec dispatch due (\<lambda>i. clock (i + 2)) x1)"
    using r by (simp add: case_prod_beta)
  show ?case
  proof (cases "e = a")
    case True
    have "map_of (by_id (fst (pass_spec dispatch (a # due) clock x))) (oe_message_id e) = Some (outcome result (clock 1) ?a)"
      unfolding spec True by (simp only: by_id_def list.map map_of.simps fst_conv snd_conv id fun_upd_same)
    with fail True show ?thesis by blast
  next
    case False
    then have "oe_message_id e \<noteq> oe_message_id a" "e \<in> set due"
      using Cons.prems(1,2) by (auto simp: image_iff)
    moreover have "map_of (by_id (fst (pass_spec dispatch (a # due) clock x))) m
        = map_of (by_id (fst (pass_spec dispatch due (\<lambda>i. clock (i + 2)) x1))) m" if "m \<noteq> oe_message_id a" for m
      unfolding spec by_id_def list.map map_of.simps fst_conv id using that by (rule fun_upd_other)
    ultimately show ?thesis
      using Cons.IH Cons.prems(1,3) by simp
  qed
qed simp

lemma pass_spec_other:
  assumes "m \<notin> oe_message_id ` set due"
  shows "map_of (by_id (fst (pass_spec dispatch due clock x))) m = None"
proof -
  have "set (map oe_message_id (fst (pass_spec dispatch due clock x))) = oe_message_id ` set due"
    unfolding pass_spec_ids by simp
  with assms show ?thesis
    by (simp add: by_id_def map_of_eq_None_iff image_image)
qed

lemma pass_spec_logged:
  "fst (snd (pass_spec (logged dispatch) due clock (log, x))) = log @ map oe_message_id due"
proof (induction due arbitrary: clock log x)
  case (Cons e due)
  then show ?case
    by (simp add: logged_def case_prod_beta outbox_set_status_def Let_def)
qed simp

lemma never_succeeds_logged: "never_succeeds dispatch \<Longrightarrow> never_succeeds (logged dispatch)"
  by (simp add: never_succeeds_def logged_def case_prod_beta)

lemma count_list_distinct: "distinct xs \<Longrightarrow> count_list xs m = of_bool (m \<in> set xs)"
  by (induction xs) auto

lemma failing_pass:
  assumes sync: "synced st d ws" and ok: "workflow_ok ws" and fails: "never_succeeds dispatch"
    and e: "map_of (ws_outbox ws) mid = Some e" "failing_entry (count_list log mid) e"
  obtains st' d' log' x' ws' e' where
    "snd (dispatch_due_outbox memory_state_ops (logged dispatch) clock st d (log, x)) = (st', d', log', x')"
    "synced st' d' ws'" "workflow_ok ws'" "di_persistence_id d' = di_persistence_id d"
    "map_of (ws_outbox ws') mid = Some e'" "failing_entry (count_list log' mid) e'" "oe_retry_policy e' = oe_retry_policy e"
    "count_list log' mid = count_list log mid + of_bool (is_due e (clock 0))"
proof -
  let ?due = "due_outbox ws (clock 0)"
  let ?out = "pass_spec (logged dispatch) ?due (\<lambda>i. clock (Suc i)) (log, x)"
  obtain events st' d' ws' where p: "dispatch_due_outbox memory_state_ops (logged dispatch) clock st d (log, x) = (Inr events, st', d', snd ?out)"
    "synced st' d' ws'" "workflow_ok ws'" "di_persistence_id d' = di_persistence_id d"
    "map_of (ws_outbox ws') = map_of (ws_outbox ws) ++ map_of (by_id (fst ?out))"
    using dispatch_due_spec [OF sync ok] .
  have log': "fst (snd ?out) = log @ map oe_message_id ?due"
    by (rule pass_spec_logged)
  have id: "oe_message_id e = mid"
    using ok e(1) indexedD(3) unfolding workflow_ok_def by metis
  have in_due: "mid \<in> oe_message_id ` set ?due \<longleftrightarrow> is_due e (clock 0)"
    using e(1) id due_entries(2) [OF ok] by (auto simp: image_iff)
  have count: "count_list (log @ map oe_message_id ?due) mid = count_list log mid + of_bool (is_due e (clock 0))"
    unfolding count_list_append count_list_distinct [OF due_entries(1) [OF ok]] using in_due by simp
  have final: "snd (dispatch_due_outbox memory_state_ops (logged dispatch) clock st d (log, x))
      = (st', d', log @ map oe_message_id ?due, snd (snd ?out))"
    unfolding p(1) log' [symmetric] by simp
  show thesis
  proof (cases "is_due e (clock 0)")
    case True
    then have "e \<in> set ?due"
      using due_entries(2) [OF ok] e(1) id by simp
    then obtain result now now' where r: "result \<noteq> DispatchSuccess"
      "map_of (by_id (fst ?out)) mid = Some (outcome result now (outbox_set_status OutDispatching now' e))"
      using pass_spec_entry [OF due_entries(1) [OF ok] _ never_succeeds_logged [OF fails]] id by metis
    let ?e' = "outcome result now (outbox_set_status OutDispatching now' e)"
    have "oe_retry_policy ?e' = oe_retry_policy e"
      using outcome_identity by (simp add: keeps_identity_def outbox_set_status_def)
    moreover have "failing_entry (count_list (log @ map oe_message_id ?due) mid) ?e'"
      using failing_entry_step [OF e(2) True r(1)] True unfolding count by simp
    moreover have "map_of (ws_outbox ws') mid = Some ?e'"
      unfolding p(5) by (simp add: map_add_def r(2))
    ultimately show thesis
      by (intro that [OF final p(2-4) _ _ _ count])
  next
    case False
    then have "map_of (by_id (fst ?out)) mid = None"
      by (intro pass_spec_other) (simp add: in_due)
    then have "map_of (ws_outbox ws') mid = Some e"
      unfolding p(5) using e(1) by (simp add: map_add_def)
    moreover have "failing_entry (count_list (log @ map oe_message_id ?due) mid) e"
      unfolding count using False e(2) by simp
    ultimately show thesis
      by (intro that [OF final p(2-4) _ _ refl count])
  qed
qed

lemma dispatch_passes_snoc:
  "dispatch_passes ops dispatch clocks s = (st, d, x) \<Longrightarrow>
   dispatch_passes ops dispatch (clocks @ [clock]) s = snd (dispatch_due_outbox ops dispatch clock st d x)"
proof (induction clocks arbitrary: s)
  case Nil
  then show ?case
    by (cases "snd (dispatch_due_outbox ops dispatch clock st d x)") simp
next
  case (Cons c clocks)
  then show ?case
    by (cases s) simp
qed

lemma failing_passes:
  assumes "synced st d ws" and "workflow_ok ws" and fails: "never_succeeds dispatch"
    and "map_of (ws_outbox ws) mid = Some e" and "failing_entry (count_list log mid) e"
  shows "\<exists>st' d' log' x' ws' e'. dispatch_passes memory_state_ops (logged dispatch) clocks (st, d, log, x) = (st', d', log', x')
    \<and> synced st' d' ws' \<and> workflow_ok ws' \<and> map_of (ws_outbox ws') mid = Some e' \<and> failing_entry (count_list log' mid) e'
    \<and> oe_retry_policy e' = oe_retry_policy e"
  using assms
proof (induction clocks arbitrary: st d ws e log x)
  case Nil
  then show ?case by auto
next
  case (Cons clock clocks)
  obtain st1 d1 log1 x1 ws1 e1 where 1: "snd (dispatch_due_outbox memory_state_ops (logged dispatch) clock st d (log, x)) = (st1, d1, log1, x1)"
    "synced st1 d1 ws1" "workflow_ok ws1" "map_of (ws_outbox ws1) mid = Some e1" "failing_entry (count_list log1 mid) e1"
    "oe_retry_policy e1 = oe_retry_policy e"
    using failing_pass [OF Cons.prems] by metis
  have step: "dispatch_passes memory_state_ops (logged dispatch) (clock # clocks) (st, d, log, x)
      = dispatch_passes memory_state_ops (logged dispatch) clocks (st1, d1, log1, x1)"
    using 1(1) by simp
  show ?case
    unfolding step 1(6) [symmetric] by (rule Cons.IH [OF 1(2,3) fails 1(4,5)])
qed

lemma schedule_synced:
  assumes sync: "up_to_date st d ws" and ok: "workflow_ok ws"
    and run: "schedule_outbox memory_state_ops c now st d = (Inr (OutboxScheduled e rv), st', d')"
  obtains ws' where "synced st' d' ws'" "workflow_ok ws'" "map_of (ws_outbox ws') (oc_message_id c) = Some (outbox_entry_for c now)"
proof -
  let ?ws' = "insert_outbox (outbox_entry_for c now) ws"
  obtain r where r: "di_record d = Some r" "sr_state r = ws"
    using sync by (auto simp: up_to_date_def synced_def)
  have none: "outbox_duplicate ws c = None"
    using run r by (simp add: schedule_outbox_def recovered_record_def Let_def split: option.splits)
  obtain rv' st'' d'' where p: "persist_state memory_state_ops (sr_revision r) ?ws' st d = (Inr rv', st'', d'')" "synced st'' d'' ?ws'"
    using persist_synced [OF sync r(1)] by blast
  have "st'' = st'" "d'' = d'"
    using run r none p(1) by (simp_all add: schedule_outbox_def recovered_record_def Let_def)
  moreover have "workflow_ok ?ws'"
    using outbox_duplicate_None [OF none] ok
    by (auto simp: outbox_entry_for_def outbox_entry_new_def intro!: workflow_ok_insert_outbox)
  moreover have "map_of (ws_outbox ?ws') (oc_message_id c) = Some (outbox_entry_for c now)"
    by (simp add: insert_outbox_def outbox_entry_for_def outbox_entry_new_def)
  ultimately show thesis
    using that p(2) by blast
qed

lemma scheduled_failing: "failing_entry 0 (outbox_entry_for c now)"
  by (simp add: failing_entry_def outbox_entry_for_def outbox_entry_new_def retry_attempt_new_def budget_def)

section \<open>Properties\<close>

text \<open>C22: Recovering a durable inbox and running one dispatch pass over the in-memory store implements
  the specification of a pass, whatever the dispatcher answers: the pass returns one event per due
  entry, every due entry is handed to the dispatcher once, in id order and marked as dispatching,
  the stored snapshot then holds for every due entry exactly the outcome of its dispatch and every
  other entry and the whole inbox unchanged.\<close>

theorem dispatch_pass_refines:
  assumes stored: "map_of st (workflow_persistence_id w) = Some (StateRecord ws rv)" and ok: "workflow_ok ws"
    and rec: "inbox_recover memory_state_ops now st (with_clock w) = (Inr ws0, st0, d)"
    and spec: "pass_spec dispatch (due_outbox ws (clock 0)) (\<lambda>i. clock (Suc i)) x = (es, x')"
  shows "\<exists>events st' d' ws' rv'. dispatch_due_outbox memory_state_ops dispatch clock st0 d x = (Inr events, st', d', x')
    \<and> length events = length (due_outbox ws (clock 0))
    \<and> map oe_message_id es = map oe_message_id (due_outbox ws (clock 0))
    \<and> di_record d' = Some (StateRecord ws' rv') \<and> same_inbox ws ws' \<and> workflow_ok ws'
    \<and> map_of st' (workflow_persistence_id w) = Some (StateRecord ws' rv')
    \<and> (\<forall>mid. map_of (ws_outbox ws') mid = (case map_of (by_id es) mid of Some e \<Rightarrow> Some e | None \<Rightarrow> map_of (ws_outbox ws) mid))"
proof -
  have d: "st0 = st" "di_persistence_id d = workflow_persistence_id w" "synced st d ws"
    using rec stored by (auto simp: inbox_recover_def memory_state_ops_def memory_load_def with_clock_def synced_def)
  obtain events st' d' ws' where
    run: "dispatch_due_outbox memory_state_ops dispatch clock st d x = (Inr events, st', d', x')"
    "length events = length (due_outbox ws (clock 0))" "synced st' d' ws'" "workflow_ok ws'" "same_inbox ws ws'"
    "di_persistence_id d' = di_persistence_id d"
    and upd: "map_of (ws_outbox ws') = map_of (ws_outbox ws) ++ map_of (by_id es)"
    using dispatch_due_spec [OF d(3) ok, of dispatch clock x] unfolding spec fst_conv snd_conv .
  have "map oe_message_id es = map oe_message_id (due_outbox ws (clock 0))"
    using pass_spec_ids [of dispatch "due_outbox ws (clock 0)" "\<lambda>i. clock (Suc i)" x] unfolding spec by simp
  moreover obtain rv' where "di_record d' = Some (StateRecord ws' rv')" "map_of st' (workflow_persistence_id w) = Some (StateRecord ws' rv')"
    using run(3) unfolding synced_def run(6) d(2) by blast
  moreover have "\<forall>mid. map_of (ws_outbox ws') mid = (case map_of (by_id es) mid of Some e \<Rightarrow> Some e | None \<Rightarrow> map_of (ws_outbox ws) mid)"
    using upd by (simp add: map_add_def)
  ultimately show ?thesis
    using run(1,2,4,5) unfolding d(1) by blast
qed

text \<open>A message with two attempts and a dispatcher that is always down.\<close>

definition notify_command :: outbox_command where
  "notify_command = (outbox_command_new ''m'' (ActorTarget ''a'') ''notify'' [])\<lparr>oc_retry_policy := retry_policy_new 2 100 1000\<rparr>"

definition down :: "unit dispatcher" where
  "down x e = (DispatchFailure ''down'', x)"

definition fresh_inbox :: durable_inbox where
  "fresh_inbox = (with_clock ''w'')\<lparr>di_record := Some (missing_record (empty_workflow ''w'' 0))\<rparr>"

definition notified :: "workflow_state memory_state_store \<times> durable_inbox" where
  "notified = snd (schedule_outbox memory_state_ops notify_command 5 [] fresh_inbox)"

definition notify_clocks :: "(nat \<Rightarrow> timestamp) list" where
  "notify_clocks = [\<lambda>_. 10, \<lambda>_. 50, \<lambda>_. 200, \<lambda>_. 9999]"

text \<open>C23: A scheduled message whose every dispatch fails or times out is dispatched at most \<open>max_attempts\<close>
  times, and at least once when \<open>max_attempts\<close> is 0: after any number of passes the stored entry
  counts exactly the dispatches made, it is exhausted exactly when they have used up the budget,
  and a further pass dispatches it once if it is due and not at all otherwise.\<close>

theorem outbox_retry_budget:
  assumes "up_to_date st d ws" and "workflow_ok ws"
    and "schedule_outbox memory_state_ops c now st d = (Inr (OutboxScheduled e0 rv), st0, d0)"
    and "never_succeeds dispatch"
    and "dispatch_passes memory_state_ops (logged dispatch) clocks (st0, d0, [], x) = (st', d', log, x')"
  shows "\<exists>ws' e. synced st' d' ws' \<and> outbox_entry_of ws' (oc_message_id c) = Some e \<and> oe_retry_policy e = oc_retry_policy c
    \<and> failing_entry (count_list log (oc_message_id c)) e
    \<and> (\<forall>clock. count_list (fst (snd (snd (dispatch_passes memory_state_ops (logged dispatch) (clocks @ [clock]) (st0, d0, [], x)))))
          (oc_message_id c) = count_list log (oc_message_id c) + of_bool (is_due e (clock 0)))"
proof -
  let ?mid = "oc_message_id c"
  obtain ws0 where ws0: "synced st0 d0 ws0" "workflow_ok ws0" "map_of (ws_outbox ws0) ?mid = Some (outbox_entry_for c now)"
    using schedule_synced [OF assms(1-3)] .
  have start: "failing_entry (count_list [] ?mid) (outbox_entry_for c now)"
    by (simp add: scheduled_failing)
  obtain ws' e where ws': "synced st' d' ws'" "workflow_ok ws'" "map_of (ws_outbox ws') ?mid = Some e"
      "failing_entry (count_list log ?mid) e" "oe_retry_policy e = oe_retry_policy (outbox_entry_for c now)"
    using failing_passes [OF ws0(1,2) assms(4) ws0(3) start, of clocks x] assms(5) by auto
  have next_pass: "count_list (fst (snd (snd (dispatch_passes memory_state_ops (logged dispatch) (clocks @ [clock]) (st0, d0, [], x))))) ?mid
      = count_list log ?mid + of_bool (is_due e (clock 0))" for clock
  proof -
    obtain st1 d1 log1 x1 where "snd (dispatch_due_outbox memory_state_ops (logged dispatch) clock st' d' (log, x')) = (st1, d1, log1, x1)"
      "count_list log1 ?mid = count_list log ?mid + of_bool (is_due e (clock 0))"
      using failing_pass [OF ws'(1,2) assms(4) ws'(3,4)] by metis
    then show ?thesis
      unfolding dispatch_passes_snoc [OF assms(5)] by simp
  qed
  show ?thesis
    using ws' next_pass by (auto simp: outbox_entry_of_def outbox_entry_for_def outbox_entry_new_def)
qed

lemma notified_facts:
  "schedule_outbox memory_state_ops notify_command 5 [] fresh_inbox
     = (Inr (OutboxScheduled (outbox_entry_for notify_command 5) 1), fst notified, snd notified)"
  "fst (snd (snd (dispatch_passes memory_state_ops (logged down) notify_clocks (fst notified, snd notified, [], ())))) = [''m'', ''m'']"
  by code_simp+

lemma fresh_up_to_date: "up_to_date [] fresh_inbox (empty_workflow ''w'' 0)"
  by (simp add: up_to_date_def fresh_inbox_def missing_record_def with_clock_def)

lemma down_never_succeeds: "never_succeeds down"
  by (simp add: never_succeeds_def down_def)

theorem outbox_retry_budget_witness:
  "\<exists>st' d' ws' e. dispatch_passes memory_state_ops (logged down) notify_clocks (fst notified, snd notified, [], ())
       = (st', d', [''m'', ''m''], ())
     \<and> synced st' d' ws' \<and> outbox_entry_of ws' ''m'' = Some e \<and> oe_status e = OutExhausted \<and> ra_attempts (oe_attempts e) = 2"
proof -
  obtain st' d' log where run: "dispatch_passes memory_state_ops (logged down) notify_clocks (fst notified, snd notified, [], ()) = (st', d', log, ())"
    by (metis prod_cases3 surj_pair old.unit.exhaust)
  then have log: "log = [''m'', ''m'']"
    using notified_facts(2) by simp
  have c: "oc_message_id notify_command = ''m''" "budget (oc_retry_policy notify_command) = 2"
    by (simp_all add: notify_command_def outbox_command_new_def budget_def retry_policy_new_def)
  obtain ws' e where e: "synced st' d' ws'" "outbox_entry_of ws' ''m'' = Some e" "oe_retry_policy e = oc_retry_policy notify_command"
      "failing_entry (count_list log ''m'') e"
    using outbox_retry_budget [OF fresh_up_to_date workflow_ok_empty notified_facts(1) down_never_succeeds run] unfolding c(1) by blast
  have "failing_entry 2 e"
    using e(4) by (simp add: log numeral_2_eq_2)
  then have "oe_status e = OutExhausted" "unat (ra_attempts (oe_attempts e)) = 2"
    using e(3) c(2) by (simp_all add: failing_entry_def)
  then have "oe_status e = OutExhausted" "ra_attempts (oe_attempts e) = 2"
    by (simp_all add: word_unat_eq_iff)
  with run e(1,2) show ?thesis
    unfolding log by blast
qed

definition notified_state :: workflow_state where
  "notified_state = insert_outbox (outbox_entry_for notify_command 5) (empty_workflow ''w'' 0)"

lemma notified_store: "map_of (fst notified) (workflow_persistence_id ''w'') = Some (StateRecord notified_state 1)"
  by code_simp

lemma notified_due: "map oe_message_id (due_outbox notified_state 10) = [''m'']"
  by code_simp

theorem dispatch_pass_refines_witness:
  "\<exists>event st' d' x'. dispatch_due_outbox memory_state_ops (logged down) (\<lambda>_. 10) (fst notified)
     (snd (snd (inbox_recover memory_state_ops 7 (fst notified) (with_clock ''w'')))) ([], ()) = (Inr [event], st', d', x')"
proof -
  have ok: "workflow_ok notified_state"
    unfolding notified_state_def
    by (rule workflow_ok_insert_outbox [OF workflow_ok_empty])
      (simp_all add: outbox_entry_of_def outbox_entry_by_key_def empty_workflow_def)
  have rec: "inbox_recover memory_state_ops 7 (fst notified) (with_clock ''w'')
      = (Inr notified_state, fst notified, snd (snd (inbox_recover memory_state_ops 7 (fst notified) (with_clock ''w''))))"
    using notified_store by (simp add: inbox_recover_def memory_state_ops_def memory_load_def with_clock_def)
  obtain events st' d' x' where "dispatch_due_outbox memory_state_ops (logged down) (\<lambda>_. 10) (fst notified)
       (snd (snd (inbox_recover memory_state_ops 7 (fst notified) (with_clock ''w'')))) ([], ()) = (Inr events, st', d', x')"
      "length events = length (due_outbox notified_state 10)"
    using dispatch_pass_refines [OF notified_store ok rec prod.collapse [symmetric], of "logged down" "\<lambda>_. 10" "([], ())"] by blast
  moreover have "length (due_outbox notified_state 10) = 1"
    using arg_cong [OF notified_due, of length] by simp
  ultimately show ?thesis
    by (metis (no_types) length_0_conv length_Suc_conv One_nat_def)
qed

text \<open>
  The retry deadline is not saturated: a maximal backoff wraps it into the past, and the entry is
  due again at once.
\<close>

lemma retry_deadline_wraps:
  "is_due (fst (outbox_record_failure 10 ''down'' (outbox_entry_new ''m'' None (ActorTarget ''a'') ''notify'' [] 5 (retry_policy_new 3 (- 1) (- 1))))) 10"
  by code_simp

end
