(* ===== verification/Budget_Ledger.thy ===== *)
theory Budget_Ledger
  imports Rakka_Prelude
begin

text \<open>
  The escrow budget ledger of the agent runtime (\<open>crates/rakka-agent/src/budget.rs\<close>): budget
  dimensions, allocations and limits, consumption, and the ledger through which a scope escrows
  allocations to its children, tops them up, settles what they consumed and takes back the rest.
  Schema versions, serialisation and error texts are left out.
\<close>

section \<open>Dimensions\<close>

datatype budget_dimension =
    LoopIterations | ModelCalls | ToolCalls | Effects | EffectAttempts | Tokens | Cost | WallClock | ConcurrentEffects | Descendants

definition conserved :: "budget_dimension list" where
  "conserved = [LoopIterations, ModelCalls, ToolCalls, Effects, EffectAttempts, Tokens, Cost, Descendants]"

definition work_dimensions :: "budget_dimension list" where
  "work_dimensions = [LoopIterations, ModelCalls, ToolCalls, Effects, EffectAttempts, Tokens, Cost]"

definition is_conserved :: "budget_dimension \<Rightarrow> bool" where
  "is_conserved d \<longleftrightarrow> d \<noteq> WallClock \<and> d \<noteq> ConcurrentEffects"

fun dimension_label :: "budget_dimension \<Rightarrow> string" where
  "dimension_label LoopIterations = ''loop-iterations''"
| "dimension_label ModelCalls = ''model-calls''"
| "dimension_label ToolCalls = ''tool-calls''"
| "dimension_label Effects = ''effects''"
| "dimension_label EffectAttempts = ''effect-attempts''"
| "dimension_label Tokens = ''tokens''"
| "dimension_label Cost = ''cost''"
| "dimension_label WallClock = ''wall-clock''"
| "dimension_label ConcurrentEffects = ''concurrent-effects''"
| "dimension_label Descendants = ''descendants''"

record budget_exhaustion =
  be_dimension :: budget_dimension
  be_limit :: u64
  be_consumed :: u64

section \<open>Allocations and limits\<close>

record budget_ceilings =
  max_loop_iterations :: "u32 option"
  max_model_calls :: "u32 option"
  max_tool_calls :: "u32 option"
  max_effects :: "u32 option"
  max_effect_attempts :: "u32 option"
  max_tokens :: "u64 option"
  max_cost_micros :: "u64 option"
  max_wall_clock_millis :: "u64 option"
  max_concurrent_effects :: "u32 option"

record budget_allocation =
  ba_loop_iterations :: "u64 option"
  ba_model_calls :: "u64 option"
  ba_tool_calls :: "u64 option"
  ba_effects :: "u64 option"
  ba_effect_attempts :: "u64 option"
  ba_tokens :: "u64 option"
  ba_cost_micros :: "u64 option"
  ba_descendants :: "u64 option"

definition unbounded_allocation :: budget_allocation where
  "unbounded_allocation = \<lparr>ba_loop_iterations = None, ba_model_calls = None, ba_tool_calls = None, ba_effects = None,
     ba_effect_attempts = None, ba_tokens = None, ba_cost_micros = None, ba_descendants = None\<rparr>"

definition nothing_allocation :: budget_allocation where
  "nothing_allocation = \<lparr>ba_loop_iterations = Some 0, ba_model_calls = Some 0, ba_tool_calls = Some 0, ba_effects = Some 0,
     ba_effect_attempts = Some 0, ba_tokens = Some 0, ba_cost_micros = Some 0, ba_descendants = Some 0\<rparr>"

definition allocation_from_ceilings :: "budget_ceilings \<Rightarrow> budget_allocation" where
  "allocation_from_ceilings c = \<lparr>ba_loop_iterations = map_option ucast (max_loop_iterations c),
     ba_model_calls = map_option ucast (max_model_calls c), ba_tool_calls = map_option ucast (max_tool_calls c),
     ba_effects = map_option ucast (max_effects c), ba_effect_attempts = map_option ucast (max_effect_attempts c),
     ba_tokens = max_tokens c, ba_cost_micros = max_cost_micros c, ba_descendants = None\<rparr>"

fun allocation_get :: "budget_allocation \<Rightarrow> budget_dimension \<Rightarrow> u64 option" where
  "allocation_get a LoopIterations = ba_loop_iterations a"
| "allocation_get a ModelCalls = ba_model_calls a"
| "allocation_get a ToolCalls = ba_tool_calls a"
| "allocation_get a Effects = ba_effects a"
| "allocation_get a EffectAttempts = ba_effect_attempts a"
| "allocation_get a Tokens = ba_tokens a"
| "allocation_get a Cost = ba_cost_micros a"
| "allocation_get a Descendants = ba_descendants a"
| "allocation_get a WallClock = None"
| "allocation_get a ConcurrentEffects = None"

fun allocation_set :: "budget_allocation \<Rightarrow> budget_dimension \<Rightarrow> u64 option \<Rightarrow> budget_allocation" where
  "allocation_set a LoopIterations x = a\<lparr>ba_loop_iterations := x\<rparr>"
| "allocation_set a ModelCalls x = a\<lparr>ba_model_calls := x\<rparr>"
| "allocation_set a ToolCalls x = a\<lparr>ba_tool_calls := x\<rparr>"
| "allocation_set a Effects x = a\<lparr>ba_effects := x\<rparr>"
| "allocation_set a EffectAttempts x = a\<lparr>ba_effect_attempts := x\<rparr>"
| "allocation_set a Tokens x = a\<lparr>ba_tokens := x\<rparr>"
| "allocation_set a Cost x = a\<lparr>ba_cost_micros := x\<rparr>"
| "allocation_set a Descendants x = a\<lparr>ba_descendants := x\<rparr>"
| "allocation_set a WallClock x = a"
| "allocation_set a ConcurrentEffects x = a"

fun tighter :: "('a::linorder) option \<Rightarrow> 'a option \<Rightarrow> 'a option" where
  "tighter None bound = bound"
| "tighter held None = held"
| "tighter (Some held) (Some bound) = Some (min held bound)"

definition allocation_narrowed_to :: "budget_allocation \<Rightarrow> budget_allocation \<Rightarrow> budget_allocation" where
  "allocation_narrowed_to a ceiling =
     foldl (\<lambda>narrowed d. allocation_set narrowed d (tighter (allocation_get a d) (allocation_get ceiling d))) a conserved"

definition is_unbounded :: "budget_allocation \<Rightarrow> bool" where
  "is_unbounded a \<longleftrightarrow> list_all (\<lambda>d. allocation_get a d = None) conserved"

definition first_empty_for :: "budget_allocation \<Rightarrow> budget_allocation \<Rightarrow> budget_dimension option" where
  "first_empty_for a request =
     find (\<lambda>d. 0 < (case allocation_get request d of Some wanted \<Rightarrow> wanted | None \<Rightarrow> - 1) \<and> allocation_get a d = Some 0) work_dimensions"

definition allocation_saturating_add :: "budget_allocation \<Rightarrow> budget_allocation \<Rightarrow> budget_allocation" where
  "allocation_saturating_add a b =
     foldl (\<lambda>sum d. allocation_set sum d
        (case (allocation_get a d, allocation_get b d) of (Some held, Some added) \<Rightarrow> Some (sat_add held added) | _ \<Rightarrow> None)) a conserved"

record budget_limits =
  bl_max_wall_clock_millis :: "u64 option"
  bl_max_concurrent_effects :: "u32 option"

definition unbounded_limits :: budget_limits where
  "unbounded_limits = \<lparr>bl_max_wall_clock_millis = None, bl_max_concurrent_effects = None\<rparr>"

definition limits_from_ceilings :: "budget_ceilings \<Rightarrow> budget_limits" where
  "limits_from_ceilings c = \<lparr>bl_max_wall_clock_millis = max_wall_clock_millis c, bl_max_concurrent_effects = max_concurrent_effects c\<rparr>"

definition limits_narrowed_to :: "budget_limits \<Rightarrow> budget_limits \<Rightarrow> budget_limits" where
  "limits_narrowed_to l ceiling =
     \<lparr>bl_max_wall_clock_millis = tighter (bl_max_wall_clock_millis l) (bl_max_wall_clock_millis ceiling),
      bl_max_concurrent_effects = tighter (bl_max_concurrent_effects l) (bl_max_concurrent_effects ceiling)\<rparr>"

record budget_grant =
  bg_allocation :: budget_allocation
  bg_limits :: budget_limits

definition grant_unbounded :: budget_grant where
  "grant_unbounded = \<lparr>bg_allocation = unbounded_allocation, bg_limits = unbounded_limits\<rparr>"

definition grant_from_ceilings :: "budget_ceilings \<Rightarrow> budget_grant" where
  "grant_from_ceilings c = \<lparr>bg_allocation = allocation_from_ceilings c, bg_limits = limits_from_ceilings c\<rparr>"

definition grant_narrowed_to :: "budget_grant \<Rightarrow> budget_grant \<Rightarrow> budget_grant" where
  "grant_narrowed_to g ceiling = \<lparr>bg_allocation = allocation_narrowed_to (bg_allocation g) (bg_allocation ceiling),
     bg_limits = limits_narrowed_to (bg_limits g) (bg_limits ceiling)\<rparr>"

section \<open>Consumption\<close>

record budget_consumption =
  bc_loop_iterations :: u64
  bc_model_calls :: u64
  bc_tool_calls :: u64
  bc_effects :: u64
  bc_effect_attempts :: u64
  bc_tokens :: u64
  bc_cost_micros :: u64
  bc_descendants :: u64

definition zero_consumption :: budget_consumption where
  "zero_consumption = \<lparr>bc_loop_iterations = 0, bc_model_calls = 0, bc_tool_calls = 0, bc_effects = 0,
     bc_effect_attempts = 0, bc_tokens = 0, bc_cost_micros = 0, bc_descendants = 0\<rparr>"

fun consumption_get :: "budget_consumption \<Rightarrow> budget_dimension \<Rightarrow> u64" where
  "consumption_get c LoopIterations = bc_loop_iterations c"
| "consumption_get c ModelCalls = bc_model_calls c"
| "consumption_get c ToolCalls = bc_tool_calls c"
| "consumption_get c Effects = bc_effects c"
| "consumption_get c EffectAttempts = bc_effect_attempts c"
| "consumption_get c Tokens = bc_tokens c"
| "consumption_get c Cost = bc_cost_micros c"
| "consumption_get c Descendants = bc_descendants c"
| "consumption_get c WallClock = 0"
| "consumption_get c ConcurrentEffects = 0"

fun consumption_add :: "budget_consumption \<Rightarrow> budget_dimension \<Rightarrow> u64 \<Rightarrow> budget_consumption" where
  "consumption_add c LoopIterations n = c\<lparr>bc_loop_iterations := sat_add (bc_loop_iterations c) n\<rparr>"
| "consumption_add c ModelCalls n = c\<lparr>bc_model_calls := sat_add (bc_model_calls c) n\<rparr>"
| "consumption_add c ToolCalls n = c\<lparr>bc_tool_calls := sat_add (bc_tool_calls c) n\<rparr>"
| "consumption_add c Effects n = c\<lparr>bc_effects := sat_add (bc_effects c) n\<rparr>"
| "consumption_add c EffectAttempts n = c\<lparr>bc_effect_attempts := sat_add (bc_effect_attempts c) n\<rparr>"
| "consumption_add c Tokens n = c\<lparr>bc_tokens := sat_add (bc_tokens c) n\<rparr>"
| "consumption_add c Cost n = c\<lparr>bc_cost_micros := sat_add (bc_cost_micros c) n\<rparr>"
| "consumption_add c Descendants n = c\<lparr>bc_descendants := sat_add (bc_descendants c) n\<rparr>"
| "consumption_add c WallClock n = c"
| "consumption_add c ConcurrentEffects n = c"

definition consumption_saturating_add :: "budget_consumption \<Rightarrow> budget_consumption \<Rightarrow> budget_consumption" where
  "consumption_saturating_add c c' = foldl (\<lambda>sum d. consumption_add sum d (consumption_get c' d)) c conserved"

definition consumption_is_zero :: "budget_consumption \<Rightarrow> bool" where
  "consumption_is_zero c \<longleftrightarrow> c = zero_consumption"

section \<open>The escrow ledger\<close>

type_synonym escrow_child_id = string

record child_escrow =
  ce_allocated :: budget_allocation
  ce_granted_through :: u64
  ce_last_top_up :: "budget_allocation option"
  ce_settled :: "budget_consumption option"

record escrow_ledger =
  el_allocation :: budget_allocation
  el_limits :: budget_limits
  el_consumed :: budget_consumption
  el_outstanding :: "(escrow_child_id, child_escrow) btree"

datatype escrow_error =
    ChildCapacity nat
  | UnknownChild escrow_child_id
  | NotSettled escrow_child_id
  | AlreadySettled escrow_child_id
  | StaleTopUp escrow_child_id u64 u64

fun escrow_error_code :: "escrow_error \<Rightarrow> string" where
  "escrow_error_code (ChildCapacity _) = ''escrow-child-capacity''"
| "escrow_error_code (UnknownChild _) = ''escrow-child-unknown''"
| "escrow_error_code (NotSettled _) = ''escrow-child-not-settled''"
| "escrow_error_code (AlreadySettled _) = ''escrow-child-already-settled''"
| "escrow_error_code (StaleTopUp _ _ _) = ''escrow-top-up-stale''"

definition escrow_child_capacity :: nat where
  "escrow_child_capacity = 64"

definition ledger_new :: "budget_grant \<Rightarrow> escrow_ledger" where
  "ledger_new grant = \<lparr>el_allocation = bg_allocation grant, el_limits = bg_limits grant, el_consumed = zero_consumption,
     el_outstanding = []\<rparr>"

definition outstanding_sum :: "escrow_ledger \<Rightarrow> budget_dimension \<Rightarrow> u64" where
  "outstanding_sum l d = foldl sat_add 0
     (map (\<lambda>(_, e). case allocation_get (ce_allocated e) d of Some held \<Rightarrow> held | None \<Rightarrow> 0) (el_outstanding l))"

definition available :: "escrow_ledger \<Rightarrow> budget_dimension \<Rightarrow> u64 option" where
  "available l d =
     map_option (\<lambda>allocation. sat_sub (sat_sub allocation (consumption_get (el_consumed l) d)) (outstanding_sum l d))
       (allocation_get (el_allocation l) d)"

definition available_allocation :: "escrow_ledger \<Rightarrow> budget_allocation" where
  "available_allocation l = foldl (\<lambda>a d. allocation_set a d (available l d)) unbounded_allocation conserved"

definition open_child ::
  "escrow_ledger \<Rightarrow> escrow_child_id \<Rightarrow> budget_allocation \<Rightarrow> (escrow_error, budget_allocation) result \<times> escrow_ledger"
where
  "open_child l child request =
     (case map_of (el_outstanding l) child of
        Some e \<Rightarrow> (Inr (ce_allocated e), l)
      | None \<Rightarrow>
          if escrow_child_capacity \<le> length (el_outstanding l) then (Inl (ChildCapacity escrow_child_capacity), l)
          else
            let allocated = allocation_narrowed_to request (available_allocation l)
            in (Inr allocated,
                l\<lparr>el_outstanding := bt_insert child
                     \<lparr>ce_allocated = allocated, ce_granted_through = 0, ce_last_top_up = None, ce_settled = None\<rparr>
                     (el_outstanding l)\<rparr>))"

definition top_up_child ::
  "escrow_ledger \<Rightarrow> escrow_child_id \<Rightarrow> u64 \<Rightarrow> budget_allocation \<Rightarrow> (escrow_error, budget_allocation) result \<times> escrow_ledger"
where
  "top_up_child l child sequence request =
     (case map_of (el_outstanding l) child of
        None \<Rightarrow> (Inl (UnknownChild child), l)
      | Some e \<Rightarrow>
          if sequence \<le> ce_granted_through e then
            (case (sequence = ce_granted_through e, ce_last_top_up e) of
               (True, Some granted) \<Rightarrow> (Inr granted, l)
             | _ \<Rightarrow> (Inl (StaleTopUp child sequence (ce_granted_through e)), l))
          else if ce_settled e \<noteq> None then (Inl (AlreadySettled child), l)
          else
            let granted = allocation_narrowed_to request (available_allocation l);
                e' = e\<lparr>ce_allocated := allocation_saturating_add (ce_allocated e) granted,
                       ce_granted_through := sequence, ce_last_top_up := Some granted\<rparr>
            in (Inr granted, l\<lparr>el_outstanding := bt_insert child e' (el_outstanding l)\<rparr>))"

definition settle_child ::
  "escrow_ledger \<Rightarrow> escrow_child_id \<Rightarrow> budget_consumption \<Rightarrow> (escrow_error, budget_consumption) result \<times> escrow_ledger"
where
  "settle_child l child consumed =
     (case map_of (el_outstanding l) child of
        None \<Rightarrow> (Inl (UnknownChild child), l)
      | Some e \<Rightarrow>
          (case ce_settled e of
             Some settled \<Rightarrow> (Inr settled, l)
           | None \<Rightarrow>
               (Inr consumed,
                l\<lparr>el_outstanding := bt_insert child (e\<lparr>ce_settled := Some consumed\<rparr>) (el_outstanding l),
                  el_consumed := consumption_saturating_add (el_consumed l) consumed\<rparr>)))"

definition return_child ::
  "escrow_ledger \<Rightarrow> escrow_child_id \<Rightarrow> (escrow_error, budget_allocation) result \<times> escrow_ledger"
where
  "return_child l child =
     (case map_of (el_outstanding l) child of
        None \<Rightarrow> (Inl (UnknownChild child), l)
      | Some e \<Rightarrow>
          (case ce_settled e of
             None \<Rightarrow> (Inl (NotSettled child), l)
           | Some settled \<Rightarrow>
               let released = foldl (\<lambda>a d. allocation_set a d
                     (map_option (\<lambda>held. sat_sub held (consumption_get settled d)) (allocation_get (ce_allocated e) d)))
                     unbounded_allocation conserved
               in (Inr released, l\<lparr>el_outstanding := bt_remove child (el_outstanding l)\<rparr>)))"

definition widen :: "escrow_ledger \<Rightarrow> budget_allocation \<Rightarrow> budget_allocation \<Rightarrow> budget_allocation \<times> escrow_ledger" where
  "widen l additional ceiling =
     (let widened = foldl (\<lambda>w d.
            case (allocation_get additional d, allocation_get (el_allocation l) d) of
              (Some added, Some held) \<Rightarrow>
                let target = sat_add held added;
                    target = (case allocation_get ceiling d of Some bound \<Rightarrow> min target bound | None \<Rightarrow> target)
                in allocation_set w d (Some (max held target))
            | _ \<Rightarrow> w) (el_allocation l) conserved
      in (widened, l\<lparr>el_allocation := widened\<rparr>))"

section \<open>Dimension by dimension\<close>

lemma conserved_iff: "d \<in> set conserved \<longleftrightarrow> is_conserved d"
  by (cases d) (simp_all add: conserved_def is_conserved_def)

lemma allocation_get_set [simp]:
  "allocation_get (allocation_set a d x) d' = (if d = d' \<and> is_conserved d then x else allocation_get a d')"
  by (cases d; cases d') (simp_all add: is_conserved_def)

lemma allocation_get_not_conserved [simp]: "\<not> is_conserved d \<Longrightarrow> allocation_get a d = None"
  by (cases d) (simp_all add: is_conserved_def)

lemma allocation_get_fold:
  "allocation_get (foldl (\<lambda>a d. allocation_set a d (f d)) a ds) d
     = (if d \<in> set ds \<and> is_conserved d then f d else allocation_get a d)"
  by (induction ds arbitrary: a) auto

lemma allocation_get_narrowed: "allocation_get (allocation_narrowed_to a b) d = tighter (allocation_get a d) (allocation_get b d)"
  by (cases "is_conserved d") (simp_all add: allocation_narrowed_to_def allocation_get_fold conserved_iff)

lemma allocation_get_add:
  "allocation_get (allocation_saturating_add a b) d =
     (case (allocation_get a d, allocation_get b d) of (Some held, Some added) \<Rightarrow> Some (sat_add held added) | _ \<Rightarrow> None)"
  by (cases "is_conserved d") (simp_all add: allocation_saturating_add_def allocation_get_fold conserved_iff)

lemma allocation_get_unbounded [simp]: "allocation_get unbounded_allocation d = None"
  by (cases d) (simp_all add: unbounded_allocation_def)

lemma allocation_get_available [simp]: "allocation_get (available_allocation l) d = available l d"
  by (cases "is_conserved d") (simp_all add: available_allocation_def allocation_get_fold conserved_iff available_def)

lemma consumption_get_add:
  "consumption_get (consumption_add c d n) d' = (if d = d' \<and> is_conserved d then sat_add (consumption_get c d') n else consumption_get c d')"
  by (cases d; cases d') (simp_all add: is_conserved_def)

lemma consumption_get_fold:
  "distinct ds \<Longrightarrow> consumption_get (foldl (\<lambda>s d. consumption_add s d (f d)) c ds) d
     = (if d \<in> set ds \<and> is_conserved d then sat_add (consumption_get c d) (f d) else consumption_get c d)"
  by (induction ds arbitrary: c) (auto simp: consumption_get_add)

lemma consumption_get_saturating_add:
  "consumption_get (consumption_saturating_add c c') d = sat_add (consumption_get c d) (consumption_get c' d)"
proof -
  have "distinct conserved"
    by (simp add: conserved_def)
  moreover have "\<not> is_conserved d \<Longrightarrow> consumption_get x d = 0" for x
    by (cases d) (simp_all add: is_conserved_def)
  ultimately show ?thesis
    by (cases "is_conserved d") (simp_all add: consumption_saturating_add_def consumption_get_fold conserved_iff sat_add_def)
qed

lemma consumption_get_zero [simp]: "consumption_get zero_consumption d = 0"
  by (cases d) (simp_all add: zero_consumption_def)

lemma allocation_eqI:
  assumes "\<And>d. allocation_get a d = allocation_get b d"
  shows "a = (b :: budget_allocation)"
  using assms [of LoopIterations] assms [of ModelCalls] assms [of ToolCalls] assms [of Effects] assms [of EffectAttempts]
    assms [of Tokens] assms [of Cost] assms [of Descendants]
  by simp

lemma widen_get:
  "allocation_get (fst (widen l additional ceiling)) d =
     (case (allocation_get additional d, allocation_get (el_allocation l) d) of
        (Some added, Some held) \<Rightarrow> Some (max held (case allocation_get ceiling d of
            Some bound \<Rightarrow> min (sat_add held added) bound | None \<Rightarrow> sat_add held added))
      | _ \<Rightarrow> allocation_get (el_allocation l) d)"
proof -
  let ?f = "\<lambda>d. case (allocation_get additional d, allocation_get (el_allocation l) d) of
        (Some added, Some held) \<Rightarrow> Some (max held (case allocation_get ceiling d of
            Some bound \<Rightarrow> min (sat_add held added) bound | None \<Rightarrow> sat_add held added))
      | _ \<Rightarrow> allocation_get (el_allocation l) d"
  have step: "(case (allocation_get additional d, allocation_get (el_allocation l) d) of
              (Some added, Some held) \<Rightarrow>
                let target = sat_add held added;
                    target = (case allocation_get ceiling d of Some bound \<Rightarrow> min target bound | None \<Rightarrow> target)
                in allocation_set w d (Some (max held target))
            | _ \<Rightarrow> w) = (if allocation_get additional d \<noteq> None \<and> allocation_get (el_allocation l) d \<noteq> None
                          then allocation_set w d (?f d) else w)" for w d
    by (auto simp: Let_def split: option.splits)
  have "allocation_get (foldl (\<lambda>w d. if allocation_get additional d \<noteq> None \<and> allocation_get (el_allocation l) d \<noteq> None
        then allocation_set w d (?f d) else w) a ds) d =
      (if d \<in> set ds \<and> is_conserved d \<and> allocation_get additional d \<noteq> None \<and> allocation_get (el_allocation l) d \<noteq> None
       then ?f d else allocation_get a d)" for a ds
    by (induction ds arbitrary: a) auto
  then show ?thesis
    unfolding widen_def Let_def fst_conv step [unfolded Let_def]
    by (cases "is_conserved d") (auto simp: conserved_iff split: option.splits)
qed

end
