(* ===== verification/Budget_Run.thy ===== *)
theory Budget_Run
  imports Budget_Ledger
begin

text \<open>
  The budget a run holds (\<open>AgentRunBudget\<close> in \<open>crates/rakka-agent/src/budget.rs\<close>): every charge is
  checked against the allocation before it is made, a turn is charged as a whole or not at all, and
  dispatch attempts are reserved before and settled after the work. In the counted dimensions a run
  never consumes more than it was allocated.
\<close>

section \<open>Definitions\<close>

record model_usage =
  mu_input_tokens :: u64
  mu_output_tokens :: u64
  mu_cost_micros :: u64
  mu_cached_input_tokens :: "u64 option"
  mu_reasoning_tokens :: "u64 option"

definition total_tokens :: "model_usage \<Rightarrow> u64" where
  "total_tokens u = sat_add (mu_input_tokens u) (mu_output_tokens u)"

record run_budget =
  rb_allocation :: budget_allocation
  rb_limits :: budget_limits
  rb_consumed :: budget_consumption
  rb_reserved_attempts :: u64
  rb_top_ups :: u64
  rb_deadline :: "u64 option"

definition run_allocate :: "budget_grant \<Rightarrow> u64 \<Rightarrow> run_budget" where
  "run_allocate grant started_at = \<lparr>rb_allocation = bg_allocation grant, rb_limits = bg_limits grant,
     rb_consumed = zero_consumption, rb_reserved_attempts = 0, rb_top_ups = 0,
     rb_deadline = map_option (\<lambda>millis. sat_add started_at millis) (bl_max_wall_clock_millis (bg_limits grant))\<rparr>"

type_synonym budget_check = "(budget_exhaustion, unit) result"

definition check_amount :: "run_budget \<Rightarrow> budget_dimension \<Rightarrow> u64 \<Rightarrow> budget_check" where
  "check_amount b d amount =
     (case allocation_get (rb_allocation b) d of
        None \<Rightarrow> Inr ()
      | Some limit \<Rightarrow>
          let held = (if d = EffectAttempts then sat_add (consumption_get (rb_consumed b) d) (rb_reserved_attempts b)
                      else consumption_get (rb_consumed b) d)
          in if limit < sat_add held amount
             then Inl \<lparr>be_dimension = d, be_limit = limit, be_consumed = held\<rparr> else Inr ())"

definition budget_check_one :: "run_budget \<Rightarrow> budget_dimension \<Rightarrow> budget_check" where
  "budget_check_one b d = check_amount b d 1"

definition check_deadline :: "run_budget \<Rightarrow> u64 \<Rightarrow> budget_check" where
  "check_deadline b now =
     (case rb_deadline b of
        None \<Rightarrow> Inr ()
      | Some deadline \<Rightarrow>
          if deadline \<le> now then
            let limit = (case bl_max_wall_clock_millis (rb_limits b) of Some l \<Rightarrow> l | None \<Rightarrow> 0)
            in Inl \<lparr>be_dimension = WallClock, be_limit = limit, be_consumed = sat_add (sat_sub now deadline) limit\<rparr>
          else Inr ())"

definition check_concurrency :: "run_budget \<Rightarrow> u64 \<Rightarrow> u64 \<Rightarrow> budget_check" where
  "check_concurrency b outstanding count =
     (case bl_max_concurrent_effects (rb_limits b) of
        None \<Rightarrow> Inr ()
      | Some maximum \<Rightarrow>
          if ucast maximum < sat_add outstanding count
          then Inl \<lparr>be_dimension = ConcurrentEffects, be_limit = ucast maximum, be_consumed = outstanding\<rparr> else Inr ())"

text \<open>The checks before a charge run in order; the first one that fails is reported.\<close>

definition guarded :: "run_budget \<Rightarrow> budget_check list \<Rightarrow> (run_budget \<Rightarrow> run_budget) \<Rightarrow> budget_check \<times> run_budget" where
  "guarded b checks f = (case first_failure checks of Inl e \<Rightarrow> (Inl e, b) | Inr _ \<Rightarrow> (Inr (), f b))"

definition consume :: "budget_dimension \<Rightarrow> u64 \<Rightarrow> run_budget \<Rightarrow> run_budget" where
  "consume d n b = b\<lparr>rb_consumed := consumption_add (rb_consumed b) d n\<rparr>"

definition reserve :: "u64 \<Rightarrow> run_budget \<Rightarrow> run_budget" where
  "reserve n b = b\<lparr>rb_reserved_attempts := sat_add (rb_reserved_attempts b) n\<rparr>"

definition charge_iteration :: "run_budget \<Rightarrow> u64 \<Rightarrow> budget_check \<times> run_budget" where
  "charge_iteration b now = guarded b [check_deadline b now, check_amount b LoopIterations 1] (consume LoopIterations 1)"

definition charge_model_call :: "run_budget \<Rightarrow> u64 \<Rightarrow> budget_check \<times> run_budget" where
  "charge_model_call b now = guarded b
     [check_deadline b now, budget_check_one b Tokens, budget_check_one b Cost, check_amount b ModelCalls 1] (consume ModelCalls 1)"

definition charge_tool_call :: "run_budget \<Rightarrow> u64 \<Rightarrow> budget_check \<times> run_budget" where
  "charge_tool_call b now = guarded b [check_deadline b now, check_amount b ToolCalls 1] (consume ToolCalls 1)"

definition reserve_model_turn :: "run_budget \<Rightarrow> u32 \<Rightarrow> u64 \<Rightarrow> u64 \<Rightarrow> budget_check \<times> run_budget" where
  "reserve_model_turn b max_attempts outstanding now = guarded b
     [check_deadline b now, check_concurrency b outstanding 1, check_amount b LoopIterations 1,
      budget_check_one b Tokens, budget_check_one b Cost, check_amount b ModelCalls 1, check_amount b Effects 1,
      check_amount b EffectAttempts (ucast max_attempts)]
     (reserve (ucast max_attempts) \<circ> consume Effects 1 \<circ> consume ModelCalls 1 \<circ> consume LoopIterations 1)"

definition reserve_tool_turn :: "run_budget \<Rightarrow> u64 \<Rightarrow> u64 \<Rightarrow> u64 \<Rightarrow> u64 \<Rightarrow> budget_check \<times> run_budget" where
  "reserve_tool_turn b count total_attempts outstanding now = guarded b
     [check_deadline b now, check_concurrency b outstanding count, check_amount b ToolCalls count,
      check_amount b Effects count, check_amount b EffectAttempts total_attempts]
     (reserve total_attempts \<circ> consume Effects count \<circ> consume ToolCalls count)"

definition reserve_attempts :: "run_budget \<Rightarrow> u32 \<Rightarrow> budget_check \<times> run_budget" where
  "reserve_attempts b max_attempts =
     guarded b [check_amount b EffectAttempts (ucast max_attempts)] (reserve (ucast max_attempts))"

definition settle_effect :: "run_budget \<Rightarrow> u32 \<Rightarrow> u32 \<Rightarrow> run_budget" where
  "settle_effect b reserved_attempts attempts_made =
     (let reserved = ucast reserved_attempts; made = min (ucast attempts_made) reserved
      in (consume EffectAttempts made b)\<lparr>rb_reserved_attempts := sat_sub (rb_reserved_attempts b) reserved\<rparr>)"

definition record_usage :: "run_budget \<Rightarrow> model_usage \<Rightarrow> run_budget" where
  "record_usage b usage = consume Cost (mu_cost_micros usage) (consume Tokens (total_tokens usage) b)"

definition credit :: "run_budget \<Rightarrow> budget_allocation \<Rightarrow> u64 \<Rightarrow> run_budget" where
  "credit b granted sequence =
     b\<lparr>rb_allocation := allocation_saturating_add (rb_allocation b) granted, rb_top_ups := max (rb_top_ups b) sequence\<rparr>"

definition charge_descendants :: "run_budget \<Rightarrow> u64 \<Rightarrow> run_budget" where
  "charge_descendants b count = consume Descendants count b"

definition unused :: "run_budget \<Rightarrow> budget_allocation" where
  "unused b = foldl (\<lambda>a d. allocation_set a d
       (map_option (\<lambda>held. sat_sub held (consumption_get (rb_consumed b) d)) (allocation_get (rb_allocation b) d)))
     unbounded_allocation conserved"

definition exhaustion :: "run_budget \<Rightarrow> u64 \<Rightarrow> budget_exhaustion option" where
  "exhaustion b now =
     (case first_failure [check_deadline b now, budget_check_one b Tokens, budget_check_one b Cost] of Inl e \<Rightarrow> Some e | Inr _ \<Rightarrow> None)"

section \<open>Staying within the allocation\<close>

text \<open>The dimensions that are charged before the work, and what is spoken for in them.\<close>

definition counted :: "budget_dimension \<Rightarrow> bool" where
  "counted d \<longleftrightarrow> d \<in> {LoopIterations, ModelCalls, ToolCalls, Effects, EffectAttempts}"

definition spoken_for :: "run_budget \<Rightarrow> budget_dimension \<Rightarrow> u64" where
  "spoken_for b d = (if d = EffectAttempts then sat_add (consumption_get (rb_consumed b) d) (rb_reserved_attempts b)
     else consumption_get (rb_consumed b) d)"

definition within :: "run_budget \<Rightarrow> budget_dimension \<Rightarrow> bool" where
  "within b d \<longleftrightarrow> (\<forall>limit. allocation_get (rb_allocation b) d = Some limit \<longrightarrow> spoken_for b d \<le> limit)"

datatype run_operation =
    ChargeIteration u64
  | ChargeModelCall u64
  | ChargeToolCall u64
  | ReserveModelTurn u32 u64 u64
  | ReserveToolTurn u64 u64 u64 u64
  | ReserveAttempts u32
  | SettleEffect u32 u32
  | RecordUsage model_usage
  | ChargeDescendants u64

fun run_operate :: "run_budget \<Rightarrow> run_operation \<Rightarrow> run_budget" where
  "run_operate b (ChargeIteration now) = snd (charge_iteration b now)"
| "run_operate b (ChargeModelCall now) = snd (charge_model_call b now)"
| "run_operate b (ChargeToolCall now) = snd (charge_tool_call b now)"
| "run_operate b (ReserveModelTurn attempts outstanding now) = snd (reserve_model_turn b attempts outstanding now)"
| "run_operate b (ReserveToolTurn count attempts outstanding now) = snd (reserve_tool_turn b count attempts outstanding now)"
| "run_operate b (ReserveAttempts attempts) = snd (reserve_attempts b attempts)"
| "run_operate b (SettleEffect reserved made) = settle_effect b reserved made"
| "run_operate b (RecordUsage usage) = record_usage b usage"
| "run_operate b (ChargeDescendants count) = charge_descendants b count"

text \<open>An effect settles the reservation it was charged.\<close>

fun settles_reserved :: "run_budget \<Rightarrow> run_operation \<Rightarrow> bool" where
  "settles_reserved b (SettleEffect reserved made) = (ucast reserved \<le> rb_reserved_attempts b)"
| "settles_reserved b _ = True"

lemma guarded_snd: "snd (guarded b checks f) = (if \<forall>c \<in> set checks. is_ok c then f b else b)"
proof (cases "first_failure checks")
  case (Inl e)
  then show ?thesis
    using first_failure_Inr [of checks "()"] by (auto simp: guarded_def)
next
  case (Inr u)
  then show ?thesis
    using first_failure_Inr [of checks u] by (simp add: guarded_def)
qed

lemma consume_simps [simp]:
  "rb_allocation (consume d n b) = rb_allocation b" "rb_reserved_attempts (consume d n b) = rb_reserved_attempts b"
  "rb_top_ups (consume d n b) = rb_top_ups b"
  "consumption_get (rb_consumed (consume d n b)) d' = (if d = d' \<and> is_conserved d then sat_add (consumption_get (rb_consumed b) d') n
     else consumption_get (rb_consumed b) d')"
  by (simp_all add: consume_def consumption_get_add)

lemma reserve_simps [simp]:
  "rb_allocation (reserve n b) = rb_allocation b" "rb_reserved_attempts (reserve n b) = sat_add (rb_reserved_attempts b) n"
  "rb_consumed (reserve n b) = rb_consumed b" "rb_top_ups (reserve n b) = rb_top_ups b"
  by (simp_all add: reserve_def)

lemma check_amount_ok: "is_ok (check_amount b d n) \<longleftrightarrow> (\<forall>limit. allocation_get (rb_allocation b) d = Some limit \<longrightarrow> sat_add (spoken_for b d) n \<le> limit)"
  by (auto simp: check_amount_def spoken_for_def Let_def is_ok_def split: option.splits)

lemma run_operate_frame: "rb_allocation (run_operate b op) = rb_allocation b \<and> rb_top_ups (run_operate b op) = rb_top_ups b"
  by (cases op) (simp_all add: charge_iteration_def charge_model_call_def charge_tool_call_def reserve_model_turn_def
    reserve_tool_turn_def reserve_attempts_def settle_effect_def record_usage_def charge_descendants_def guarded_snd Let_def)

lemma sat_add_assoc: "sat_add (sat_add a b) c = sat_add a (sat_add b c)"
  by (simp add: word_unat_eq_iff unat_sat_add)

lemma settle_spoken:
  assumes "made \<le> r" and "r \<le> reserved"
  shows "sat_add (sat_add consumed made) (sat_sub reserved r) \<le> sat_add consumed reserved"
  using assms by (simp add: word_le_nat_alt unat_sat_add unat_sat_sub)

lemma run_operate_spoken:
  assumes "counted d" and "settles_reserved b op" and "allocation_get (rb_allocation b) d = Some limit" and "spoken_for b d \<le> limit"
  shows "spoken_for (run_operate b op) d \<le> limit"
proof -
  have d: "d = LoopIterations \<or> d = ModelCalls \<or> d = ToolCalls \<or> d = Effects \<or> d = EffectAttempts"
    using assms(1) by (auto simp: counted_def)
  show ?thesis
  proof (cases "\<exists>r m. op = SettleEffect r m")
    case True
    then obtain r m where op: "op = SettleEffect r m" by blast
    have le: "sat_add (sat_add c (min (ucast m) (ucast r))) (sat_sub (rb_reserved_attempts b) (ucast r)) \<le> sat_add c (rb_reserved_attempts b)" for c
      by (rule settle_spoken) (use assms(2) op in simp_all)
    show ?thesis
      using assms(4) d unfolding op
      by (auto simp: settle_effect_def spoken_for_def Let_def is_conserved_def consume_def intro: order_trans [OF le])
  next
    case False
    then show ?thesis
      using assms(3,4) d
      by (cases op) (auto simp: charge_iteration_def charge_model_call_def charge_tool_call_def reserve_model_turn_def
        reserve_tool_turn_def reserve_attempts_def record_usage_def charge_descendants_def guarded_snd check_amount_ok
        spoken_for_def is_conserved_def sat_add_assoc consume_def split: if_splits)
  qed
qed

lemma run_operate_within: "counted d \<Longrightarrow> settles_reserved b op \<Longrightarrow> within b d \<Longrightarrow> within (run_operate b op) d"
  unfolding within_def using run_operate_spoken run_operate_frame by metis

lemma consumed_le_spoken: "consumption_get (rb_consumed b) d \<le> spoken_for b d"
proof -
  have "x \<le> sat_add x y" for x y :: u64
    using unat_less_two_power [of x] by (simp add: word_le_nat_alt unat_sat_add)
  then show ?thesis
    by (simp add: spoken_for_def)
qed

end
