(* ===== verification/Budget_System.thy ===== *)
theory Budget_System
  imports Budget_Run
begin

text \<open>
  A scope and the runs it funds. Assignments escrow an allocation and start a run with it, runs
  charge their own budget, ask for top-ups, settle and return, in any interleaving and with any
  reply delayed or replayed (\<open>apply_settlement\<close>, \<open>apply_return\<close> and \<open>apply_top_up\<close> of
  \<open>crates/rakka-agent/src/task.rs\<close>; \<open>owed_ledger_exchange\<close> and \<open>apply_top_up_grant\<close> of \<open>run.rs\<close>;
  \<open>park_for_top_up\<close> of \<open>loop_runtime.rs\<close>). In the counted dimensions everything spent below a scope
  stays within the scope's own allocation.
\<close>

section \<open>The system\<close>

record pending_top_up =
  pt_sequence :: u64
  pt_exhaustion :: budget_exhaustion

record funded_run =
  fr_budget :: run_budget
  fr_pending :: "pending_top_up option"
  fr_terminal :: bool

record budget_system =
  sy_ledger :: escrow_ledger
  sy_offers :: "escrow_child_id \<Rightarrow> budget_allocation option"
  sy_runs :: "escrow_child_id \<Rightarrow> funded_run option"
  sy_replies :: "escrow_child_id \<Rightarrow> (u64 \<times> budget_allocation) option"

definition park_for_top_up :: "funded_run \<Rightarrow> budget_exhaustion \<Rightarrow> funded_run" where
  "park_for_top_up r reached =
     r\<lparr>fr_pending := Some \<lparr>pt_sequence = sat_add (rb_top_ups (fr_budget r)) 1, pt_exhaustion = reached\<rparr>\<rparr>"

text \<open>\<open>descendants\<close> is what the run's live delegations hold (\<open>delegation_descendants_consumed\<close>).\<close>

definition terminate :: "funded_run \<Rightarrow> u64 \<Rightarrow> funded_run" where
  "terminate r descendants =
     (if fr_terminal r then r
      else
        let b = (if 0 < descendants then charge_descendants (fr_budget r) descendants else fr_budget r)
        in r\<lparr>fr_budget := b, fr_pending := None, fr_terminal := True\<rparr>)"

definition park_or_terminate :: "funded_run \<Rightarrow> budget_exhaustion \<Rightarrow> u64 \<Rightarrow> funded_run" where
  "park_or_terminate r reached descendants =
     (if is_conserved (be_dimension reached) then park_for_top_up r reached else terminate r descendants)"

text \<open>A grant that adds nothing in the exhausted dimension ends the run.\<close>

definition apply_top_up_grant :: "funded_run \<Rightarrow> budget_allocation \<Rightarrow> u64 \<Rightarrow> funded_run" where
  "apply_top_up_grant r granted descendants =
     (case fr_pending r of
        None \<Rightarrow> r
      | Some pending \<Rightarrow>
          let r' = r\<lparr>fr_budget := credit (fr_budget r) granted (pt_sequence pending), fr_pending := None\<rparr>
          in if allocation_get granted (be_dimension (pt_exhaustion pending)) \<noteq> Some 0 then r' else terminate r' descendants)"

definition run_allocation_request :: "budget_allocation option \<Rightarrow> budget_allocation" where
  "run_allocation_request declared = (case declared of Some a \<Rightarrow> a | None \<Rightarrow> unbounded_allocation)"

inductive budget_step :: "budget_system \<Rightarrow> budget_system \<Rightarrow> bool" where
  step_assign: "sy_offers s c = None \<or> map_of (el_outstanding (sy_ledger s)) c \<noteq> None \<Longrightarrow>
    open_child (sy_ledger s) c (run_allocation_request declared) = (Inr a, l) \<Longrightarrow>
    budget_step s (s\<lparr>sy_ledger := l, sy_offers := (sy_offers s)(c \<mapsto> a)\<rparr>)"
| step_start: "sy_offers s c = Some a \<Longrightarrow> sy_runs s c = None \<Longrightarrow>
    r = \<lparr>fr_budget = run_allocate \<lparr>bg_allocation = a, bg_limits = el_limits (sy_ledger s)\<rparr> now, fr_pending = None, fr_terminal = False\<rparr> \<Longrightarrow>
    budget_step s (s\<lparr>sy_runs := (sy_runs s)(c \<mapsto> r)\<rparr>)"
| step_operate: "sy_runs s c = Some r \<Longrightarrow> \<not> fr_terminal r \<Longrightarrow> settles_reserved (fr_budget r) op \<Longrightarrow>
    budget_step s (s\<lparr>sy_runs := (sy_runs s)(c \<mapsto> r\<lparr>fr_budget := run_operate (fr_budget r) op\<rparr>)\<rparr>)"
| step_park: "sy_runs s c = Some r \<Longrightarrow> \<not> fr_terminal r \<Longrightarrow> fr_pending r = None \<Longrightarrow>
    budget_step s (s\<lparr>sy_runs := (sy_runs s)(c \<mapsto> park_or_terminate r reached descendants)\<rparr>)"
| step_top_up: "sy_runs s c = Some r \<Longrightarrow> fr_pending r = Some pending \<Longrightarrow>
    top_up_child (sy_ledger s) c (pt_sequence pending) (run_allocation_request declared) = (Inr granted, l) \<Longrightarrow>
    budget_step s (s\<lparr>sy_ledger := l, sy_replies := (sy_replies s)(c \<mapsto> (pt_sequence pending, granted))\<rparr>)"
| step_grant: "sy_runs s c = Some r \<Longrightarrow> fr_pending r = Some pending \<Longrightarrow> sy_replies s c = Some (pt_sequence pending, granted) \<Longrightarrow>
    budget_step s (s\<lparr>sy_runs := (sy_runs s)(c \<mapsto> apply_top_up_grant r granted descendants)\<rparr>)"
| step_deny: "sy_runs s c = Some r \<Longrightarrow> fr_pending r = Some pending \<Longrightarrow>
    budget_step s (s\<lparr>sy_runs := (sy_runs s)(c \<mapsto> apply_top_up_grant r nothing_allocation descendants)\<rparr>)"
| step_finish: "sy_runs s c = Some r \<Longrightarrow> budget_step s (s\<lparr>sy_runs := (sy_runs s)(c \<mapsto> terminate r descendants)\<rparr>)"
| step_settle: "sy_runs s c = Some r \<Longrightarrow> fr_terminal r \<Longrightarrow>
    settle_child (sy_ledger s) c (rb_consumed (fr_budget r)) = (res, l) \<Longrightarrow> budget_step s (s\<lparr>sy_ledger := l\<rparr>)"
| step_return: "sy_runs s c = Some r \<Longrightarrow> fr_terminal r \<Longrightarrow>
    return_child (sy_ledger s) c = (res, l) \<Longrightarrow> budget_step s (s\<lparr>sy_ledger := l\<rparr>)"
| step_widen: "widen (sy_ledger s) additional ceiling = (w, l) \<Longrightarrow> budget_step s (s\<lparr>sy_ledger := l\<rparr>)"

inductive budget_run :: "budget_grant \<Rightarrow> budget_system \<Rightarrow> nat \<Rightarrow> bool" for grant where
  budget_start: "budget_run grant \<lparr>sy_ledger = ledger_new grant, sy_offers = \<lambda>_. None, sy_runs = \<lambda>_. None, sy_replies = \<lambda>_. None\<rparr> 0"
| budget_next: "budget_run grant s n \<Longrightarrow> budget_step s s' \<Longrightarrow> budget_run grant s' (Suc n)"

text \<open>What the runs that have not settled yet have consumed.\<close>

definition live_consumption :: "budget_system \<Rightarrow> budget_dimension \<Rightarrow> nat" where
  "live_consumption s d = sum_list (map (\<lambda>(c, e).
     if ce_settled e = None then (case sy_runs s c of Some r \<Rightarrow> unat (consumption_get (rb_consumed (fr_budget r)) d) | None \<Rightarrow> 0) else 0)
     (el_outstanding (sy_ledger s)))"

section \<open>The ledger's account of one dimension\<close>

definition held :: "budget_dimension \<Rightarrow> child_escrow \<Rightarrow> nat" where
  "held d e = (case allocation_get (ce_allocated e) d of Some h \<Rightarrow> unat h | None \<Rightarrow> 0)"

definition spent :: "budget_dimension \<Rightarrow> child_escrow \<Rightarrow> nat" where
  "spent d e = (case ce_settled e of Some c \<Rightarrow> unat (consumption_get c d) | None \<Rightarrow> 0)"

definition ledger_inv :: "budget_dimension \<Rightarrow> escrow_ledger \<Rightarrow> bool" where
  "ledger_inv d l \<longleftrightarrow> bt_ok (el_outstanding l) \<and> (\<exists>limit. allocation_get (el_allocation l) d = Some limit
     \<and> unat (consumption_get (el_consumed l) d) + bt_sum (held d) (el_outstanding l) \<le> unat limit + bt_sum (spent d) (el_outstanding l))"

lemma unat_outstanding_sum: "unat (outstanding_sum l d) = min (bt_sum (held d) (el_outstanding l)) (2 ^ 64 - 1)"
proof -
  have "unat (foldl sat_add acc (map (\<lambda>(_, e). case allocation_get (ce_allocated e) d of Some h \<Rightarrow> h | None \<Rightarrow> 0) es))
      = min (unat acc + bt_sum (held d) es) (2 ^ 64 - 1)" for acc :: u64 and es :: "(escrow_child_id \<times> child_escrow) list"
  proof (induction es arbitrary: acc)
    case Nil
    then show ?case
      using unat_less_two_power [of acc] by simp
  next
    case (Cons p es)
    then show ?case
      by (cases p) (auto simp: unat_sat_add held_def split: option.splits)
  qed
  then show ?thesis
    by (simp add: outstanding_sum_def)
qed

lemma unat_available:
  assumes "allocation_get (el_allocation l) d = Some limit"
  obtains x where "available l d = Some x"
    "unat x = unat limit - unat (consumption_get (el_consumed l) d) - bt_sum (held d) (el_outstanding l)"
proof
  let ?x = "sat_sub (sat_sub limit (consumption_get (el_consumed l) d)) (outstanding_sum l d)"
  show "available l d = Some ?x"
    using assms by (simp add: available_def)
  show "unat ?x = unat limit - unat (consumption_get (el_consumed l) d) - bt_sum (held d) (el_outstanding l)"
    using unat_less_two_power [of limit] by (auto simp: unat_sat_sub unat_outstanding_sum min_def)
qed

text \<open>A grant is narrowed to what is available.\<close>

lemma granted_bound:
  assumes "allocation_get (el_allocation l) d = Some limit"
  obtains x where "allocation_get (allocation_narrowed_to request (available_allocation l)) d = Some x"
    "unat x \<le> unat limit - unat (consumption_get (el_consumed l) d) - bt_sum (held d) (el_outstanding l)"
proof -
  obtain y where y: "available l d = Some y"
    "unat y = unat limit - unat (consumption_get (el_consumed l) d) - bt_sum (held d) (el_outstanding l)"
    using unat_available [OF assms] .
  show thesis
  proof (cases "allocation_get request d")
    case None
    with y that show ?thesis
      by (simp add: allocation_get_narrowed)
  next
    case (Some w)
    then have "allocation_get (allocation_narrowed_to request (available_allocation l)) d = Some (min w y)"
      by (simp add: allocation_get_narrowed y(1))
    moreover have "unat (min w y) \<le> unat y"
      by (simp add: word_le_nat_alt [symmetric])
    ultimately show ?thesis
      using that y(2) by simp
  qed
qed

section \<open>Effect of the ledger operations\<close>

lemma open_child_new:
  assumes run: "open_child l c request = (Inr a, l')" and new: "map_of (el_outstanding l) c = None" and inv: "ledger_inv d l"
  shows "ledger_inv d l' \<and> (\<exists>x. allocation_get a d = Some x) \<and> map_of (el_outstanding l') = (map_of (el_outstanding l))
    (c \<mapsto> \<lparr>ce_allocated = a, ce_granted_through = 0, ce_last_top_up = None, ce_settled = None\<rparr>)"
proof -
  let ?e = "\<lparr>ce_allocated = a, ce_granted_through = 0, ce_last_top_up = None, ce_settled = None\<rparr>"
  obtain limit where limit: "allocation_get (el_allocation l) d = Some limit"
      "unat (consumption_get (el_consumed l) d) + bt_sum (held d) (el_outstanding l) \<le> unat limit + bt_sum (spent d) (el_outstanding l)"
    and ok: "bt_ok (el_outstanding l)"
    using inv by (auto simp: ledger_inv_def)
  have a: "a = allocation_narrowed_to request (available_allocation l)"
    and l': "l' = l\<lparr>el_outstanding := bt_insert c ?e (el_outstanding l)\<rparr>"
    using run new by (auto simp: open_child_def Let_def split: if_splits)
  obtain x where x: "allocation_get a d = Some x"
      "unat x \<le> unat limit - unat (consumption_get (el_consumed l) d) - bt_sum (held d) (el_outstanding l)"
    using granted_bound [OF limit(1), of request] unfolding a by blast
  have "held d ?e = unat x" "spent d ?e = 0"
    using x(1) by (simp_all add: held_def spent_def)
  then show ?thesis
    using limit ok x by (simp add: l' ledger_inv_def bt_sum_insert_new [OF new])
qed

lemma top_up_child_cases:
  assumes run: "top_up_child l c sequence request = (Inr granted, l')" and e: "map_of (el_outstanding l) c = Some e" and inv: "ledger_inv d l"
  obtains (replay) "l' = l" "ce_granted_through e = sequence" "ce_last_top_up e = Some granted"
  | (granted) x e' where "ce_granted_through e < sequence" "ce_settled e = None" "allocation_get granted d = Some x"
      "e' = e\<lparr>ce_allocated := allocation_saturating_add (ce_allocated e) granted, ce_granted_through := sequence, ce_last_top_up := Some granted\<rparr>"
      "map_of (el_outstanding l') = (map_of (el_outstanding l))(c \<mapsto> e')"
      "allocation_get (ce_allocated e) d \<noteq> None \<Longrightarrow> held d e' = held d e + unat x \<and> ledger_inv d l'"
proof (cases "sequence \<le> ce_granted_through e")
  case True
  with run e show thesis
    by (intro replay) (auto simp: top_up_child_def split: option.splits bool.splits)
next
  case False
  let ?e = "e\<lparr>ce_allocated := allocation_saturating_add (ce_allocated e) granted, ce_granted_through := sequence, ce_last_top_up := Some granted\<rparr>"
  obtain limit where limit: "allocation_get (el_allocation l) d = Some limit"
      "unat (consumption_get (el_consumed l) d) + bt_sum (held d) (el_outstanding l) \<le> unat limit + bt_sum (spent d) (el_outstanding l)"
    and ok: "bt_ok (el_outstanding l)"
    using inv by (auto simp: ledger_inv_def)
  have g: "granted = allocation_narrowed_to request (available_allocation l)" "ce_settled e = None"
    and l': "l' = l\<lparr>el_outstanding := bt_insert c ?e (el_outstanding l)\<rparr>"
    using run e False by (auto simp: top_up_child_def Let_def split: if_splits)
  obtain x where x: "allocation_get granted d = Some x"
      "unat x \<le> unat limit - unat (consumption_get (el_consumed l) d) - bt_sum (held d) (el_outstanding l)"
    using granted_bound [OF limit(1), of request] unfolding g(1) by blast
  have sum: "bt_sum (held d) (bt_insert c ?e (el_outstanding l)) + held d e = held d ?e + bt_sum (held d) (el_outstanding l)"
    "bt_sum (spent d) (bt_insert c ?e (el_outstanding l)) + spent d e = spent d ?e + bt_sum (spent d) (el_outstanding l)"
    by (rule bt_sum_insert_old [OF ok e])+
  have grown: "held d ?e = held d e + unat x \<and> ledger_inv d l'" if bounded: "allocation_get (ce_allocated e) d \<noteq> None"
  proof -
    obtain h where h: "allocation_get (ce_allocated e) d = Some h" "held d e = unat h"
      using bounded by (auto simp: held_def)
    have "unat h \<le> bt_sum (held d) (el_outstanding l)"
      using bt_sum_member [OF e, of "held d"] h(2) by simp
    then have "unat h + unat x < 2 ^ 64"
      using x(2) unat_less_two_power [of limit] unat_less_two_power [of h] by (cases "unat x = 0") auto
    then have "unat (sat_add h x) = unat h + unat x"
      by (simp add: unat_sat_add)
    then have grow: "held d ?e = held d e + unat x"
      using h x(1) by (simp add: held_def allocation_get_add)
    then show ?thesis
      using limit x(2) sum ok by (simp add: l' ledger_inv_def spent_def)
  qed
  show thesis
    by (rule granted [OF _ g(2) x(1) refl _ grown]) (use False in \<open>simp_all add: l'\<close>)
qed

lemma settle_child_cases:
  assumes run: "settle_child l c consumed = (res, l')" and inv: "ledger_inv d l"
  obtains (same) "l' = l" "\<And>e. map_of (el_outstanding l) c = Some e \<Longrightarrow> ce_settled e \<noteq> None"
  | (settled) e where "map_of (el_outstanding l) c = Some e" "ce_settled e = None" "ledger_inv d l'"
      "map_of (el_outstanding l') = (map_of (el_outstanding l))(c \<mapsto> e\<lparr>ce_settled := Some consumed\<rparr>)"
proof (cases "\<exists>e. map_of (el_outstanding l) c = Some e \<and> ce_settled e = None")
  case False
  with run show thesis
    by (intro same) (auto simp: settle_child_def split: option.splits)
next
  case True
  then obtain e where e: "map_of (el_outstanding l) c = Some e" "ce_settled e = None" by blast
  let ?e = "e\<lparr>ce_settled := Some consumed\<rparr>"
  obtain limit where limit: "allocation_get (el_allocation l) d = Some limit"
      "unat (consumption_get (el_consumed l) d) + bt_sum (held d) (el_outstanding l) \<le> unat limit + bt_sum (spent d) (el_outstanding l)"
    and ok: "bt_ok (el_outstanding l)"
    using inv by (auto simp: ledger_inv_def)
  have l': "l' = l\<lparr>el_outstanding := bt_insert c ?e (el_outstanding l), el_consumed := consumption_saturating_add (el_consumed l) consumed\<rparr>"
    using run e by (simp add: settle_child_def)
  have "bt_sum (held d) (bt_insert c ?e (el_outstanding l)) + held d e = held d ?e + bt_sum (held d) (el_outstanding l)"
    "bt_sum (spent d) (bt_insert c ?e (el_outstanding l)) + spent d e = spent d ?e + bt_sum (spent d) (el_outstanding l)"
    by (rule bt_sum_insert_old [OF ok e(1)])+
  moreover have "held d ?e = held d e" "spent d e = 0" "spent d ?e = unat (consumption_get consumed d)"
    using e(2) by (simp_all add: held_def spent_def)
  moreover have "unat (sat_add (consumption_get (el_consumed l) d) (consumption_get consumed d))
      \<le> unat (consumption_get (el_consumed l) d) + unat (consumption_get consumed d)"
    by (simp add: unat_sat_add)
  ultimately have "ledger_inv d l'"
    using limit ok by (simp add: l' ledger_inv_def consumption_get_saturating_add)
  with e show thesis
    by (intro settled) (simp_all add: l')
qed

lemma return_child_cases:
  assumes run: "return_child l c = (res, l')" and inv: "ledger_inv d l"
    and paid: "\<And>e x. map_of (el_outstanding l) c = Some e \<Longrightarrow> ce_settled e = Some x \<Longrightarrow> unat (consumption_get x d) \<le> held d e"
  obtains (same) "l' = l" | (returned) "ledger_inv d l'" "map_of (el_outstanding l') = (map_of (el_outstanding l))(c := None)"
proof (cases "\<exists>e x. map_of (el_outstanding l) c = Some e \<and> ce_settled e = Some x")
  case False
  with run show thesis
    by (intro same) (auto simp: return_child_def split: option.splits)
next
  case True
  then obtain e x where e: "map_of (el_outstanding l) c = Some e" "ce_settled e = Some x" by blast
  obtain limit where limit: "allocation_get (el_allocation l) d = Some limit"
      "unat (consumption_get (el_consumed l) d) + bt_sum (held d) (el_outstanding l) \<le> unat limit + bt_sum (spent d) (el_outstanding l)"
    and ok: "bt_ok (el_outstanding l)"
    using inv by (auto simp: ledger_inv_def)
  have l': "l' = l\<lparr>el_outstanding := bt_remove c (el_outstanding l)\<rparr>"
    using run e by (simp add: return_child_def Let_def)
  have "bt_sum (held d) (bt_remove c (el_outstanding l)) + held d e = bt_sum (held d) (el_outstanding l)"
    "bt_sum (spent d) (bt_remove c (el_outstanding l)) + spent d e = bt_sum (spent d) (el_outstanding l)"
    by (rule bt_sum_remove [OF ok e(1)])+
  moreover have "spent d e \<le> held d e"
    using paid [OF e] e(2) by (simp add: spent_def)
  ultimately have "ledger_inv d l'"
    using limit ok by (simp add: l' ledger_inv_def)
  then show thesis
    by (intro returned) (simp_all add: l' fun_eq_iff)
qed

lemma widen_keeps:
  assumes "widen l additional ceiling = (w, l')" and "ledger_inv d l"
  shows "ledger_inv d l' \<and> el_outstanding l' = el_outstanding l \<and> el_limits l' = el_limits l"
proof -
  have l': "l' = l\<lparr>el_allocation := fst (widen l additional ceiling)\<rparr>"
    using assms(1) by (auto simp: widen_def Let_def)
  obtain limit where limit: "allocation_get (el_allocation l) d = Some limit"
    using assms(2) by (auto simp: ledger_inv_def)
  have "\<exists>limit'. allocation_get (fst (widen l additional ceiling)) d = Some limit' \<and> limit \<le> limit'"
    unfolding widen_get limit by (cases "allocation_get additional d") simp_all
  with assms(2) limit show ?thesis
    by (auto simp: l' ledger_inv_def word_le_nat_alt)
qed

text \<open>A scope that is unbounded in a dimension grants every fresh request in full there, however often it is asked.\<close>

lemma unbounded_scope_grants:
  assumes "map_of (el_outstanding l) c = Some e" and "\<not> sequence \<le> ce_granted_through e" and "ce_settled e = None"
    and "allocation_get (el_allocation l) d = None"
  shows "\<exists>granted l'. top_up_child l c sequence request = (Inr granted, l') \<and> allocation_get granted d = allocation_get request d"
  using assms by (cases "allocation_get request d") (simp_all add: top_up_child_def Let_def allocation_get_narrowed available_def)

end
