(* ===== verification/Budget_Safety.thy ===== *)
theory Budget_Safety
  imports Budget_System
begin

text \<open>
  The invariant of the budget system, child by child: a run's own allocation, together with a grant
  it has not credited yet, is covered by the escrow its parent keeps for it.
\<close>

section \<open>The invariant of one child\<close>

definition covered :: "budget_dimension \<Rightarrow> funded_run \<Rightarrow> child_escrow \<Rightarrow> bool" where
  "covered d r e \<longleftrightarrow> (\<exists>a. allocation_get (rb_allocation (fr_budget r)) d = Some a
     \<and> (ce_granted_through e \<le> rb_top_ups (fr_budget r) \<and> unat a \<le> held d e
        \<or> unat (ce_granted_through e) = unat (rb_top_ups (fr_budget r)) + 1
          \<and> (\<exists>g x. ce_last_top_up e = Some g \<and> allocation_get g d = Some x \<and> unat a + unat x \<le> held d e)))"

text \<open>The top-up request a run waits on.\<close>

definition asked :: "funded_run \<Rightarrow> u64 option" where
  "asked r = map_option pt_sequence (fr_pending r)"

lemma asked_simps [simp]:
  "asked (r\<lparr>fr_budget := b\<rparr>) = asked r" "asked (r\<lparr>fr_terminal := t\<rparr>) = asked r"
  "asked (r\<lparr>fr_pending := p\<rparr>) = map_option pt_sequence p"
  "asked \<lparr>fr_budget = b, fr_pending = p, fr_terminal = t\<rparr> = map_option pt_sequence p"
  by (simp_all add: asked_def)

definition run_ok :: "budget_dimension \<Rightarrow> nat \<Rightarrow> funded_run \<Rightarrow> bool" where
  "run_ok d n r \<longleftrightarrow> within (fr_budget r) d \<and> allocation_get (rb_allocation (fr_budget r)) d \<noteq> None
     \<and> (fr_terminal r \<longrightarrow> asked r = None) \<and> unat (rb_top_ups (fr_budget r)) \<le> n
     \<and> (\<forall>q. asked r = Some q \<longrightarrow> unat q = unat (rb_top_ups (fr_budget r)) + 1)"

definition escrow_ok ::
  "budget_dimension \<Rightarrow> child_escrow \<Rightarrow> budget_allocation option \<Rightarrow> funded_run option \<Rightarrow> (u64 \<times> budget_allocation) option \<Rightarrow> bool"
where
  "escrow_ok d e offer run reply \<longleftrightarrow> allocation_get (ce_allocated e) d \<noteq> None
     \<and> (case ce_settled e of
          Some x \<Rightarrow> unat (consumption_get x d) \<le> held d e \<and> (\<exists>r. run = Some r \<and> fr_terminal r)
        | None \<Rightarrow>
            (case run of
               None \<Rightarrow> ce_granted_through e = 0 \<and> offer = Some (ce_allocated e)
             | Some r \<Rightarrow> covered d r e
                 \<and> (\<forall>q g. reply = Some (q, g) \<longrightarrow> asked r = Some q \<longrightarrow> ce_granted_through e = q \<and> ce_last_top_up e = Some g)))"

text \<open>A reply answers a request that is credited, still pending or given up.\<close>

definition answered :: "u64 \<Rightarrow> funded_run \<Rightarrow> bool" where
  "answered q r \<longleftrightarrow> q \<le> rb_top_ups (fr_budget r) \<or> asked r = Some q \<or> fr_terminal r"

definition child_ok ::
  "budget_dimension \<Rightarrow> nat \<Rightarrow> child_escrow option \<Rightarrow> budget_allocation option \<Rightarrow> funded_run option \<Rightarrow> (u64 \<times> budget_allocation) option \<Rightarrow> bool"
where
  "child_ok d n escrow offer run reply \<longleftrightarrow>
     (case escrow of Some e \<Rightarrow> offer \<noteq> None \<and> escrow_ok d e offer run reply | None \<Rightarrow> True)
     \<and> (case offer of Some a \<Rightarrow> allocation_get a d \<noteq> None | None \<Rightarrow> True)
     \<and> (case run of Some r \<Rightarrow> offer \<noteq> None \<and> run_ok d n r | None \<Rightarrow> True)
     \<and> (case reply of Some (q, g) \<Rightarrow> allocation_get g d \<noteq> None \<and> (\<exists>r. run = Some r \<and> answered q r) | None \<Rightarrow> True)"

definition system_ok :: "budget_dimension \<Rightarrow> nat \<Rightarrow> budget_system \<Rightarrow> bool" where
  "system_ok d n s \<longleftrightarrow> ledger_inv d (sy_ledger s)
     \<and> (\<forall>c. child_ok d n (map_of (el_outstanding (sy_ledger s)) c) (sy_offers s c) (sy_runs s c) (sy_replies s c))"

lemma system_okD: "system_ok d n s \<Longrightarrow> child_ok d n (map_of (el_outstanding (sy_ledger s)) c) (sy_offers s c) (sy_runs s c) (sy_replies s c)"
  by (simp add: system_ok_def)

lemma run_ok_mono: "run_ok d n r \<Longrightarrow> n \<le> m \<Longrightarrow> run_ok d m r"
  unfolding run_ok_def by (blast intro: le_trans)

lemma child_ok_mono: "child_ok d n e offer r p \<Longrightarrow> n \<le> m \<Longrightarrow> child_ok d m e offer r p"
  using run_ok_mono [of d n "the r" m] by (cases r; cases p) (simp_all add: child_ok_def case_prod_beta)

text \<open>A step that touches one child keeps the invariant when it does so for that child.\<close>

lemma system_ok_child:
  assumes "system_ok d n s" and "ledger_inv d (sy_ledger s')"
    and "\<And>c'. c' \<noteq> c \<Longrightarrow> map_of (el_outstanding (sy_ledger s')) c' = map_of (el_outstanding (sy_ledger s)) c'
      \<and> sy_offers s' c' = sy_offers s c' \<and> sy_runs s' c' = sy_runs s c' \<and> sy_replies s' c' = sy_replies s c'"
    and "child_ok d (Suc n) (map_of (el_outstanding (sy_ledger s')) c) (sy_offers s' c) (sy_runs s' c) (sy_replies s' c)"
  shows "system_ok d (Suc n) s'"
proof -
  have "child_ok d (Suc n) (map_of (el_outstanding (sy_ledger s')) c') (sy_offers s' c') (sy_runs s' c') (sy_replies s' c')" for c'
  proof (cases "c' = c")
    case True
    with assms(4) show ?thesis by simp
  next
    case False
    with assms(3) child_ok_mono [OF system_okD [OF assms(1), of c'], of "Suc n"] show ?thesis by simp
  qed
  with assms(2) show ?thesis
    by (simp add: system_ok_def)
qed

lemma within_credit:
  assumes "within b d" and "allocation_get (rb_allocation b) d = Some a" and "allocation_get g d = Some x"
  shows "within (credit b g q) d"
proof -
  have "a \<le> sat_add a x"
    using unat_less_two_power [of a] by (simp add: word_le_nat_alt unat_sat_add)
  then show ?thesis
    using assms by (auto simp: within_def credit_def allocation_get_add spoken_for_def)
qed

definition credited :: "funded_run \<Rightarrow> u64 \<Rightarrow> budget_allocation \<Rightarrow> funded_run" where
  "credited r q g = r\<lparr>fr_budget := credit (fr_budget r) g q, fr_pending := None\<rparr>"

lemma run_ok_credit:
  assumes ok: "run_ok d n r" and q: "asked r = Some q" and g: "allocation_get g d = Some x"
  shows "run_ok d (Suc n) (credited r q g)"
proof -
  have "unat q = unat (rb_top_ups (fr_budget r)) + 1"
    using ok q by (simp add: run_ok_def)
  then have "unat (max (rb_top_ups (fr_budget r)) q) \<le> Suc n"
    using ok by (auto simp: run_ok_def max_def)
  moreover obtain a where "allocation_get (rb_allocation (fr_budget r)) d = Some a"
    using ok by (auto simp: run_ok_def)
  ultimately show ?thesis
    using ok g within_credit [of "fr_budget r" d a g x q]
    by (simp add: run_ok_def credited_def) (simp add: credit_def allocation_get_add)
qed

lemma covered_credit:
  assumes cov: "covered d r e" and q: "unat q = unat (rb_top_ups (fr_budget r)) + 1"
    and g: "g = nothing_allocation \<and> is_conserved d \<or> ce_granted_through e = q \<and> ce_last_top_up e = Some g"
  shows "covered d (credited r q g) e"
proof -
  let ?t = "rb_top_ups (fr_budget r)"
  obtain a where a: "allocation_get (rb_allocation (fr_budget r)) d = Some a"
    and cases: "ce_granted_through e \<le> ?t \<and> unat a \<le> held d e \<or> unat (ce_granted_through e) = unat ?t + 1
      \<and> (\<exists>g x. ce_last_top_up e = Some g \<and> allocation_get g d = Some x \<and> unat a + unat x \<le> held d e)"
    using cov by (auto simp: covered_def)
  have t: "max ?t q = q" "unat q = unat ?t + 1"
    using q by (simp_all add: max_def word_le_nat_alt)
  have through: "ce_granted_through e \<le> q"
    using cases t(2) by (auto simp: word_le_nat_alt)
  show ?thesis
  proof (cases "ce_granted_through e = q \<and> ce_last_top_up e = Some g")
    case True
    then have "\<not> ce_granted_through e \<le> ?t"
      using t(2) by (simp add: word_le_nat_alt)
    with cases True obtain x where x: "allocation_get g d = Some x" "unat a + unat x \<le> held d e"
      by auto
    then have "unat (sat_add a x) \<le> held d e"
      by (simp add: unat_sat_add)
    with a x t(1) through show ?thesis
      by (simp add: covered_def credited_def credit_def allocation_get_add)
  next
    case False
    then have "allocation_get g d = Some 0"
      using g by (cases d) (auto simp: nothing_allocation_def is_conserved_def)
    moreover have "sat_add a 0 = a"
      using unat_less_two_power [of a] by (simp add: word_unat_eq_iff unat_sat_add)
    moreover have "unat a \<le> held d e"
      using cases by auto
    ultimately show ?thesis
      using a t(1) through by (simp add: covered_def credited_def credit_def allocation_get_add)
  qed
qed

section \<open>Every step keeps it\<close>

text \<open>Steps of a run that leave its escrow alone.\<close>

lemma child_ok_run:
  assumes "child_ok d n escrow offer (Some r) reply" and "run_ok d m r'"
    and "fr_terminal r \<Longrightarrow> fr_terminal r'"
    and "\<And>e. escrow = Some e \<Longrightarrow> ce_settled e = None \<Longrightarrow> covered d r e \<Longrightarrow> covered d r' e"
    and "\<And>q g e. reply = Some (q, g) \<Longrightarrow> asked r' = Some q \<Longrightarrow> escrow = Some e \<Longrightarrow> ce_settled e = None \<Longrightarrow> covered d r e \<Longrightarrow>
       asked r = Some q \<or> ce_granted_through e = q \<and> ce_last_top_up e = Some g"
    and "\<And>q. answered q r \<Longrightarrow> answered q r'"
  shows "child_ok d m escrow offer (Some r') reply"
proof (cases escrow)
  case None
  with assms(1,2,6) show ?thesis
    by (auto simp: child_ok_def split: option.splits)
next
  case (Some e)
  have "escrow_ok d e offer (Some r') reply"
  proof (cases "ce_settled e")
    case None
    have old: "allocation_get (ce_allocated e) d \<noteq> None" "covered d r e"
      "\<forall>q g. reply = Some (q, g) \<longrightarrow> asked r = Some q \<longrightarrow> ce_granted_through e = q \<and> ce_last_top_up e = Some g"
      using assms(1) Some None by (simp_all add: child_ok_def escrow_ok_def)
    have "ce_granted_through e = q \<and> ce_last_top_up e = Some g" if "reply = Some (q, g)" "asked r' = Some q" for q g
      using assms(5) [OF that Some None old(2)] old(3) that(1) by blast
    with old(1) assms(4) [OF Some None old(2)] None show ?thesis
      by (simp add: escrow_ok_def)
  next
    case (Some x)
    with assms(1,3) \<open>escrow = Some e\<close> show ?thesis
      by (simp add: child_ok_def escrow_ok_def)
  qed
  with assms(1,2,6) Some show ?thesis
    by (auto simp: child_ok_def split: option.splits)
qed

lemma covered_cong:
  "rb_allocation (fr_budget r') = rb_allocation (fr_budget r) \<Longrightarrow> rb_top_ups (fr_budget r') = rb_top_ups (fr_budget r) \<Longrightarrow>
   covered d r e \<Longrightarrow> covered d r' e"
  by (simp add: covered_def)

lemma child_ok_operate:
  assumes "child_ok d n escrow offer (Some r) reply" and "counted d" and "settles_reserved (fr_budget r) op"
  shows "child_ok d (Suc n) escrow offer (Some (r\<lparr>fr_budget := run_operate (fr_budget r) op\<rparr>)) reply"
proof (rule child_ok_run [OF assms(1)])
  have "run_ok d (Suc n) r"
    using assms(1) run_ok_mono [of d n r "Suc n"] by (simp add: child_ok_def)
  then show "run_ok d (Suc n) (r\<lparr>fr_budget := run_operate (fr_budget r) op\<rparr>)"
    using run_operate_within [OF assms(2,3)] run_operate_frame [of "fr_budget r" op] by (simp add: run_ok_def)
qed (use run_operate_frame [of "fr_budget r" op] in \<open>auto simp: answered_def intro: covered_cong [rotated 2]\<close>)

lemma child_ok_park:
  assumes ok: "child_ok d n escrow offer (Some r) reply" and live: "\<not> fr_terminal r" and idle: "asked r = None" and small: "Suc n < 2 ^ 64"
  shows "child_ok d (Suc n) escrow offer (Some (park_for_top_up r x)) reply"
proof (rule child_ok_run [OF ok])
  let ?t = "rb_top_ups (fr_budget r)"
  have r: "run_ok d n r"
    using ok by (simp add: child_ok_def)
  then have next_seq: "unat (sat_add ?t 1) = unat ?t + 1"
    using small by (simp add: run_ok_def unat_sat_add)
  show "run_ok d (Suc n) (park_for_top_up r x)"
    using r next_seq live by (auto simp: run_ok_def park_for_top_up_def)
  show "asked r = Some q \<or> ce_granted_through e = q \<and> ce_last_top_up e = Some g"
    if "reply = Some (q, g)" "asked (park_for_top_up r x) = Some q" for q g e
  proof -
    have "q \<le> ?t"
      using ok that(1) live idle by (simp add: child_ok_def answered_def)
    moreover have "unat q = unat ?t + 1"
      using that(2) next_seq by (simp add: park_for_top_up_def)
    ultimately show ?thesis
      by (simp add: word_le_nat_alt)
  qed
  show "covered d (park_for_top_up r x) e" if "covered d r e" for e
    by (rule covered_cong [OF _ _ that]) (simp_all add: park_for_top_up_def)
qed (use idle in \<open>auto simp: park_for_top_up_def answered_def\<close>)

lemma counted_conserved: "counted d \<Longrightarrow> is_conserved d"
  by (auto simp: counted_def is_conserved_def)

lemma child_ok_credited:
  assumes ok: "child_ok d n escrow offer (Some r) reply" and q: "asked r = Some q" and d: "is_conserved d"
    and g: "g = nothing_allocation \<or> reply = Some (q, g)"
  shows "child_ok d (Suc n) escrow offer (Some (credited r q g)) reply"
proof (rule child_ok_run [OF ok])
  let ?r' = "credited r q g"
  have r: "run_ok d n r"
    using ok by (simp add: child_ok_def)
  then have seq: "unat q = unat (rb_top_ups (fr_budget r)) + 1"
    using q by (simp add: run_ok_def)
  have "allocation_get nothing_allocation d = Some 0"
    using d by (cases d) (simp_all add: nothing_allocation_def is_conserved_def)
  then obtain x where x: "allocation_get g d = Some x"
    using ok g by (auto simp: child_ok_def)
  show "run_ok d (Suc n) ?r'"
    by (rule run_ok_credit [OF r q x])
  show "covered d ?r' e" if e: "escrow = Some e" "ce_settled e = None" "covered d r e" for e
  proof (rule covered_credit [OF e(3) seq])
    have "reply = Some (q, g) \<Longrightarrow> ce_granted_through e = q \<and> ce_last_top_up e = Some g"
      using ok e(1,2) q by (simp add: child_ok_def escrow_ok_def)
    with g d show "g = nothing_allocation \<and> is_conserved d \<or> ce_granted_through e = q \<and> ce_last_top_up e = Some g"
      by blast
  qed
  show "answered p ?r'" if "answered p r" for p
    using that q by (auto simp: answered_def credited_def credit_def max_def)
qed (auto simp: credited_def)

lemma child_ok_terminate:
  assumes ok: "child_ok d n escrow offer (Some r) reply" and d: "counted d"
  shows "child_ok d n escrow offer (Some (terminate r descendants)) reply"
proof (cases "fr_terminal r")
  case True
  with ok show ?thesis
    by (simp add: terminate_def)
next
  case False
  define b where "b = (if 0 < descendants then charge_descendants (fr_budget r) descendants else fr_budget r)"
  have r': "terminate r descendants = r\<lparr>fr_budget := b, fr_pending := None, fr_terminal := True\<rparr>"
    using False by (simp add: terminate_def b_def)
  have frame: "rb_allocation b = rb_allocation (fr_budget r)" "rb_top_ups b = rb_top_ups (fr_budget r)"
    using run_operate_frame [of "fr_budget r" "ChargeDescendants descendants"] by (simp_all add: b_def)
  have "within (fr_budget r) d \<Longrightarrow> within b d"
    using run_operate_within [OF d, of "fr_budget r" "ChargeDescendants descendants"] by (simp add: b_def)
  then show ?thesis
    unfolding r' using ok frame
    by (intro child_ok_run [OF ok]) (auto simp: child_ok_def run_ok_def answered_def covered_def)
qed

lemma child_ok_finish:
  assumes "child_ok d n escrow offer (Some r) reply" and "counted d"
  shows "child_ok d (Suc n) escrow offer (Some (terminate r descendants)) reply"
  by (rule child_ok_mono [OF child_ok_terminate [OF assms]]) simp

lemma child_ok_park_or_terminate:
  assumes "child_ok d n escrow offer (Some r) reply" and "\<not> fr_terminal r" and "fr_pending r = None" and "Suc n < 2 ^ 64" and "counted d"
  shows "child_ok d (Suc n) escrow offer (Some (park_or_terminate r x descendants)) reply"
  using child_ok_park [OF assms(1,2) _ assms(4)] child_ok_finish [OF assms(1,5)] assms(3)
  by (simp add: park_or_terminate_def asked_def)

lemma child_ok_grant:
  assumes ok: "child_ok d n escrow offer (Some r) reply" and p: "fr_pending r = Some p" and d: "counted d"
    and g: "g = nothing_allocation \<or> reply = Some (pt_sequence p, g)"
  shows "child_ok d (Suc n) escrow offer (Some (apply_top_up_grant r g descendants)) reply"
proof -
  have "asked r = Some (pt_sequence p)"
    using p by (simp add: asked_def)
  from child_ok_credited [OF ok this counted_conserved [OF d] g]
  have "child_ok d (Suc n) escrow offer (Some (credited r (pt_sequence p) g)) reply" .
  then show ?thesis
    using p child_ok_terminate [OF _ d] by (simp add: apply_top_up_grant_def credited_def Let_def)
qed

lemma child_ok_start:
  assumes ok: "child_ok d n escrow (Some a) None reply"
    and r: "r = \<lparr>fr_budget = run_allocate \<lparr>bg_allocation = a, bg_limits = limits\<rparr> now, fr_pending = None, fr_terminal = False\<rparr>"
  shows "child_ok d (Suc n) escrow (Some a) (Some r) reply"
proof -
  obtain x where x: "allocation_get a d = Some x"
    using ok by (auto simp: child_ok_def)
  have "run_ok d (Suc n) r"
    using x by (cases d) (simp_all add: r run_ok_def run_allocate_def within_def spoken_for_def sat_add_def zero_consumption_def)
  moreover have "covered d r e" if "escrow = Some e" "ce_settled e = None" for e
    using ok that x by (simp add: child_ok_def escrow_ok_def covered_def r run_allocate_def held_def)
  moreover have "reply = None"
    using ok by (cases reply) (simp_all add: child_ok_def case_prod_beta)
  ultimately show ?thesis
    using ok by (auto simp: child_ok_def escrow_ok_def split: option.splits)
qed

lemma child_ok_top_up:
  assumes ok: "child_ok d n (Some e) offer (Some r) reply" and q: "asked r = Some q"
    and e': "e' = e\<lparr>ce_allocated := allocation_saturating_add (ce_allocated e) g, ce_granted_through := q, ce_last_top_up := Some g\<rparr>"
    and new: "ce_granted_through e < q" "ce_settled e = None" "allocation_get g d = Some x" "held d e' = held d e + unat x"
  shows "child_ok d (Suc n) (Some e') offer (Some r) (Some (q, g))"
proof -
  have old: "allocation_get (ce_allocated e) d \<noteq> None" "covered d r e" "run_ok d n r" "offer \<noteq> None"
    "case offer of Some a \<Rightarrow> allocation_get a d \<noteq> None | None \<Rightarrow> True"
    using ok new(2) by (simp_all add: child_ok_def escrow_ok_def)
  have seq: "unat q = unat (rb_top_ups (fr_budget r)) + 1"
    using old(3) q by (simp add: run_ok_def)
  obtain a where a: "allocation_get (rb_allocation (fr_budget r)) d = Some a" "unat a \<le> held d e"
  proof -
    have "unat (ce_granted_through e) < unat q"
      using new(1) by (simp add: word_less_nat_alt)
    then show thesis
      using old(2) that seq by (auto simp: covered_def)
  qed
  have "covered d r e'"
    using a seq new(3,4) by (auto simp: covered_def e')
  moreover have "allocation_get (ce_allocated e') d \<noteq> None"
    using old(1) new(3) by (auto simp: e' allocation_get_add)
  ultimately have "escrow_ok d e' offer (Some r) (Some (q, g))"
    using new(2) by (simp add: escrow_ok_def e')
  then show ?thesis
    using old(3-5) q new(3) run_ok_mono [of d n r "Suc n"] by (simp add: child_ok_def answered_def)
qed

lemma child_ok_replay:
  assumes ok: "child_ok d n (Some e) offer (Some r) reply" and q: "asked r = Some q"
    and replay: "ce_granted_through e = q" "ce_last_top_up e = Some g"
  shows "child_ok d (Suc n) (Some e) offer (Some r) (Some (q, g))"
proof -
  have r: "run_ok d n r" "\<not> fr_terminal r"
    using ok q by (auto simp: child_ok_def run_ok_def)
  have unsettled: "ce_settled e = None"
    using ok r(2) by (auto simp: child_ok_def escrow_ok_def split: option.splits)
  then have cov: "covered d r e" "allocation_get (ce_allocated e) d \<noteq> None"
    using ok by (simp_all add: child_ok_def escrow_ok_def)
  have "unat q = unat (rb_top_ups (fr_budget r)) + 1"
    using r(1) q by (simp add: run_ok_def)
  then obtain x where "allocation_get g d = Some x"
    using cov(1) replay by (auto simp: covered_def word_le_nat_alt)
  moreover have "escrow_ok d e offer (Some r) (Some (q, g))"
    using cov unsettled replay by (simp add: escrow_ok_def)
  ultimately show ?thesis
    using ok q run_ok_mono [OF r(1), of "Suc n"] by (simp add: child_ok_def answered_def)
qed

lemma covered_consumed:
  assumes "covered d r e" and "run_ok d n r"
  shows "unat (consumption_get (rb_consumed (fr_budget r)) d) \<le> held d e"
proof -
  obtain a where a: "allocation_get (rb_allocation (fr_budget r)) d = Some a" "unat a \<le> held d e"
    using assms(1) by (auto simp: covered_def)
  have "consumption_get (rb_consumed (fr_budget r)) d \<le> a"
    using assms(2) a(1) consumed_le_spoken [of "fr_budget r" d] by (auto simp: run_ok_def within_def)
  with a(2) show ?thesis
    by (simp add: word_le_nat_alt)
qed

lemma child_ok_settle:
  assumes ok: "child_ok d n (Some e) offer (Some r) reply" and terminal: "fr_terminal r" and unsettled: "ce_settled e = None"
  shows "child_ok d (Suc n) (Some (e\<lparr>ce_settled := Some (rb_consumed (fr_budget r))\<rparr>)) offer (Some r) reply"
proof -
  have old: "covered d r e" "allocation_get (ce_allocated e) d \<noteq> None" "run_ok d n r"
    using ok unsettled by (simp_all add: child_ok_def escrow_ok_def)
  have "unat (consumption_get (rb_consumed (fr_budget r)) d) \<le> held d e"
    using old by (intro covered_consumed)
  moreover have "held d (e\<lparr>ce_settled := Some (rb_consumed (fr_budget r))\<rparr>) = held d e"
    by (simp add: held_def)
  ultimately have "escrow_ok d (e\<lparr>ce_settled := Some (rb_consumed (fr_budget r))\<rparr>) offer (Some r) reply"
    using old(2) terminal by (simp add: escrow_ok_def)
  then show ?thesis
    using ok run_ok_mono [OF old(3), of "Suc n"] by (simp add: child_ok_def)
qed

section \<open>Every step keeps the invariant\<close>

lemma system_ok_run:
  assumes "system_ok d n s" and "\<And>escrow. child_ok d n escrow (sy_offers s c) (sy_runs s c) (sy_replies s c) \<Longrightarrow>
      child_ok d (Suc n) escrow (sy_offers s c) (Some r') (sy_replies s c)"
  shows "system_ok d (Suc n) (s\<lparr>sy_runs := (sy_runs s)(c \<mapsto> r')\<rparr>)"
  using assms(2) [OF system_okD [OF assms(1)]] assms(1)
  by (intro system_ok_child [OF assms(1), of _ c]) (simp_all add: system_ok_def)

lemma system_ok_ledger:
  assumes "system_ok d n s" and "ledger_inv d l" and "map_of (el_outstanding l) = (map_of (el_outstanding (sy_ledger s)))(c := escrow)"
    and "child_ok d (Suc n) escrow (sy_offers s c) (sy_runs s c) (sy_replies s c)"
  shows "system_ok d (Suc n) (s\<lparr>sy_ledger := l\<rparr>)"
  using assms by (intro system_ok_child [OF assms(1), of _ c]) simp_all

lemma zero_consumption_get [simp]: "consumption_get zero_consumption d = 0"
  by (cases d) (simp_all add: zero_consumption_def)

lemma system_ok_later: "system_ok d n s \<Longrightarrow> system_ok d (Suc n) s"
  using child_ok_mono [of d n _ _ _ _ "Suc n"] by (simp add: system_ok_def)

lemma system_ok_assign:
  assumes ok: "system_ok d n s" and d: "sy_offers s c = None \<or> map_of (el_outstanding (sy_ledger s)) c \<noteq> None"
    and opened: "open_child (sy_ledger s) c request = (Inr a, l)"
  shows "system_ok d (Suc n) (s\<lparr>sy_ledger := l, sy_offers := (sy_offers s)(c \<mapsto> a)\<rparr>)"
proof (cases "map_of (el_outstanding (sy_ledger s)) c")
  case None
  with d have fresh: "sy_offers s c = None" by simp
  then have idle: "sy_runs s c = None" "sy_replies s c = None"
    using system_okD [OF ok, of c] by (auto simp: child_ok_def None split: option.splits)
  let ?e = "\<lparr>ce_allocated = a, ce_granted_through = 0, ce_last_top_up = None, ce_settled = None\<rparr>"
  obtain x where "ledger_inv d l" "allocation_get a d = Some x" "map_of (el_outstanding l) = (map_of (el_outstanding (sy_ledger s)))(c \<mapsto> ?e)"
    using open_child_new [OF opened None, of d] ok by (auto simp: system_ok_def)
  with idle show ?thesis
    by (intro system_ok_child [OF ok, of _ c]) (simp_all add: child_ok_def escrow_ok_def)
next
  case (Some e)
  with opened have same: "l = sy_ledger s" "a = ce_allocated e"
    by (simp_all add: open_child_def)
  have "child_ok d n (Some e) (sy_offers s c) (sy_runs s c) (sy_replies s c)"
    using system_okD [OF ok, of c] Some by simp
  then have "child_ok d n (Some e) (Some a) (sy_runs s c) (sy_replies s c)"
    by (auto simp: child_ok_def escrow_ok_def same split: option.splits)
  then show ?thesis
    using ok Some child_ok_mono [of d n _ _ _ _ "Suc n"]
    by (intro system_ok_child [OF ok, of _ c]) (simp_all add: system_ok_def same)
qed

lemma system_ok_top_up:
  assumes ok: "system_ok d n s" and r: "sy_runs s c = Some r" and q: "asked r = Some q"
    and topped: "top_up_child (sy_ledger s) c q request = (Inr g, l)"
  shows "system_ok d (Suc n) (s\<lparr>sy_ledger := l, sy_replies := (sy_replies s)(c \<mapsto> (q, g))\<rparr>)"
proof -
  obtain e where e: "map_of (el_outstanding (sy_ledger s)) c = Some e"
    using topped by (auto simp: top_up_child_def split: option.splits)
  have child: "child_ok d n (Some e) (sy_offers s c) (Some r) (sy_replies s c)"
    using system_okD [OF ok, of c] e r by simp
  have inv: "ledger_inv d (sy_ledger s)"
    using ok by (simp add: system_ok_def)
  from topped e inv show ?thesis
  proof (cases rule: top_up_child_cases)
    case replay
    with child_ok_replay [OF child q] inv e r show ?thesis
      by (intro system_ok_child [OF ok, of _ c]) simp_all
  next
    case (granted x e')
    have "allocation_get (ce_allocated e) d \<noteq> None"
      using child by (simp add: child_ok_def escrow_ok_def)
    with granted have new: "held d e' = held d e + unat x" "ledger_inv d l" by auto
    with granted child_ok_top_up [OF child q granted(4,1,2,3)] r show ?thesis
      by (intro system_ok_child [OF ok, of _ c]) simp_all
  qed
qed

lemma system_ok_settle:
  assumes ok: "system_ok d n s" and r: "sy_runs s c = Some r" "fr_terminal r"
    and settled: "settle_child (sy_ledger s) c (rb_consumed (fr_budget r)) = (res, l)"
  shows "system_ok d (Suc n) (s\<lparr>sy_ledger := l\<rparr>)"
proof -
  have inv: "ledger_inv d (sy_ledger s)"
    using ok by (simp add: system_ok_def)
  from settled inv show ?thesis
  proof (cases rule: settle_child_cases)
    case same
    with system_ok_later [OF ok] show ?thesis by simp
  next
    case (settled e)
    have "child_ok d n (Some e) (sy_offers s c) (Some r) (sy_replies s c)"
      using system_okD [OF ok, of c] settled(1) r(1) by simp
    from child_ok_settle [OF this r(2) settled(2)] settled(3,4) r(1) show ?thesis
      by (intro system_ok_ledger [OF ok, of _ c]) simp_all
  qed
qed

lemma system_ok_return:
  assumes ok: "system_ok d n s" and returned: "return_child (sy_ledger s) c = (res, l)"
  shows "system_ok d (Suc n) (s\<lparr>sy_ledger := l\<rparr>)"
proof -
  have inv: "ledger_inv d (sy_ledger s)"
    using ok by (simp add: system_ok_def)
  have paid: "unat (consumption_get x d) \<le> held d e"
    if "map_of (el_outstanding (sy_ledger s)) c = Some e" "ce_settled e = Some x" for e x
    using system_okD [OF ok, of c] that by (simp add: child_ok_def escrow_ok_def)
  have released: "child_ok d (Suc n) None (sy_offers s c) (sy_runs s c) (sy_replies s c)"
    using child_ok_mono [OF system_okD [OF ok, of c], of "Suc n"] by (simp add: child_ok_def)
  consider (same) "l = sy_ledger s"
    | (gone) "ledger_inv d l" "map_of (el_outstanding l) = (map_of (el_outstanding (sy_ledger s)))(c := None)"
    by (rule return_child_cases [OF returned inv paid])
  then show ?thesis
  proof cases
    case same
    with system_ok_later [OF ok] show ?thesis by simp
  next
    case gone
    with released show ?thesis
      by (intro system_ok_ledger [OF ok, of _ c]) simp_all
  qed
qed

lemma budget_step_ok:
  assumes step: "budget_step s s'" and ok: "system_ok d n s" and d: "counted d" and small: "Suc n < 2 ^ 64"
  shows "system_ok d (Suc n) s'"
  using step ok
proof cases
  case (step_assign c declared a l)
  with system_ok_assign [OF ok step_assign(2,3)] show ?thesis by simp
next
  case (step_start c a r now)
  with child_ok_start [OF _ step_start(4)] show ?thesis
    by (simp only:) (intro system_ok_run [OF ok], simp)
next
  case (step_operate c r op)
  with child_ok_operate [OF _ d step_operate(4)] show ?thesis
    by (simp only:) (intro system_ok_run [OF ok], simp)
next
  case (step_park c r reached descendants)
  with child_ok_park_or_terminate [OF _ step_park(3,4) small d] show ?thesis
    by (simp only:) (intro system_ok_run [OF ok], simp)
next
  case (step_top_up c r pending declared g l)
  have "asked r = Some (pt_sequence pending)"
    using step_top_up(3) by (simp add: asked_def)
  with step_top_up system_ok_top_up [OF ok step_top_up(2) _ step_top_up(4)] show ?thesis by simp
next
  case (step_grant c r pending g descendants)
  with child_ok_grant [OF _ step_grant(3) d] show ?thesis
    by (simp only:) (intro system_ok_run [OF ok], simp)
next
  case (step_deny c r pending descendants)
  with child_ok_grant [OF _ step_deny(3) d] show ?thesis
    by (simp only:) (intro system_ok_run [OF ok], simp)
next
  case (step_finish c r descendants)
  with child_ok_finish [OF _ d] show ?thesis
    by (simp only:) (intro system_ok_run [OF ok], simp)
next
  case (step_settle c r res l)
  with system_ok_settle [OF ok step_settle(2-4)] show ?thesis by simp
next
  case (step_return c r res l)
  with system_ok_return [OF ok step_return(4)] show ?thesis by simp
next
  case (step_widen additional ceiling w l)
  with widen_keeps [OF step_widen(2), of d] system_ok_later [OF ok] show ?thesis
    by (simp add: system_ok_def)
qed

lemma budget_run_ok:
  assumes "budget_run grant s n" and "n < 2 ^ 64" and "counted d" and "allocation_get (bg_allocation grant) d \<noteq> None"
  shows "system_ok d n s"
  using assms(1,2)
proof induction
  case budget_start
  show ?case
    using assms(4) by (auto simp: system_ok_def child_ok_def ledger_inv_def ledger_new_def bt_ok_def)
next
  case (budget_next s n s')
  then show ?case
    using budget_step_ok [of s s' d n] assms(3) by simp
qed

text \<open>What the unsettled runs consumed and what the settled ones reported is covered by the escrows.\<close>

lemma live_le_held:
  assumes ok: "system_ok d n s"
  shows "live_consumption s d + bt_sum (spent d) (el_outstanding (sy_ledger s)) \<le> bt_sum (held d) (el_outstanding (sy_ledger s))"
proof -
  let ?m = "el_outstanding (sy_ledger s)"
  let ?live = "\<lambda>(c, e). if ce_settled e = None
    then (case sy_runs s c of Some r \<Rightarrow> unat (consumption_get (rb_consumed (fr_budget r)) d) | None \<Rightarrow> 0) else 0"
  have "?live (c, e) + spent d e \<le> held d e" if entry: "(c, e) \<in> set ?m" for c e
  proof -
    have "map_of ?m c = Some e"
      using ok entry by (auto simp: system_ok_def ledger_inv_def bt_get_iff)
    then have child: "child_ok d n (Some e) (sy_offers s c) (sy_runs s c) (sy_replies s c)"
      using system_okD [OF ok, of c] by simp
    show ?thesis
    proof (cases "ce_settled e")
      case (Some x)
      with child show ?thesis
        by (simp add: child_ok_def escrow_ok_def spent_def)
    next
      case unsettled: None
      show ?thesis
      proof (cases "sy_runs s c")
        case (Some r)
        with child unsettled have r: "covered d r e" "run_ok d n r"
          by (simp_all add: child_ok_def escrow_ok_def)
        from covered_consumed [OF this] Some unsettled show ?thesis
          by (simp add: spent_def)
      qed (simp add: unsettled spent_def)
    qed
  qed
  then have "sum_list (map (\<lambda>p. ?live p + spent d (snd p)) ?m) \<le> sum_list (map (\<lambda>p. held d (snd p)) ?m)"
    by (intro sum_list_mono) auto
  then show ?thesis
    by (simp add: live_consumption_def bt_sum_def sum_list_addf case_prod_unfold)
qed

text \<open>C4: A scope never spends more than it was allocated: in every counted dimension what the scope has
  been charged, together with what its unsettled runs have consumed so far, stays within the scope's
  allocation, whatever the interleaving of assignments, charges, top-ups, replays, settlements,
  returns and widenings.
\<close>

theorem budget_never_oversubscribed:
  assumes "budget_run grant s n" and "n < 2 ^ 64" and "counted d" and "allocation_get (bg_allocation grant) d = Some x"
  shows "\<exists>limit. allocation_get (el_allocation (sy_ledger s)) d = Some limit
    \<and> unat (consumption_get (el_consumed (sy_ledger s)) d) + live_consumption s d \<le> unat limit"
proof -
  have ok: "system_ok d n s"
    using budget_run_ok [OF assms(1-3)] assms(4) by simp
  then obtain limit where "allocation_get (el_allocation (sy_ledger s)) d = Some limit"
    "unat (consumption_get (el_consumed (sy_ledger s)) d) + bt_sum (held d) (el_outstanding (sy_ledger s))
       \<le> unat limit + bt_sum (spent d) (el_outstanding (sy_ledger s))"
    by (auto simp: system_ok_def ledger_inv_def)
  then show ?thesis
    using live_le_held [OF ok] by (intro exI [of _ limit]) simp
qed

text \<open>A scope allocated three iterations funds a run that asks for five and charges one.\<close>

definition demo_grant :: budget_grant where
  "demo_grant = \<lparr>bg_allocation = unbounded_allocation\<lparr>ba_loop_iterations := Some 3\<rparr>, bg_limits = unbounded_limits\<rparr>"

definition demo_opened :: "budget_allocation \<times> escrow_ledger" where
  "demo_opened = (case open_child (ledger_new demo_grant) ''run'' (unbounded_allocation\<lparr>ba_loop_iterations := Some 5\<rparr>) of
     (Inr a, l) \<Rightarrow> (a, l) | (Inl _, l) \<Rightarrow> (nothing_allocation, l))"

definition demo_run :: funded_run where
  "demo_run = \<lparr>fr_budget = run_allocate \<lparr>bg_allocation = fst demo_opened, bg_limits = el_limits (snd demo_opened)\<rparr> 0,
     fr_pending = None, fr_terminal = False\<rparr>"

definition demo_system :: budget_system where
  "demo_system = \<lparr>sy_ledger = snd demo_opened, sy_offers = [''run'' \<mapsto> fst demo_opened],
     sy_runs = [''run'' \<mapsto> demo_run\<lparr>fr_budget := run_operate (fr_budget demo_run) (ChargeIteration 0)\<rparr>], sy_replies = \<lambda>_. None\<rparr>"

lemma demo_opened_eq:
  "open_child (ledger_new demo_grant) ''run'' (run_allocation_request (Some (unbounded_allocation\<lparr>ba_loop_iterations := Some 5\<rparr>)))
     = (Inr (fst demo_opened), snd demo_opened)"
  by code_simp

lemma demo_reached: "budget_run demo_grant demo_system 3"
proof -
  let ?s0 = "\<lparr>sy_ledger = ledger_new demo_grant, sy_offers = \<lambda>_. None, sy_runs = \<lambda>_. None, sy_replies = \<lambda>_. None\<rparr>"
  let ?s1 = "?s0\<lparr>sy_ledger := snd demo_opened, sy_offers := [''run'' \<mapsto> fst demo_opened]\<rparr>"
  let ?s2 = "?s1\<lparr>sy_runs := [''run'' \<mapsto> demo_run]\<rparr>"
  have "budget_run demo_grant ?s0 0"
    by (rule budget_start)
  moreover have "budget_step ?s0 ?s1"
    using step_assign [of ?s0 "''run''", OF _ _] demo_opened_eq by simp
  moreover have "budget_step ?s1 ?s2"
    using step_start [of ?s1 "''run''" "fst demo_opened" demo_run 0] by (simp add: demo_run_def)
  moreover have "budget_step ?s2 demo_system"
    using step_operate [of ?s2 "''run''" demo_run "ChargeIteration 0"] by (simp add: demo_system_def demo_run_def)
  ultimately have "budget_run demo_grant demo_system (Suc (Suc (Suc 0)))"
    by (blast intro: budget_next)
  then show ?thesis
    by (simp add: numeral_3_eq_3)
qed

theorem budget_never_oversubscribed_witness:
  "budget_run demo_grant demo_system 3 \<and> live_consumption demo_system LoopIterations = 1
    \<and> (\<exists>limit. allocation_get (el_allocation (sy_ledger demo_system)) LoopIterations = Some limit
      \<and> unat (consumption_get (el_consumed (sy_ledger demo_system)) LoopIterations) + live_consumption demo_system LoopIterations \<le> unat limit)"
proof (intro conjI)
  show "budget_run demo_grant demo_system 3"
    by (rule demo_reached)
  show "live_consumption demo_system LoopIterations = 1"
    by code_simp
  have "allocation_get (bg_allocation demo_grant) LoopIterations = Some 3"
    by (simp add: demo_grant_def)
  then show "\<exists>limit. allocation_get (el_allocation (sy_ledger demo_system)) LoopIterations = Some limit
      \<and> unat (consumption_get (el_consumed (sy_ledger demo_system)) LoopIterations) + live_consumption demo_system LoopIterations \<le> unat limit"
    by (intro budget_never_oversubscribed [OF demo_reached]) (simp_all add: counted_def)
qed

end
