(* ===== verification/Plan_Model.thy ===== *)
theory Plan_Model
  imports Rakka_Text
begin

text \<open>
  Compiled execution plans (\<open>crates/rakka-agent-workflow/src/compiled_plan.rs\<close>): nodes with typed
  ports, edges between ports, and the catalog that says what each node kind may declare. Artifact
  references are only stored and passed on; they are named by their id.
\<close>

type_synonym node_id = string
type_synonym edge_id = string
type_synonym port_id = string
type_synonym artifact_ref = string
type_synonym attributes = "(string, string) btree"
type_synonym timestamp = u64

section \<open>Node kinds and their descriptors\<close>

datatype node_kind =
    KInput | KTransform | KBranch | KJoin | KIterator | KModelCall | KToolCall | KProcessCall | KHttpCall | KGrpcCall
  | KStreamPublish | KArtifactWrite | KHumanCheckpoint | KTimerWait | KChildWorkflowCommand | KNotification
  | KAuditEvent | KTerminal

definition all_kinds :: "node_kind list" where
  "all_kinds = [KInput, KTransform, KBranch, KJoin, KIterator, KModelCall, KToolCall, KProcessCall, KHttpCall, KGrpcCall,
     KStreamPublish, KArtifactWrite, KHumanCheckpoint, KTimerWait, KChildWorkflowCommand, KNotification, KAuditEvent, KTerminal]"

fun kind_label :: "node_kind \<Rightarrow> string" where
  "kind_label KInput = ''input''"
| "kind_label KTransform = ''transform''"
| "kind_label KBranch = ''branch''"
| "kind_label KJoin = ''join''"
| "kind_label KIterator = ''iterator''"
| "kind_label KModelCall = ''model-call''"
| "kind_label KToolCall = ''tool-call''"
| "kind_label KProcessCall = ''process-call''"
| "kind_label KHttpCall = ''http-call''"
| "kind_label KGrpcCall = ''grpc-call''"
| "kind_label KStreamPublish = ''stream-publish''"
| "kind_label KArtifactWrite = ''artifact-write''"
| "kind_label KHumanCheckpoint = ''human-checkpoint''"
| "kind_label KTimerWait = ''timer-wait''"
| "kind_label KChildWorkflowCommand = ''child-workflow-command''"
| "kind_label KNotification = ''notification''"
| "kind_label KAuditEvent = ''audit-event''"
| "kind_label KTerminal = ''terminal''"

definition kind_from_label :: "string \<Rightarrow> node_kind option" where
  "kind_from_label label = find (\<lambda>k. kind_label k = label) all_kinds"

datatype port_policy = AnyPorts | NoPorts | AtLeastOne | AtLeastTwo

fun policy_label :: "port_policy \<Rightarrow> string" where
  "policy_label AnyPorts = ''any''"
| "policy_label NoPorts = ''none''"
| "policy_label AtLeastOne = ''at-least-one''"
| "policy_label AtLeastTwo = ''at-least-two''"

fun accepts :: "port_policy \<Rightarrow> nat \<Rightarrow> bool" where
  "accepts AnyPorts n = True"
| "accepts NoPorts n = (n = 0)"
| "accepts AtLeastOne n = (1 \<le> n)"
| "accepts AtLeastTwo n = (2 \<le> n)"

record kind_descriptor =
  kd_kind :: node_kind
  kd_label :: string
  kd_requires_target :: bool
  kd_supports_credential_binding :: bool
  kd_supports_config_ref :: bool
  kd_supports_retry_policy_ref :: bool
  kd_supports_timeout_policy_ref :: bool
  kd_supports_concurrency_policy_ref :: bool
  kd_supports_approval_policy_ref :: bool
  kd_input_port_policy :: port_policy
  kd_output_port_policy :: port_policy
  kd_branch_semantics :: bool
  kd_join_semantics :: bool
  kd_iterator_semantics :: bool
  kd_required_capability :: "string option"
  kd_required_feature :: "string option"
  kd_available :: bool

definition graph_v1_capability :: string where
  "graph_v1_capability = ''compiled-graph-v1''"

definition descriptor_new :: "node_kind \<Rightarrow> kind_descriptor" where
  "descriptor_new kind = \<lparr>kd_kind = kind, kd_label = kind_label kind, kd_requires_target = False,
     kd_supports_credential_binding = False, kd_supports_config_ref = False, kd_supports_retry_policy_ref = False,
     kd_supports_timeout_policy_ref = False, kd_supports_concurrency_policy_ref = False,
     kd_supports_approval_policy_ref = False, kd_input_port_policy = AnyPorts, kd_output_port_policy = AnyPorts,
     kd_branch_semantics = False, kd_join_semantics = False, kd_iterator_semantics = False,
     kd_required_capability = Some graph_v1_capability, kd_required_feature = None, kd_available = True\<rparr>"

definition kind_descriptor_of :: "node_kind \<Rightarrow> kind_descriptor" where
  "kind_descriptor_of kind =
     (let d = descriptor_new kind;
          effectful = d\<lparr>kd_requires_target := True, kd_supports_credential_binding := True, kd_supports_config_ref := True,
            kd_supports_retry_policy_ref := True, kd_supports_timeout_policy_ref := True,
            kd_supports_concurrency_policy_ref := True\<rparr>
      in case kind of
           KInput \<Rightarrow> d\<lparr>kd_input_port_policy := NoPorts, kd_output_port_policy := AtLeastOne\<rparr>
         | KTransform \<Rightarrow> d\<lparr>kd_input_port_policy := AtLeastOne, kd_output_port_policy := AtLeastOne,
             kd_supports_config_ref := True, kd_supports_timeout_policy_ref := True\<rparr>
         | KBranch \<Rightarrow> d\<lparr>kd_input_port_policy := AtLeastOne, kd_output_port_policy := AtLeastTwo,
             kd_supports_config_ref := True, kd_branch_semantics := True\<rparr>
         | KJoin \<Rightarrow> d\<lparr>kd_input_port_policy := AtLeastOne, kd_output_port_policy := AtLeastOne, kd_join_semantics := True\<rparr>
         | KIterator \<Rightarrow> d\<lparr>kd_input_port_policy := AtLeastOne, kd_output_port_policy := AtLeastOne,
             kd_supports_config_ref := True, kd_supports_timeout_policy_ref := True, kd_iterator_semantics := True\<rparr>
         | KHumanCheckpoint \<Rightarrow> d\<lparr>kd_supports_config_ref := True, kd_supports_timeout_policy_ref := True,
             kd_supports_approval_policy_ref := True\<rparr>
         | KTimerWait \<Rightarrow> d\<lparr>kd_supports_config_ref := True, kd_supports_timeout_policy_ref := True\<rparr>
         | KAuditEvent \<Rightarrow> d\<lparr>kd_supports_config_ref := True, kd_supports_retry_policy_ref := True\<rparr>
         | KTerminal \<Rightarrow> d\<lparr>kd_input_port_policy := AtLeastOne, kd_output_port_policy := NoPorts\<rparr>
         | _ \<Rightarrow> effectful)"

record runtime_capabilities =
  rc_runtime_version :: string
  rc_capabilities :: "string list"
  rc_enabled_features :: "string list"

definition current_capabilities :: runtime_capabilities where
  "current_capabilities = \<lparr>rc_runtime_version = ''0.1.0'', rc_capabilities = [graph_v1_capability], rc_enabled_features = []\<rparr>"

definition has_capability :: "runtime_capabilities \<Rightarrow> string \<Rightarrow> bool" where
  "has_capability rc capability \<longleftrightarrow> capability \<in> set (rc_capabilities rc)"

definition has_enabled_feature :: "runtime_capabilities \<Rightarrow> string \<Rightarrow> bool" where
  "has_enabled_feature rc feature \<longleftrightarrow> feature \<in> set (rc_enabled_features rc)"

record kind_catalog =
  kc_runtime_capabilities :: runtime_capabilities
  kc_node_kinds :: "kind_descriptor list"

definition catalog_for :: "runtime_capabilities \<Rightarrow> kind_catalog" where
  "catalog_for rc = \<lparr>kc_runtime_capabilities = rc,
     kc_node_kinds = map (\<lambda>kind.
       let d = kind_descriptor_of kind
       in d\<lparr>kd_available :=
              (case kd_required_capability d of None \<Rightarrow> True | Some c \<Rightarrow> has_capability rc c)
              \<and> (case kd_required_feature d of None \<Rightarrow> True | Some f \<Rightarrow> has_enabled_feature rc f)\<rparr>) all_kinds\<rparr>"

definition current_catalog :: kind_catalog where
  "current_catalog = catalog_for current_capabilities"

definition catalog_descriptor :: "kind_catalog \<Rightarrow> node_kind \<Rightarrow> kind_descriptor option" where
  "catalog_descriptor catalog kind = find (\<lambda>d. kd_kind d = kind) (kc_node_kinds catalog)"

section \<open>Ports, nodes, edges and plans\<close>

datatype port_direction = InputPort | OutputPort

fun direction_label :: "port_direction \<Rightarrow> string" where
  "direction_label InputPort = ''input''"
| "direction_label OutputPort = ''output''"

record plan_port =
  pp_port_id :: port_id
  pp_direction :: port_direction
  pp_payload_type :: string
  pp_required :: bool
  pp_schema_ref :: "artifact_ref option"
  pp_attributes :: attributes

definition port_new :: "port_id \<Rightarrow> port_direction \<Rightarrow> string \<Rightarrow> plan_port" where
  "port_new pid direction payload_type = \<lparr>pp_port_id = pid, pp_direction = direction, pp_payload_type = payload_type,
     pp_required = True, pp_schema_ref = None, pp_attributes = []\<rparr>"

record node_target =
  nt_target_type :: string
  nt_name :: string
  nt_address :: "string option"
  nt_attributes :: attributes

record plan_node =
  pn_node_id :: node_id
  pn_kind :: node_kind
  pn_input_ports :: "plan_port list"
  pn_output_ports :: "plan_port list"
  pn_display_name :: "string option"
  pn_config_ref :: "artifact_ref option"
  pn_retry_policy_ref :: "artifact_ref option"
  pn_timeout_policy_ref :: "artifact_ref option"
  pn_concurrency_policy_ref :: "artifact_ref option"
  pn_iterator_policy :: "u32 option"
  pn_target :: "node_target option"
  pn_credential_binding_ref :: "string option"
  pn_observability_labels :: attributes

definition node_new :: "node_id \<Rightarrow> node_kind \<Rightarrow> plan_node" where
  "node_new nid kind = \<lparr>pn_node_id = nid, pn_kind = kind, pn_input_ports = [], pn_output_ports = [], pn_display_name = None,
     pn_config_ref = None, pn_retry_policy_ref = None, pn_timeout_policy_ref = None, pn_concurrency_policy_ref = None,
     pn_iterator_policy = None, pn_target = None, pn_credential_binding_ref = None, pn_observability_labels = []\<rparr>"

datatype merge_behavior = WaitForAll | WaitForAny

record plan_edge =
  pe_edge_id :: edge_id
  pe_source_node_id :: node_id
  pe_source_port_id :: port_id
  pe_target_node_id :: node_id
  pe_target_port_id :: port_id
  pe_condition_ref :: "artifact_ref option"
  pe_merge_behavior :: "merge_behavior option"
  pe_attributes :: attributes

definition edge_new :: "edge_id \<Rightarrow> node_id \<Rightarrow> port_id \<Rightarrow> node_id \<Rightarrow> port_id \<Rightarrow> plan_edge" where
  "edge_new eid source source_port target target_port = \<lparr>pe_edge_id = eid, pe_source_node_id = source,
     pe_source_port_id = source_port, pe_target_node_id = target, pe_target_port_id = target_port,
     pe_condition_ref = None, pe_merge_behavior = None, pe_attributes = []\<rparr>"

record plan_compatibility =
  pc_min_runtime_version :: "string option"
  pc_max_runtime_version :: "string option"
  pc_required_capabilities :: "string list"
  pc_attributes :: attributes

record compiled_plan =
  ep_plan_id :: string
  ep_workflow_id :: string
  ep_workflow_type :: string
  ep_definition_version :: string
  ep_plan_schema_version :: u32
  ep_plan_fingerprint :: string
  ep_entry_node_ids :: "node_id list"
  ep_nodes :: "plan_node list"
  ep_edges :: "plan_edge list"
  ep_source_graph_ref :: "artifact_ref option"
  ep_compiled_metadata_ref :: "artifact_ref option"
  ep_payload_schema_refs :: "artifact_ref list"
  ep_default_retry_policy_ref :: "artifact_ref option"
  ep_default_timeout_policy_ref :: "artifact_ref option"
  ep_default_approval_policy_ref :: "artifact_ref option"
  ep_default_concurrency_policy_ref :: "artifact_ref option"
  ep_compatibility :: plan_compatibility
  ep_observability_labels :: attributes

definition plan_new :: "string \<Rightarrow> string \<Rightarrow> string \<Rightarrow> string \<Rightarrow> u32 \<Rightarrow> string \<Rightarrow> compiled_plan" where
  "plan_new plan_id workflow_id workflow_type version schema_version fingerprint =
     \<lparr>ep_plan_id = plan_id, ep_workflow_id = workflow_id, ep_workflow_type = workflow_type, ep_definition_version = version,
      ep_plan_schema_version = schema_version, ep_plan_fingerprint = fingerprint, ep_entry_node_ids = [], ep_nodes = [],
      ep_edges = [], ep_source_graph_ref = None, ep_compiled_metadata_ref = None, ep_payload_schema_refs = [],
      ep_default_retry_policy_ref = None, ep_default_timeout_policy_ref = None, ep_default_approval_policy_ref = None,
      ep_default_concurrency_policy_ref = None,
      ep_compatibility = \<lparr>pc_min_runtime_version = None, pc_max_runtime_version = None, pc_required_capabilities = [], pc_attributes = []\<rparr>,
      ep_observability_labels = []\<rparr>"

section \<open>Facts about the catalog\<close>

lemma kind_from_label_label: "kind_from_label (kind_label k) = Some k"
  by (cases k) (simp_all add: kind_from_label_def all_kinds_def)

lemma kind_label_inject: "kind_label k = kind_label k' \<longleftrightarrow> k = k'"
  by (metis kind_from_label_label option.inject)

lemma kind_descriptor_of_kind [simp]: "kd_kind (kind_descriptor_of k) = k"
  by (cases k) (simp_all add: kind_descriptor_of_def descriptor_new_def Let_def)

lemma kind_descriptor_of_requires [simp]:
  "kd_required_capability (kind_descriptor_of k) = Some graph_v1_capability" "kd_required_feature (kind_descriptor_of k) = None"
  by (cases k; simp add: kind_descriptor_of_def descriptor_new_def Let_def)+

lemma catalog_for_descriptor:
  "catalog_descriptor (catalog_for rc) k = Some (kind_descriptor_of k\<lparr>kd_available := has_capability rc graph_v1_capability\<rparr>)"
  by (cases k) (simp_all add: catalog_descriptor_def catalog_for_def all_kinds_def Let_def)

lemma current_catalog_descriptor:
  "catalog_descriptor current_catalog k = Some (kind_descriptor_of k\<lparr>kd_available := True\<rparr>)"
  by (simp add: current_catalog_def catalog_for_descriptor current_capabilities_def has_capability_def)

end
