(* ===== verification/Plan_Validation.thy ===== *)
theory Plan_Validation
  imports Plan_Model
begin

text \<open>
  Validation of a compiled plan (\<open>validate_compiled_execution_plan_with_catalog\<close> and its helpers in
  \<open>crates/rakka-agent-workflow/src/compiled_plan.rs\<close>): every check in the order of the source, the
  first failing one being the error. The depth-first search for cycles and the search for reachable
  nodes are the source's loops over explicit stacks.
\<close>

section \<open>Errors\<close>

datatype plan_error =
    InvalidField string string
  | MissingRuntimeCapability string
  | DuplicateNodeId node_id
  | DuplicateEdgeId edge_id
  | DuplicatePortId node_id port_id
  | UnknownEntryNode node_id
  | UnknownEdgeNode edge_id node_id string
  | UnknownEdgePort edge_id node_id port_id port_direction
  | PortDirectionMismatch edge_id node_id port_id port_direction port_direction
  | UnsupportedNodeKind node_id node_kind
  | UnavailableNodeKind node_id node_kind "string option" "string option"
  | UnsupportedNodeTarget node_id node_kind
  | MissingRequiredNodeTarget node_id node_kind
  | UnsupportedCredentialBinding node_id node_kind
  | UnsupportedPolicyRef node_id node_kind string
  | InvalidPortPolicy node_id node_kind port_direction port_policy nat
  | InvalidIteratorPolicy node_id string
  | InvalidBranchDeclaration node_id string
  | InvalidJoinDeclaration node_id string
  | MissingRequiredInput node_id port_id
  | MissingReachableTerminal
  | CycleDetected node_id
  | UnsafeAttribute string string string
  | SecretLikeCredentialBindingRef node_id
  | InvalidEffectSafetyClass node_id string
  | InvalidEffectMaxAttempts node_id string
  | InvalidEffectTargetClass node_id string

fun plan_error_code :: "plan_error \<Rightarrow> string" where
  "plan_error_code (InvalidField _ _) = ''invalid_field''"
| "plan_error_code (MissingRuntimeCapability _) = ''missing_runtime_capability''"
| "plan_error_code (DuplicateNodeId _) = ''duplicate_node_id''"
| "plan_error_code (DuplicateEdgeId _) = ''duplicate_edge_id''"
| "plan_error_code (DuplicatePortId _ _) = ''duplicate_port_id''"
| "plan_error_code (UnknownEntryNode _) = ''unknown_entry_node''"
| "plan_error_code (UnknownEdgeNode _ _ _) = ''unknown_edge_node''"
| "plan_error_code (UnknownEdgePort _ _ _ _) = ''unknown_edge_port''"
| "plan_error_code (PortDirectionMismatch _ _ _ _ _) = ''port_direction_mismatch''"
| "plan_error_code (UnsupportedNodeKind _ _) = ''unsupported_node_kind''"
| "plan_error_code (UnavailableNodeKind _ _ _ _) = ''unavailable_node_kind''"
| "plan_error_code (UnsupportedNodeTarget _ _) = ''unsupported_node_target''"
| "plan_error_code (MissingRequiredNodeTarget _ _) = ''missing_required_node_target''"
| "plan_error_code (UnsupportedCredentialBinding _ _) = ''unsupported_credential_binding''"
| "plan_error_code (UnsupportedPolicyRef _ _ _) = ''unsupported_policy_ref''"
| "plan_error_code (InvalidPortPolicy _ _ _ _ _) = ''invalid_port_policy''"
| "plan_error_code (InvalidIteratorPolicy _ _) = ''invalid_iterator_policy''"
| "plan_error_code (InvalidBranchDeclaration _ _) = ''invalid_branch_declaration''"
| "plan_error_code (InvalidJoinDeclaration _ _) = ''invalid_join_declaration''"
| "plan_error_code (MissingRequiredInput _ _) = ''missing_required_input''"
| "plan_error_code MissingReachableTerminal = ''missing_reachable_terminal''"
| "plan_error_code (CycleDetected _) = ''cycle_detected''"
| "plan_error_code (UnsafeAttribute _ _ _) = ''unsafe_attribute''"
| "plan_error_code (SecretLikeCredentialBindingRef _) = ''secret_like_credential_binding_ref''"
| "plan_error_code (InvalidEffectSafetyClass _ _) = ''invalid-effect-safety-class''"
| "plan_error_code (InvalidEffectMaxAttempts _ _) = ''invalid-effect-max-attempts''"
| "plan_error_code (InvalidEffectTargetClass _ _) = ''invalid-effect-target-class''"

text \<open>The diagnostic text of an error. Names are quoted with backticks.\<close>

definition quoted :: "string \<Rightarrow> string" where
  "quoted s = ''`'' @ s @ ''`''"

definition node_of_kind :: "node_id \<Rightarrow> node_kind \<Rightarrow> string" where
  "node_of_kind n k = ''node '' @ quoted n @ '' of kind '' @ quoted (kind_label k)"

fun plan_error_text :: "plan_error \<Rightarrow> string" where
  "plan_error_text (InvalidField field reason) = ''invalid compiled plan field '' @ quoted field @ '': '' @ reason"
| "plan_error_text (MissingRuntimeCapability c) = ''compiled plan requires unavailable runtime capability '' @ quoted c"
| "plan_error_text (DuplicateNodeId n) = ''duplicate compiled plan node id '' @ quoted n"
| "plan_error_text (DuplicateEdgeId e) = ''duplicate compiled plan edge id '' @ quoted e"
| "plan_error_text (DuplicatePortId n p) = ''duplicate compiled plan port id '' @ quoted p @ '' on node '' @ quoted n"
| "plan_error_text (UnknownEntryNode n) = ''entry node '' @ quoted n @ '' is not declared''"
| "plan_error_text (UnknownEdgeNode e n role) =
     ''edge '' @ quoted e @ '' references unknown '' @ role @ '' node '' @ quoted n"
| "plan_error_text (UnknownEdgePort e n p direction) =
     ''edge '' @ quoted e @ '' references unknown '' @ direction_label direction @ '' port '' @ quoted p @ '' on node '' @ quoted n"
| "plan_error_text (PortDirectionMismatch e n p expected actual) =
     ''edge '' @ quoted e @ '' expected '' @ direction_label expected @ '' port '' @ quoted p @ '' on node '' @ quoted n
       @ '', found '' @ direction_label actual"
| "plan_error_text (UnsupportedNodeKind n k) = ''node '' @ quoted n @ '' uses unsupported node kind '' @ quoted (kind_label k)"
| "plan_error_text (UnavailableNodeKind n k capability feature) =
     ''node '' @ quoted n @ '' uses unavailable node kind '' @ quoted (kind_label k)
       @ (case capability of None \<Rightarrow> [] | Some c \<Rightarrow> '' requiring capability '' @ quoted c)
       @ (case feature of None \<Rightarrow> [] | Some f \<Rightarrow> '' requiring feature '' @ quoted f)"
| "plan_error_text (UnsupportedNodeTarget n k) = node_of_kind n k @ '' does not support a target''"
| "plan_error_text (MissingRequiredNodeTarget n k) = node_of_kind n k @ '' requires a target''"
| "plan_error_text (UnsupportedCredentialBinding n k) = node_of_kind n k @ '' does not support a credential binding ref''"
| "plan_error_text (UnsupportedPolicyRef n k policy) = node_of_kind n k @ '' does not support '' @ quoted policy"
| "plan_error_text (InvalidPortPolicy n k direction policy count) =
     node_of_kind n k @ '' has '' @ show_nat count @ '' '' @ direction_label direction @ '' ports, expected '' @ policy_label policy"
| "plan_error_text (InvalidIteratorPolicy n reason) = ''iterator node '' @ quoted n @ '' has invalid policy: '' @ reason"
| "plan_error_text (InvalidBranchDeclaration n reason) = ''branch node '' @ quoted n @ '' is invalid: '' @ reason"
| "plan_error_text (InvalidJoinDeclaration n reason) = ''join node '' @ quoted n @ '' is invalid: '' @ reason"
| "plan_error_text (MissingRequiredInput n p) =
     ''required input port '' @ quoted p @ '' on node '' @ quoted n @ '' is not reachable''"
| "plan_error_text MissingReachableTerminal = ''no terminal node is reachable from compiled plan entry nodes''"
| "plan_error_text (CycleDetected n) = ''compiled plan contains an unsupported cycle at '' @ quoted n"
| "plan_error_text (UnsafeAttribute scope key reason) =
     ''unsafe compiled plan attribute '' @ quoted key @ '' in '' @ quoted scope @ '': '' @ reason"
| "plan_error_text (SecretLikeCredentialBindingRef n) =
     ''credential binding ref on node '' @ quoted n @ '' looks like raw secret material''"
| "plan_error_text (InvalidEffectSafetyClass n v) =
     ''node '' @ quoted n @ '' declares '' @ quoted ''agent_effect_safety_class'' @ '' = '' @ quoted v
       @ ''; expected read-only, idempotent, non-idempotent or reconcileable''"
| "plan_error_text (InvalidEffectMaxAttempts n v) =
     ''node '' @ quoted n @ '' declares '' @ quoted ''agent_effect_max_attempts'' @ '' = '' @ quoted v
       @ ''; expected a positive decimal integer''"
| "plan_error_text (InvalidEffectTargetClass n v) =
     ''node '' @ quoted n @ '' has target class '' @ quoted v @ '', which ends in '' @ quoted '';gen=<n>''
       @ '' and would make its effect id read as another generation''"

type_synonym plan_check = "(plan_error, unit) result"

section \<open>Texts and attributes\<close>

definition validate_required_text :: "string \<Rightarrow> string \<Rightarrow> plan_check" where
  "validate_required_text field text_value = ensure (trim text_value \<noteq> []) (InvalidField field ''value must not be empty'')"

definition is_sensitive_attribute_key :: "string \<Rightarrow> bool" where
  "is_sensitive_attribute_key key \<longleftrightarrow> (let normalized = to_ascii_lowercase key in
     contains_text normalized ''secret'' \<or> contains_text normalized ''token'' \<or> contains_text normalized ''password''
     \<or> contains_text normalized ''api_key'' \<or> contains_text normalized ''apikey''
     \<or> contains_text normalized ''authorization'' \<or> contains_text normalized ''credential'')"

definition looks_like_secret_value :: "string \<Rightarrow> bool" where
  "looks_like_secret_value v \<longleftrightarrow> (let trimmed = trim v; lower = to_ascii_lowercase trimmed in
     starts_with trimmed ''sk-'' \<or> starts_with trimmed ''xoxb-'' \<or> starts_with trimmed ''ghp_''
     \<or> starts_with trimmed ''github_pat_'' \<or> starts_with trimmed ''AKIA'' \<or> starts_with trimmed ''-----BEGIN ''
     \<or> starts_with lower ''bearer '' \<or> starts_with lower ''basic '')"

definition looks_like_credential_binding_ref :: "string \<Rightarrow> bool" where
  "looks_like_credential_binding_ref v \<longleftrightarrow> (let normalized = to_ascii_lowercase v in
     contains_text normalized ''credential_binding'' \<or> contains_text normalized ''cred_binding'')"

definition label_value_contains_line_break :: "string \<Rightarrow> bool" where
  "label_value_contains_line_break v \<longleftrightarrow> char_of (10 :: nat) \<in> set v \<or> char_of (13 :: nat) \<in> set v"

definition attribute_value_max_bytes :: nat where
  "attribute_value_max_bytes = 96"

definition forbidden_hot_metric_fields :: "string list" where
  "forbidden_hot_metric_fields = [''workflow_id'', ''run_id'', ''entity_id'', ''command_id'', ''effect_id'', ''checkpoint_id'',
     ''correlation_id'', ''causation_id'', ''deduplication_key'', ''idempotency_key'', ''prompt_text'', ''completion_text'',
     ''tool_arguments'', ''artifact_uri'', ''full_error_message'']"

definition validate_attribute :: "string \<Rightarrow> bool \<Rightarrow> string \<times> string \<Rightarrow> plan_check" where
  "validate_attribute scope hot_labels = (\<lambda>(key, v). first_failure
     [ensure (trim key \<noteq> []) (UnsafeAttribute scope key ''attribute keys must not be empty''),
      ensure (length key \<le> attribute_value_max_bytes) (UnsafeAttribute scope key ''attribute keys must be bounded''),
      ensure (length v \<le> attribute_value_max_bytes) (UnsafeAttribute scope key ''attribute values must be bounded''),
      ensure (\<not> label_value_contains_line_break v)
        (UnsafeAttribute scope key ''attribute values must be single-line bounded labels''),
      ensure (\<not> (is_sensitive_attribute_key key \<or> looks_like_secret_value v))
        (UnsafeAttribute scope key ''attributes must not contain credential or secret material''),
      ensure (\<not> (hot_labels \<and> (key \<in> set forbidden_hot_metric_fields \<or> looks_like_credential_binding_ref v)))
        (UnsafeAttribute scope key ''hot labels must not contain ids or credential binding refs'')])"

definition validate_attributes :: "string \<Rightarrow> attributes \<Rightarrow> bool \<Rightarrow> plan_check" where
  "validate_attributes scope attributes hot_labels = first_failure (map (validate_attribute scope hot_labels) attributes)"

section \<open>Nodes\<close>

definition target_class_reads_as_generation :: "string \<Rightarrow> bool" where
  "target_class_reads_as_generation target_class =
     (case rsplit_once target_class '';gen='' of None \<Rightarrow> False | Some (_, generation) \<Rightarrow> parse_u32 generation \<noteq> None)"

definition effect_safety_class_labels :: "string list" where
  "effect_safety_class_labels = [''read-only'', ''idempotent'', ''non-idempotent'', ''reconcileable'']"

definition validate_effect_target_attributes :: "plan_node \<Rightarrow> node_target \<Rightarrow> plan_check" where
  "validate_effect_target_attributes node t = first_failure
     [(case map_of (nt_attributes t) ''agent_effect_safety_class'' of
         None \<Rightarrow> Inr ()
       | Some v \<Rightarrow> ensure (v \<in> set effect_safety_class_labels) (InvalidEffectSafetyClass (pn_node_id node) v)),
      (case map_of (nt_attributes t) ''agent_effect_max_attempts'' of
         None \<Rightarrow> Inr ()
       | Some v \<Rightarrow> ensure (case parse_u32 v of Some n \<Rightarrow> 0 < n | None \<Rightarrow> False) (InvalidEffectMaxAttempts (pn_node_id node) v)),
      (case map_of (nt_attributes t) ''target_class'' of
         None \<Rightarrow> Inr ()
       | Some v \<Rightarrow> ensure (trim v = [] \<or> \<not> target_class_reads_as_generation v) (InvalidEffectTargetClass (pn_node_id node) v))]"

definition node_field :: "plan_node \<Rightarrow> string \<Rightarrow> string" where
  "node_field node rest = ''nodes['' @ pn_node_id node @ '']'' @ rest"

definition validate_node_target :: "plan_node \<Rightarrow> node_target \<Rightarrow> plan_check" where
  "validate_node_target node t = first_failure
     [validate_required_text (node_field node ''.target.target_type'') (nt_target_type t),
      validate_required_text (node_field node ''.target.name'') (nt_name t),
      (case nt_address t of None \<Rightarrow> Inr () | Some a \<Rightarrow> validate_required_text (node_field node ''.target.address'') a),
      validate_attributes (node_field node ''.target.attributes'') (nt_attributes t) False,
      validate_effect_target_attributes node t]"

definition validate_port :: "plan_node \<Rightarrow> plan_port \<Rightarrow> port_direction \<Rightarrow> plan_check" where
  "validate_port node port expected = first_failure
     [validate_required_text (node_field node ''.ports[].port_id'') (pp_port_id port),
      validate_required_text (node_field node (''.ports['' @ pp_port_id port @ ''].payload_type'')) (pp_payload_type port),
      ensure (pp_direction port = expected)
        (PortDirectionMismatch ''<node-port-declaration>'' (pn_node_id node) (pp_port_id port) expected (pp_direction port)),
      validate_attributes (node_field node (''.ports['' @ pp_port_id port @ ''].attributes'')) (pp_attributes port) False]"

fun validate_port_list :: "plan_node \<Rightarrow> port_direction \<Rightarrow> plan_port list \<Rightarrow> port_id list \<Rightarrow> (plan_error, port_id list) result" where
  "validate_port_list node direction [] port_ids = Inr port_ids"
| "validate_port_list node direction (port # ports) port_ids =
     bind_result (validate_port node port direction) (\<lambda>_.
       if pp_port_id port \<in> set port_ids then Inl (DuplicatePortId (pn_node_id node) (pp_port_id port))
       else validate_port_list node direction ports (bs_insert (pp_port_id port) port_ids))"

definition validate_ports :: "plan_node \<Rightarrow> plan_check" where
  "validate_ports node =
     bind_result (validate_port_list node InputPort (pn_input_ports node) []) (\<lambda>port_ids.
     bind_result (validate_port_list node OutputPort (pn_output_ports node) port_ids) (\<lambda>_. Inr ()))"

definition validate_iterator_policy :: "plan_node \<Rightarrow> kind_descriptor \<Rightarrow> plan_check" where
  "validate_iterator_policy node d =
     (if kd_iterator_semantics d then
        (case pn_iterator_policy node of
           None \<Rightarrow> Inl (InvalidIteratorPolicy (pn_node_id node) ''iterator nodes require an explicit iterator policy'')
         | Some max_iterations \<Rightarrow>
             ensure (max_iterations \<noteq> 0) (InvalidIteratorPolicy (pn_node_id node) ''max_iterations must be greater than zero''))
      else ensure (pn_iterator_policy node = None)
        (InvalidIteratorPolicy (pn_node_id node) ''only iterator nodes may declare iterator policy''))"

definition validate_node_kind :: "plan_node \<Rightarrow> kind_descriptor \<Rightarrow> plan_check" where
  "validate_node_kind node d = first_failure
     [ensure (kd_available d) (UnavailableNodeKind (pn_node_id node) (pn_kind node) (kd_required_capability d) (kd_required_feature d)),
      ensure (\<not> (kd_requires_target d \<and> pn_target node = None)) (MissingRequiredNodeTarget (pn_node_id node) (pn_kind node)),
      ensure (\<not> (\<not> kd_requires_target d \<and> pn_target node \<noteq> None)) (UnsupportedNodeTarget (pn_node_id node) (pn_kind node)),
      ensure (\<not> (\<not> kd_supports_credential_binding d \<and> pn_credential_binding_ref node \<noteq> None))
        (UnsupportedCredentialBinding (pn_node_id node) (pn_kind node)),
      ensure (\<not> (\<not> kd_supports_retry_policy_ref d \<and> pn_retry_policy_ref node \<noteq> None))
        (UnsupportedPolicyRef (pn_node_id node) (pn_kind node) ''retry_policy_ref''),
      ensure (\<not> (\<not> kd_supports_timeout_policy_ref d \<and> pn_timeout_policy_ref node \<noteq> None))
        (UnsupportedPolicyRef (pn_node_id node) (pn_kind node) ''timeout_policy_ref''),
      ensure (\<not> (\<not> kd_supports_concurrency_policy_ref d \<and> pn_concurrency_policy_ref node \<noteq> None))
        (UnsupportedPolicyRef (pn_node_id node) (pn_kind node) ''concurrency_policy_ref''),
      ensure (accepts (kd_input_port_policy d) (length (pn_input_ports node)))
        (InvalidPortPolicy (pn_node_id node) (pn_kind node) InputPort (kd_input_port_policy d) (length (pn_input_ports node))),
      ensure (accepts (kd_output_port_policy d) (length (pn_output_ports node)))
        (InvalidPortPolicy (pn_node_id node) (pn_kind node) OutputPort (kd_output_port_policy d) (length (pn_output_ports node))),
      validate_ports node,
      validate_iterator_policy node d]"

definition validate_node_shape :: "plan_node \<Rightarrow> kind_catalog \<Rightarrow> plan_check" where
  "validate_node_shape node catalog = first_failure
     [validate_required_text ''nodes[].node_id'' (pn_node_id node),
      validate_attributes (node_field node ''.observability_labels'') (pn_observability_labels node) True,
      (case pn_target node of None \<Rightarrow> Inr () | Some t \<Rightarrow> validate_node_target node t),
      (case pn_credential_binding_ref node of
         None \<Rightarrow> Inr ()
       | Some binding \<Rightarrow> first_failure
           [validate_required_text (node_field node ''.credential_binding_ref'') binding,
            ensure (\<not> looks_like_secret_value binding) (SecretLikeCredentialBindingRef (pn_node_id node))]),
      (case catalog_descriptor catalog (pn_kind node) of
         None \<Rightarrow> Inl (UnsupportedNodeKind (pn_node_id node) (pn_kind node))
       | Some d \<Rightarrow> validate_node_kind node d)]"

end
