(* ===== verification/Plan_Graph.thy ===== *)
theory Plan_Graph
  imports Rakka_Prelude
begin

text \<open>
  The graph searches of plan validation (\<open>detect_cycle\<close> and \<open>reachable_nodes\<close> in
  \<open>crates/rakka-agent-workflow/src/compiled_plan.rs\<close>), as the loops over explicit stacks they are.
  Both terminate on every adjacency map; the first finds a cycle exactly when there is one, the
  second computes exactly the nodes reachable from the entries.
\<close>

type_synonym adjacency = "(string, string list) btree"

definition children :: "adjacency \<Rightarrow> string \<Rightarrow> string list" where
  "children adj n = (case map_of adj n of Some ns \<Rightarrow> ns | None \<Rightarrow> [])"

definition edges_of :: "adjacency \<Rightarrow> (string \<times> string) set" where
  "edges_of adj = {(n, m). m \<in> set (children adj n)}"

text \<open>The nodes an edge leads to; the searches push no others.\<close>

definition targets :: "adjacency \<Rightarrow> string set" where
  "targets adj = (\<Union>p \<in> set adj. set (snd p))"

lemma finite_targets [simp]: "finite (targets adj)"
  by (simp add: targets_def)

lemma children_targets: "set (children adj n) \<subseteq> targets adj"
proof (cases "map_of adj n")
  case (Some ns)
  then have "(n, ns) \<in> set adj"
    by (rule map_of_SomeD)
  with Some show ?thesis
    by (force simp: children_def targets_def)
qed (simp add: children_def)

lemma children_absent: "n \<notin> fst ` set adj \<Longrightarrow> children adj n = []"
  by (simp add: children_def map_of_eq_None_iff [THEN iffD2])

section \<open>Searching for a cycle\<close>

text \<open>The stack holds the path with the index of the next child of each node, topmost first.\<close>

function cycle_loop ::
  "adjacency \<Rightarrow> string list \<Rightarrow> string list \<Rightarrow> (string \<times> nat) list \<Rightarrow> string option \<times> string list \<times> string list"
where
  "cycle_loop adj visiting visited [] = (None, visiting, visited)"
| "cycle_loop adj visiting visited ((n, i) # stack) =
     (if i < length (children adj n) then
        let m = children adj n ! i
        in if m \<in> set visiting then (Some m, visiting, visited)
           else if m \<notin> set visited then cycle_loop adj (bs_insert m visiting) visited ((m, 0) # (n, Suc i) # stack)
           else cycle_loop adj visiting visited ((n, Suc i) # stack)
      else cycle_loop adj (bs_remove n visiting) (bs_insert n visited) stack)"
  by pat_completeness auto

definition stack_weight :: "adjacency \<Rightarrow> (string \<times> nat) list \<Rightarrow> nat" where
  "stack_weight adj stack = sum_list (map (\<lambda>(n, i). Suc (length (children adj n) - i)) stack)"

termination cycle_loop
proof (relation "measures [\<lambda>(adj, visiting, visited, stack). card (targets adj - (set visiting \<union> set visited)),
    \<lambda>(adj, visiting, visited, stack). stack_weight adj stack]", goal_cases)
  case 1
  then show ?case by simp
next
  case (2 adj visiting visited n i stack m)
  then have "m \<in> targets adj"
    using children_targets [of adj n] nth_mem [of i "children adj n"] by auto
  with 2 have "card (targets adj - (set (bs_insert m visiting) \<union> set visited)) < card (targets adj - (set visiting \<union> set visited))"
    by (intro psubset_card_mono) auto
  then show ?case by simp
next
  case (3 adj visiting visited n i stack m)
  then show ?case by (simp add: stack_weight_def)
next
  case (4 adj visiting visited n i stack)
  have "card (targets adj - (set (bs_remove n visiting) \<union> set (bs_insert n visited))) \<le> card (targets adj - (set visiting \<union> set visited))"
    by (intro card_mono) auto
  then show ?case
    by (auto simp: stack_weight_def)
qed

declare cycle_loop.simps(2) [simp del]

fun detect_from :: "adjacency \<Rightarrow> string list \<Rightarrow> string list \<Rightarrow> string list \<Rightarrow> string option" where
  "detect_from adj [] visiting visited = None"
| "detect_from adj (root # roots) visiting visited =
     (if root \<in> set visited then detect_from adj roots visiting visited
      else
        (case cycle_loop adj (bs_insert root visiting) visited [(root, 0)] of
           (Some n, _, _) \<Rightarrow> Some n
         | (None, visiting', visited') \<Rightarrow> detect_from adj roots visiting' visited'))"

definition detect_cycle :: "adjacency \<Rightarrow> string option" where
  "detect_cycle adj = detect_from adj (map fst adj) [] []"

section \<open>Reachable nodes\<close>

function reach_loop :: "adjacency \<Rightarrow> string list \<Rightarrow> string list \<Rightarrow> string list" where
  "reach_loop adj reachable [] = reachable"
| "reach_loop adj reachable (n # stack) =
     (if n \<in> set reachable then reach_loop adj reachable stack
      else reach_loop adj (bs_insert n reachable) (children adj n @ stack))"
  by pat_completeness auto

termination reach_loop
proof (relation "measures [\<lambda>(adj, reachable, stack). card (targets adj \<union> fst ` set adj - set reachable),
    \<lambda>(adj, reachable, stack). length stack]", goal_cases)
  case 1
  then show ?case by simp
next
  case (2 adj reachable n stack)
  then show ?case by simp
next
  case (3 adj reachable n stack)
  let ?u = "targets adj \<union> fst ` set adj"
  show ?case
  proof (cases "n \<in> ?u")
    case True
    with 3 have "card (?u - set (bs_insert n reachable)) < card (?u - set reachable)"
      by (intro psubset_card_mono) auto
    then show ?thesis by simp
  next
    case False
    then have "children adj n = []"
      by (simp add: children_absent)
    moreover have "?u - set (bs_insert n reachable) = ?u - set reachable"
      using False by auto
    ultimately show ?thesis by simp
  qed
qed

declare reach_loop.simps(2) [simp del]

definition reachable_nodes :: "string list \<Rightarrow> adjacency \<Rightarrow> string list" where
  "reachable_nodes entries adj = reach_loop adj [] entries"

section \<open>The search finds a cycle exactly when there is one\<close>

definition searched :: "adjacency \<Rightarrow> string set \<Rightarrow> bool" where
  "searched adj done_nodes \<longleftrightarrow> (\<forall>v \<in> done_nodes. set (children adj v) \<subseteq> done_nodes)
     \<and> acyclic (edges_of adj \<inter> done_nodes \<times> done_nodes)"

text \<open>Every frame has searched its children up to its index, the last of them being the frame above.\<close>

fun frames :: "adjacency \<Rightarrow> string set \<Rightarrow> string option \<Rightarrow> (string \<times> nat) list \<Rightarrow> bool" where
  "frames adj done_nodes upper [] \<longleftrightarrow> True"
| "frames adj done_nodes upper ((n, i) # stack) \<longleftrightarrow> set (take i (children adj n)) \<subseteq> done_nodes \<union> set_option upper
     \<and> (\<forall>m \<in> set_option upper. (n, m) \<in> edges_of adj) \<and> frames adj done_nodes (Some n) stack"

lemma frames_mono: "frames adj d upper stack \<Longrightarrow> d \<subseteq> d' \<Longrightarrow> frames adj d' upper stack"
  by (induction adj d upper stack rule: frames.induct) auto

lemma frames_pop: "frames adj d (Some n) stack \<Longrightarrow> frames adj (insert n d) None stack"
  by (cases "(adj, d, Some n, stack)" rule: frames.cases) (auto intro: frames_mono)

lemma frames_path: "frames adj d (Some n) stack \<Longrightarrow> m \<in> fst ` set stack \<Longrightarrow> (m, n) \<in> (edges_of adj)\<^sup>+"
proof (induction stack arbitrary: n)
  case (Cons p stack)
  obtain q i where p: "p = (q, i)" by fastforce
  have step: "(q, n) \<in> edges_of adj" and rest: "frames adj d (Some q) stack"
    using Cons.prems(1) by (simp_all add: p)
  show ?case
  proof (cases "m = q")
    case False
    then have "(m, q) \<in> (edges_of adj)\<^sup>+"
      using Cons.prems(2) by (intro Cons.IH [OF rest]) (auto simp: p)
    with step show ?thesis by simp
  qed (use step in auto)
qed simp

lemma searched_insert:
  assumes "searched adj d" and "set (children adj n) \<subseteq> d" and "n \<notin> d"
  shows "searched adj (insert n d)"
proof -
  let ?r = "edges_of adj \<inter> insert n d \<times> insert n d"
  have into: "y \<in> d" if "(x, y) \<in> ?r" for x y
    using assms that by (auto simp: searched_def edges_of_def)
  have stay: "(x, y) \<in> (edges_of adj \<inter> d \<times> d)\<^sup>+ \<and> y \<in> d" if "(x, y) \<in> ?r\<^sup>+" "x \<in> d" for x y
    using that(1)
  proof (induction rule: trancl_induct)
    case (base y)
    have "(x, y) \<in> edges_of adj \<inter> d \<times> d"
      using base that(2) into [OF base] by simp
    then show ?case
      using into [OF base] by (simp add: r_into_trancl)
  next
    case (step y z)
    have next_edge: "(y, z) \<in> edges_of adj \<inter> d \<times> d"
      using step.hyps(2) step.IH into [OF step.hyps(2)] by simp
    show ?case
      using trancl_into_trancl [OF conjunct1 [OF step.IH] next_edge] into [OF step.hyps(2)] by blast
  qed
  have "(x, x) \<notin> ?r\<^sup>+" for x
  proof
    assume loop: "(x, x) \<in> ?r\<^sup>+"
    then obtain y where "(y, x) \<in> ?r"
      by (auto dest: tranclD2)
    then have "x \<in> d" by (rule into)
    from stay [OF loop this] assms(1) show False
      by (simp add: searched_def acyclic_def)
  qed
  then show ?thesis
    using assms by (auto simp: searched_def acyclic_def)
qed

lemma cycle_loop_correct:
  assumes "searched adj (set visited)" and "frames adj (set visited) None stack" and "set visiting = fst ` set stack"
    and "distinct (map fst stack)" and "set visiting \<inter> set visited = {}"
  shows "case cycle_loop adj visiting visited stack of
      (Some m, _, _) \<Rightarrow> (m, m) \<in> (edges_of adj)\<^sup>+
    | (None, visiting', visited') \<Rightarrow> set visiting' = {} \<and> searched adj (set visited')
        \<and> set visited \<subseteq> set visited' \<and> fst ` set stack \<subseteq> set visited'"
  using assms
proof (induction adj visiting visited stack rule: cycle_loop.induct)
  case (1 adj visiting visited)
  then show ?case by simp
next
  case (2 adj visiting visited n i stack)
  show ?case
  proof (cases "i < length (children adj n)")
    case more: True
    define m where "m = children adj n ! i"
    have edge: "(n, m) \<in> edges_of adj"
      using more by (simp add: edges_of_def m_def)
    have take_Suc: "take (Suc i) (children adj n) = take i (children adj n) @ [m]"
      using more by (simp add: take_Suc_conv_app_nth m_def)
    show ?thesis
    proof (cases "m \<in> set visiting")
      case True
      have "(m, n) \<in> (edges_of adj)\<^sup>*"
        using True 2(6) 2(5) frames_path [of adj "set visited" n stack m] by (auto dest: trancl_into_rtrancl)
      from rtrancl_into_trancl1 [OF this edge] more True show ?thesis
        by (simp add: cycle_loop.simps(2) m_def Let_def)
    next
      case new: False
      show ?thesis
      proof (cases "m \<in> set visited")
        case False
        have "case cycle_loop adj (bs_insert m visiting) visited ((m, 0) # (n, Suc i) # stack) of
            (Some m, _, _) \<Rightarrow> (m, m) \<in> (edges_of adj)\<^sup>+
          | (None, visiting', visited') \<Rightarrow> set visiting' = {} \<and> searched adj (set visited')
              \<and> set visited \<subseteq> set visited' \<and> fst ` set ((m, 0 :: nat) # (n, Suc i) # stack) \<subseteq> set visited'"
          using 2(4-8) more new False edge take_Suc by (intro 2(1) [OF more m_def]) auto
        moreover have "cycle_loop adj visiting visited ((n, i) # stack)
            = cycle_loop adj (bs_insert m visiting) visited ((m, 0) # (n, Suc i) # stack)"
          using more new False by (subst cycle_loop.simps(2)) (simp add: m_def Let_def)
        ultimately show ?thesis
          by (auto split: option.splits prod.splits)
      next
        case True
        have "case cycle_loop adj visiting visited ((n, Suc i) # stack) of
            (Some m, _, _) \<Rightarrow> (m, m) \<in> (edges_of adj)\<^sup>+
          | (None, visiting', visited') \<Rightarrow> set visiting' = {} \<and> searched adj (set visited')
              \<and> set visited \<subseteq> set visited' \<and> fst ` set ((n, Suc i) # stack) \<subseteq> set visited'"
          using 2(4-8) more new True take_Suc by (intro 2(2) [OF more m_def]) auto
        moreover have "cycle_loop adj visiting visited ((n, i) # stack) = cycle_loop adj visiting visited ((n, Suc i) # stack)"
          using more new True by (subst cycle_loop.simps(2)) (simp add: m_def Let_def)
        ultimately show ?thesis
          by (auto split: option.splits prod.splits)
      qed
    qed
  next
    case False
    then have all: "set (children adj n) \<subseteq> set visited"
      using 2(5) by simp
    have "case cycle_loop adj (bs_remove n visiting) (bs_insert n visited) stack of
        (Some m, _, _) \<Rightarrow> (m, m) \<in> (edges_of adj)\<^sup>+
      | (None, visiting', visited') \<Rightarrow> set visiting' = {} \<and> searched adj (set visited')
          \<and> set (bs_insert n visited) \<subseteq> set visited' \<and> fst ` set stack \<subseteq> set visited'"
    proof (rule 2(3) [OF False])
      show "searched adj (set (bs_insert n visited))"
        using searched_insert [OF 2(4) all] 2(6,8) by auto
      show "frames adj (set (bs_insert n visited)) None stack"
        using 2(5) by (simp add: frames_pop)
    qed (use 2(6-8) in auto)
    moreover have "cycle_loop adj visiting visited ((n, i) # stack) = cycle_loop adj (bs_remove n visiting) (bs_insert n visited) stack"
      using False by (subst cycle_loop.simps(2)) simp
    ultimately show ?thesis
      by (auto split: option.splits prod.splits)
  qed
qed

lemma detect_from_correct:
  assumes "searched adj (set visited)" and "set visiting = {}"
  shows "case detect_from adj roots visiting visited of
      Some m \<Rightarrow> (m, m) \<in> (edges_of adj)\<^sup>+
    | None \<Rightarrow> \<exists>d. searched adj d \<and> set roots \<union> set visited \<subseteq> d"
  using assms
proof (induction adj roots visiting visited rule: detect_from.induct)
  case (1 adj visiting visited)
  then show ?case by auto
next
  case (2 adj root roots visiting visited)
  show ?case
  proof (cases "root \<in> set visited")
    case True
    with 2(1) [OF True 2(3,4)] show ?thesis
      by (auto split: option.splits)
  next
    case False
    have loop: "case cycle_loop adj (bs_insert root visiting) visited [(root, 0)] of
        (Some m, _, _) \<Rightarrow> (m, m) \<in> (edges_of adj)\<^sup>+
      | (None, visiting', visited') \<Rightarrow> set visiting' = {} \<and> searched adj (set visited')
          \<and> set visited \<subseteq> set visited' \<and> fst ` set [(root, 0 :: nat)] \<subseteq> set visited'"
      using 2(3,4) False by (intro cycle_loop_correct) auto
    obtain r visiting' visited' where res: "cycle_loop adj (bs_insert root visiting) visited [(root, 0)] = (r, visiting', visited')"
      by (metis prod_cases3)
    show ?thesis
    proof (cases r)
      case (Some m)
      with loop res False show ?thesis by simp
    next
      case None
      with loop res have after: "set visiting' = {}" "searched adj (set visited')" "set visited \<subseteq> set visited'" "root \<in> set visited'"
        by simp_all
      have "case detect_from adj roots visiting' visited' of
          Some m \<Rightarrow> (m, m) \<in> (edges_of adj)\<^sup>+
        | None \<Rightarrow> \<exists>d. searched adj d \<and> set roots \<union> set visited' \<subseteq> d"
        using res None by (intro 2(2) [OF False _ _ _ after(2,1)]) simp_all
      moreover have "detect_from adj (root # roots) visiting visited = detect_from adj roots visiting' visited'"
        using False res None by simp
      ultimately show ?thesis
        using after(3,4) by (auto split: option.splits)
    qed
  qed
qed

theorem detect_cycle_iff: "detect_cycle adj = None \<longleftrightarrow> acyclic (edges_of adj)"
proof -
  have start: "searched adj (set [])"
    by (simp add: searched_def acyclic_def)
  show ?thesis
  proof (cases "detect_cycle adj")
    case (Some m)
    with detect_from_correct [OF start, of "[]" "map fst adj"] show ?thesis
      by (auto simp: detect_cycle_def acyclic_def)
  next
    case None
    then obtain d where d: "searched adj d" "fst ` set adj \<subseteq> d"
      using detect_from_correct [OF start, of "[]" "map fst adj"] by (auto simp: detect_cycle_def)
    have "edges_of adj \<subseteq> edges_of adj \<inter> d \<times> d"
    proof
      fix p assume p: "p \<in> edges_of adj"
      obtain x y where xy: "p = (x, y)" by fastforce
      have "x \<in> fst ` set adj"
        using p children_absent [of x adj] by (cases "x \<in> fst ` set adj") (simp_all add: xy edges_of_def)
      with p d show "p \<in> edges_of adj \<inter> d \<times> d"
        by (auto simp: xy edges_of_def searched_def)
    qed
    with d(1) None show ?thesis
      by (auto simp: searched_def intro: acyclic_subset)
  qed
qed

section \<open>The reachable nodes are the reachable nodes\<close>

lemma reach_loop_invariant:
  "\<forall>n \<in> set reachable. set (children adj n) \<subseteq> set reachable \<union> set stack \<Longrightarrow>
   (let r = set (reach_loop adj reachable stack) in
      set reachable \<union> set stack \<subseteq> r \<and> (\<forall>n \<in> r. set (children adj n) \<subseteq> r)
      \<and> r \<subseteq> set reachable \<union> (edges_of adj)\<^sup>* `` set stack)"
proof (induction adj reachable stack rule: reach_loop.induct)
  case (1 adj reachable)
  then show ?case by (simp add: Let_def)
next
  case (2 adj reachable n stack)
  show ?case
  proof (cases "n \<in> set reachable")
    case True
    then have "\<forall>n \<in> set reachable. set (children adj n) \<subseteq> set reachable \<union> set stack"
      using 2(3) by auto
    from 2(1) [OF True this] True show ?thesis
      by (auto simp: Let_def reach_loop.simps(2))
  next
    case False
    have "\<forall>m \<in> set (bs_insert n reachable). set (children adj m) \<subseteq> set (bs_insert n reachable) \<union> set (children adj n @ stack)"
      using 2(3) by auto
    from 2(2) [OF False this]
    have *: "let r = set (reach_loop adj (bs_insert n reachable) (children adj n @ stack)) in
        set (bs_insert n reachable) \<union> set (children adj n @ stack) \<subseteq> r \<and> (\<forall>n \<in> r. set (children adj n) \<subseteq> r)
        \<and> r \<subseteq> set (bs_insert n reachable) \<union> (edges_of adj)\<^sup>* `` set (children adj n @ stack)" .
    define r where "r = set (reach_loop adj (bs_insert n reachable) (children adj n @ stack))"
    have "(edges_of adj)\<^sup>* `` set (children adj n) \<subseteq> (edges_of adj)\<^sup>* `` {n}"
      by (auto simp: edges_of_def intro: converse_rtrancl_into_rtrancl)
    then have upper: "set (bs_insert n reachable) \<union> (edges_of adj)\<^sup>* `` set (children adj n @ stack)
        \<subseteq> set reachable \<union> (edges_of adj)\<^sup>* `` set (n # stack)"
      by auto
    have r: "set (bs_insert n reachable) \<union> set (children adj n @ stack) \<subseteq> r" "\<forall>n \<in> r. set (children adj n) \<subseteq> r"
      "r \<subseteq> set (bs_insert n reachable) \<union> (edges_of adj)\<^sup>* `` set (children adj n @ stack)"
      using * by (simp_all add: Let_def r_def)
    have "set reachable \<union> set (n # stack) \<subseteq> r \<and> (\<forall>n \<in> r. set (children adj n) \<subseteq> r)
        \<and> r \<subseteq> set reachable \<union> (edges_of adj)\<^sup>* `` set (n # stack)"
      using r(1,2) subset_trans [OF r(3) upper] by simp
    with False show ?thesis
      by (simp add: Let_def reach_loop.simps(2) r_def)
  qed
qed

theorem reachable_nodes_iff: "set (reachable_nodes entries adj) = (edges_of adj)\<^sup>* `` set entries"
proof
  have inv: "let r = set (reach_loop adj [] entries) in
      set [] \<union> set entries \<subseteq> r \<and> (\<forall>n \<in> r. set (children adj n) \<subseteq> r) \<and> r \<subseteq> set [] \<union> (edges_of adj)\<^sup>* `` set entries"
    by (rule reach_loop_invariant) simp
  then show "set (reachable_nodes entries adj) \<subseteq> (edges_of adj)\<^sup>* `` set entries"
    by (simp add: reachable_nodes_def Let_def)
  have closed: "y \<in> set (reachable_nodes entries adj)" if "(x, y) \<in> (edges_of adj)\<^sup>*" "x \<in> set entries" for x y
    using that
  proof (induction rule: rtrancl_induct)
    case base
    with inv show ?case by (auto simp: reachable_nodes_def Let_def)
  next
    case (step y z)
    with inv show ?case by (auto simp: reachable_nodes_def Let_def edges_of_def)
  qed
  then show "(edges_of adj)\<^sup>* `` set entries \<subseteq> set (reachable_nodes entries adj)"
    by auto
qed

end
