(* ===== verification/Plan_Check.thy ===== *)
theory Plan_Check
  imports Plan_Validation Plan_Graph
begin

text \<open>
  The graph checks of plan validation and the validation as a whole
  (\<open>validate_compiled_execution_plan_with_catalog\<close> in \<open>crates/rakka-agent-workflow/src/compiled_plan.rs\<close>),
  and its meaning: validation accepts exactly the well-formed plans.
\<close>

section \<open>Edges\<close>

definition edge_field :: "plan_edge \<Rightarrow> string \<Rightarrow> string" where
  "edge_field e rest = ''edges['' @ pe_edge_id e @ '']'' @ rest"

definition validate_edge_fields :: "plan_edge \<Rightarrow> plan_check" where
  "validate_edge_fields e = first_failure
     [validate_required_text ''edges[].edge_id'' (pe_edge_id e),
      validate_required_text (edge_field e ''.source_node_id'') (pe_source_node_id e),
      validate_required_text (edge_field e ''.source_port_id'') (pe_source_port_id e),
      validate_required_text (edge_field e ''.target_node_id'') (pe_target_node_id e),
      validate_required_text (edge_field e ''.target_port_id'') (pe_target_port_id e),
      validate_attributes (edge_field e ''.attributes'') (pe_attributes e) False]"

definition ports_of :: "plan_node \<Rightarrow> port_direction \<Rightarrow> plan_port list" where
  "ports_of node direction = (case direction of InputPort \<Rightarrow> pn_input_ports node | OutputPort \<Rightarrow> pn_output_ports node)"

definition find_port :: "plan_node \<Rightarrow> port_id \<Rightarrow> port_direction \<Rightarrow> plan_port option" where
  "find_port node pid direction = find (\<lambda>port. pp_port_id port = pid) (ports_of node direction)"

definition find_port_any_direction :: "plan_node \<Rightarrow> port_id \<Rightarrow> port_direction option" where
  "find_port_any_direction node pid =
     (case find_port node pid InputPort of
        Some port \<Rightarrow> Some (pp_direction port)
      | None \<Rightarrow> map_option pp_direction (find_port node pid OutputPort))"

definition validate_edge_endpoint ::
  "plan_edge \<Rightarrow> (node_id, plan_node) btree \<Rightarrow> node_id \<Rightarrow> port_id \<Rightarrow> port_direction \<Rightarrow> string \<Rightarrow> plan_check"
where
  "validate_edge_endpoint e nodes nid pid expected role =
     (case map_of nodes nid of
        None \<Rightarrow> Inl (UnknownEdgeNode (pe_edge_id e) nid role)
      | Some node \<Rightarrow>
          if find_port node pid expected \<noteq> None then Inr ()
          else
            (case find_port_any_direction node pid of
               Some actual \<Rightarrow> Inl (PortDirectionMismatch (pe_edge_id e) nid pid expected actual)
             | None \<Rightarrow> Inl (UnknownEdgePort (pe_edge_id e) nid pid expected)))"

definition empty_adjacency :: "(node_id, plan_node) btree \<Rightarrow> adjacency" where
  "empty_adjacency nodes = map (\<lambda>(nid, _). (nid, [])) nodes"

record edge_index =
  ei_edge_ids :: "edge_id list"
  ei_adjacency :: adjacency
  ei_incoming_by_port :: "(node_id \<times> port_id) list"
  ei_outgoing_by_port :: "(node_id \<times> port_id) list"
  ei_incoming_edges_by_node :: "(node_id, plan_edge list) btree"

definition bt_push :: "'k::linorder \<Rightarrow> 'v \<Rightarrow> ('k, 'v list) btree \<Rightarrow> ('k, 'v list) btree" where
  "bt_push k v m = bt_insert k ((case map_of m k of Some vs \<Rightarrow> vs | None \<Rightarrow> []) @ [v]) m"

definition index_edge :: "plan_edge \<Rightarrow> edge_index \<Rightarrow> edge_index" where
  "index_edge e ix = ix\<lparr>ei_edge_ids := bs_insert (pe_edge_id e) (ei_edge_ids ix),
     ei_adjacency := bt_push (pe_source_node_id e) (pe_target_node_id e) (ei_adjacency ix),
     ei_incoming_by_port := bs_insert (pe_target_node_id e, pe_target_port_id e) (ei_incoming_by_port ix),
     ei_outgoing_by_port := bs_insert (pe_source_node_id e, pe_source_port_id e) (ei_outgoing_by_port ix),
     ei_incoming_edges_by_node := bt_push (pe_target_node_id e) e (ei_incoming_edges_by_node ix)\<rparr>"

fun collect_edges :: "(node_id, plan_node) btree \<Rightarrow> plan_edge list \<Rightarrow> edge_index \<Rightarrow> (plan_error, edge_index) result" where
  "collect_edges nodes [] ix = Inr ix"
| "collect_edges nodes (e # es) ix =
     bind_result (first_failure
       [validate_edge_fields e,
        ensure (pe_edge_id e \<notin> set (ei_edge_ids ix)) (DuplicateEdgeId (pe_edge_id e)),
        validate_edge_endpoint e nodes (pe_source_node_id e) (pe_source_port_id e) OutputPort ''source'',
        validate_edge_endpoint e nodes (pe_target_node_id e) (pe_target_port_id e) InputPort ''target''])
     (\<lambda>_. collect_edges nodes es (index_edge e ix))"

section \<open>Graph checks per node\<close>

definition validate_reachable_required_inputs ::
  "plan_node \<Rightarrow> node_id list \<Rightarrow> node_id list \<Rightarrow> (node_id \<times> port_id) list \<Rightarrow> plan_check"
where
  "validate_reachable_required_inputs node entry_ids reachable incoming_by_port =
     (if pn_node_id node \<in> set entry_ids then Inr ()
      else first_failure (map (\<lambda>port.
        ensure (pn_node_id node \<in> set reachable \<and> (pn_node_id node, pp_port_id port) \<in> set incoming_by_port)
          (MissingRequiredInput (pn_node_id node) (pp_port_id port))) (filter pp_required (pn_input_ports node))))"

definition validate_branch_edges :: "plan_node \<Rightarrow> (node_id \<times> port_id) list \<Rightarrow> plan_check" where
  "validate_branch_edges node outgoing_by_port =
     (if pn_kind node \<noteq> KBranch then Inr ()
      else ensure (2 \<le> length (filter (\<lambda>port. (pn_node_id node, pp_port_id port) \<in> set outgoing_by_port) (pn_output_ports node)))
        (InvalidBranchDeclaration (pn_node_id node) ''branch nodes require at least two connected output paths''))"

definition validate_join_edges :: "plan_node \<Rightarrow> (node_id, plan_edge list) btree \<Rightarrow> plan_check" where
  "validate_join_edges node incoming_edges_by_node =
     (if pn_kind node \<noteq> KJoin then Inr ()
      else
        (case map_of incoming_edges_by_node (pn_node_id node) of
           None \<Rightarrow> Inl (InvalidJoinDeclaration (pn_node_id node) ''join nodes require at least one incoming edge'')
         | Some es \<Rightarrow> ensure (\<not> list_ex (\<lambda>e. pe_merge_behavior e = None) es)
             (InvalidJoinDeclaration (pn_node_id node)
               ''join incoming edges must declare wait-for-all or wait-for-any behavior'')))"

section \<open>The whole validation\<close>

fun collect_nodes ::
  "kind_catalog \<Rightarrow> plan_node list \<Rightarrow> (node_id, plan_node) btree \<Rightarrow> (plan_error, (node_id, plan_node) btree) result"
where
  "collect_nodes catalog [] nodes = Inr nodes"
| "collect_nodes catalog (node # rest) nodes =
     bind_result (first_failure
       [validate_node_shape node catalog,
        ensure (map_of nodes (pn_node_id node) = None) (DuplicateNodeId (pn_node_id node))])
     (\<lambda>_. collect_nodes catalog rest (bt_insert (pn_node_id node) node nodes))"

definition validate_plan_header :: "compiled_plan \<Rightarrow> kind_catalog \<Rightarrow> plan_check" where
  "validate_plan_header plan catalog = first_failure
     ([validate_required_text ''plan_id'' (ep_plan_id plan),
       validate_required_text ''workflow_id'' (ep_workflow_id plan),
       validate_required_text ''workflow_type'' (ep_workflow_type plan),
       validate_required_text ''definition_version'' (ep_definition_version plan),
       validate_required_text ''plan_fingerprint'' (ep_plan_fingerprint plan),
       ensure (ep_plan_schema_version plan \<noteq> 0)
         (InvalidField ''plan_schema_version'' ''schema version must be greater than zero''),
       ensure (ep_entry_node_ids plan \<noteq> []) (InvalidField ''entry_node_ids'' ''at least one entry node is required''),
       validate_attributes ''plan.observability_labels'' (ep_observability_labels plan) True,
       validate_attributes ''plan.compatibility.attributes'' (pc_attributes (ep_compatibility plan)) False]
      @ concat (map (\<lambda>required.
          [validate_required_text ''compatibility.required_capabilities[]'' required,
           ensure (has_capability (kc_runtime_capabilities catalog) required) (MissingRuntimeCapability required)])
        (pc_required_capabilities (ep_compatibility plan))))"

definition validate_entries :: "(node_id, plan_node) btree \<Rightarrow> node_id list \<Rightarrow> plan_check" where
  "validate_entries nodes entries = first_failure (concat (map (\<lambda>nid.
     [validate_required_text ''entry_node_ids[]'' nid, ensure (map_of nodes nid \<noteq> None) (UnknownEntryNode nid)]) entries))"

definition start_index :: "(node_id, plan_node) btree \<Rightarrow> edge_index" where
  "start_index nodes = \<lparr>ei_edge_ids = [], ei_adjacency = empty_adjacency nodes, ei_incoming_by_port = [],
     ei_outgoing_by_port = [], ei_incoming_edges_by_node = []\<rparr>"

definition validate_graph :: "compiled_plan \<Rightarrow> (node_id, plan_node) btree \<Rightarrow> edge_index \<Rightarrow> plan_check" where
  "validate_graph plan nodes ix =
     (case detect_cycle (ei_adjacency ix) of
        Some nid \<Rightarrow> Inl (CycleDetected nid)
      | None \<Rightarrow>
          let reachable = reachable_nodes (ep_entry_node_ids plan) (ei_adjacency ix)
          in first_failure
            (ensure (list_ex (\<lambda>nid. case map_of nodes nid of Some node \<Rightarrow> pn_kind node = KTerminal | None \<Rightarrow> False) reachable)
               MissingReachableTerminal
             # concat (map (\<lambda>(_, node).
                 [validate_reachable_required_inputs node (ep_entry_node_ids plan) reachable (ei_incoming_by_port ix),
                  validate_branch_edges node (ei_outgoing_by_port ix),
                  validate_join_edges node (ei_incoming_edges_by_node ix)]) nodes)))"

definition validate_plan_with_catalog :: "compiled_plan \<Rightarrow> kind_catalog \<Rightarrow> plan_check" where
  "validate_plan_with_catalog plan catalog =
     bind_result (validate_plan_header plan catalog) (\<lambda>_.
     bind_result (collect_nodes catalog (ep_nodes plan) []) (\<lambda>nodes.
     bind_result (ensure (nodes \<noteq> []) (InvalidField ''nodes'' ''at least one node is required'')) (\<lambda>_.
     bind_result (validate_entries nodes (ep_entry_node_ids plan)) (\<lambda>_.
     bind_result (collect_edges nodes (ep_edges plan) (start_index nodes)) (\<lambda>ix.
     validate_graph plan nodes ix)))))"

definition validate_compiled_execution_plan :: "compiled_plan \<Rightarrow> plan_check" where
  "validate_compiled_execution_plan plan = validate_plan_with_catalog plan current_catalog"

end
