(* ===== verification/Plan_Typing.thy ===== *)
theory Plan_Typing
  imports Plan_Check
begin

text \<open>
  What it means for a plan to be well formed, stated without the order of the checks or the indexes
  validation builds, and the theorem that validation accepts exactly the well-formed plans.
\<close>

section \<open>Well-formed plans\<close>

definition nonblank :: "string \<Rightarrow> bool" where
  "nonblank s \<longleftrightarrow> (\<exists>c \<in> set s. \<not> ascii_whitespace c)"

definition attribute_ok :: "bool \<Rightarrow> string \<times> string \<Rightarrow> bool" where
  "attribute_ok hot = (\<lambda>(key, v). nonblank key \<and> length key \<le> attribute_value_max_bytes \<and> length v \<le> attribute_value_max_bytes
     \<and> \<not> label_value_contains_line_break v \<and> \<not> is_sensitive_attribute_key key \<and> \<not> looks_like_secret_value v
     \<and> (hot \<longrightarrow> key \<notin> set forbidden_hot_metric_fields \<and> \<not> looks_like_credential_binding_ref v))"

definition attributes_ok :: "bool \<Rightarrow> attributes \<Rightarrow> bool" where
  "attributes_ok hot attrs \<longleftrightarrow> list_all (attribute_ok hot) attrs"

definition target_ok :: "node_target \<Rightarrow> bool" where
  "target_ok t \<longleftrightarrow> nonblank (nt_target_type t) \<and> nonblank (nt_name t) \<and> pred_option nonblank (nt_address t)
     \<and> attributes_ok False (nt_attributes t)
     \<and> pred_option (\<lambda>v. v \<in> set effect_safety_class_labels) (map_of (nt_attributes t) ''agent_effect_safety_class'')
     \<and> pred_option (\<lambda>v. \<exists>n > 0. parse_u32 v = Some n) (map_of (nt_attributes t) ''agent_effect_max_attempts'')
     \<and> pred_option (\<lambda>v. nonblank v \<longrightarrow> \<not> target_class_reads_as_generation v) (map_of (nt_attributes t) ''target_class'')"

definition port_ok :: "port_direction \<Rightarrow> plan_port \<Rightarrow> bool" where
  "port_ok direction port \<longleftrightarrow> nonblank (pp_port_id port) \<and> nonblank (pp_payload_type port) \<and> pp_direction port = direction
     \<and> attributes_ok False (pp_attributes port)"

text \<open>
  A node declares the target, ports and iteration bound its kind asks for, and a credential binding and policy references
  only if its kind supports them. The descriptor's \<open>supports_config_ref\<close> plays no part.
\<close>

definition kind_ok :: "kind_descriptor \<Rightarrow> plan_node \<Rightarrow> bool" where
  "kind_ok d node \<longleftrightarrow> kd_available d \<and> (kd_requires_target d \<longleftrightarrow> pn_target node \<noteq> None)
     \<and> (pn_credential_binding_ref node \<noteq> None \<longrightarrow> kd_supports_credential_binding d)
     \<and> (pn_retry_policy_ref node \<noteq> None \<longrightarrow> kd_supports_retry_policy_ref d)
     \<and> (pn_timeout_policy_ref node \<noteq> None \<longrightarrow> kd_supports_timeout_policy_ref d)
     \<and> (pn_concurrency_policy_ref node \<noteq> None \<longrightarrow> kd_supports_concurrency_policy_ref d)
     \<and> accepts (kd_input_port_policy d) (length (pn_input_ports node))
     \<and> accepts (kd_output_port_policy d) (length (pn_output_ports node))
     \<and> list_all (port_ok InputPort) (pn_input_ports node) \<and> list_all (port_ok OutputPort) (pn_output_ports node)
     \<and> distinct (map pp_port_id (pn_input_ports node @ pn_output_ports node))
     \<and> (if kd_iterator_semantics d then \<exists>m. pn_iterator_policy node = Some m \<and> m \<noteq> 0 else pn_iterator_policy node = None)"

definition node_ok :: "kind_catalog \<Rightarrow> plan_node \<Rightarrow> bool" where
  "node_ok catalog node \<longleftrightarrow> nonblank (pn_node_id node) \<and> attributes_ok True (pn_observability_labels node)
     \<and> pred_option target_ok (pn_target node)
     \<and> pred_option (\<lambda>b. nonblank b \<and> \<not> looks_like_secret_value b) (pn_credential_binding_ref node)
     \<and> (\<exists>d. catalog_descriptor catalog (pn_kind node) = Some d \<and> kind_ok d node)"

text \<open>An edge leads from an output port to an input port of declared nodes; their payload types need not agree.\<close>

definition edge_ok :: "compiled_plan \<Rightarrow> plan_edge \<Rightarrow> bool" where
  "edge_ok plan e \<longleftrightarrow> nonblank (pe_edge_id e) \<and> nonblank (pe_source_node_id e) \<and> nonblank (pe_source_port_id e)
     \<and> nonblank (pe_target_node_id e) \<and> nonblank (pe_target_port_id e) \<and> attributes_ok False (pe_attributes e)
     \<and> (\<exists>n \<in> set (ep_nodes plan). pn_node_id n = pe_source_node_id e \<and> pe_source_port_id e \<in> pp_port_id ` set (pn_output_ports n))
     \<and> (\<exists>n \<in> set (ep_nodes plan). pn_node_id n = pe_target_node_id e \<and> pe_target_port_id e \<in> pp_port_id ` set (pn_input_ports n))"

definition plan_edges :: "compiled_plan \<Rightarrow> (node_id \<times> node_id) set" where
  "plan_edges plan = (\<lambda>e. (pe_source_node_id e, pe_target_node_id e)) ` set (ep_edges plan)"

definition header_ok :: "kind_catalog \<Rightarrow> compiled_plan \<Rightarrow> bool" where
  "header_ok catalog plan \<longleftrightarrow> nonblank (ep_plan_id plan) \<and> nonblank (ep_workflow_id plan) \<and> nonblank (ep_workflow_type plan)
     \<and> nonblank (ep_definition_version plan) \<and> nonblank (ep_plan_fingerprint plan) \<and> ep_plan_schema_version plan \<noteq> 0
     \<and> attributes_ok True (ep_observability_labels plan) \<and> attributes_ok False (pc_attributes (ep_compatibility plan))
     \<and> (\<forall>c \<in> set (pc_required_capabilities (ep_compatibility plan)). nonblank c \<and> has_capability (kc_runtime_capabilities catalog) c)"

definition wiring_ok :: "compiled_plan \<Rightarrow> plan_node \<Rightarrow> bool" where
  "wiring_ok plan node \<longleftrightarrow>
     (pn_node_id node \<notin> set (ep_entry_node_ids plan) \<longrightarrow>
        (\<forall>port \<in> set (pn_input_ports node). pp_required port \<longrightarrow>
           pn_node_id node \<in> (plan_edges plan)\<^sup>* `` set (ep_entry_node_ids plan)
           \<and> (\<exists>e \<in> set (ep_edges plan). pe_target_node_id e = pn_node_id node \<and> pe_target_port_id e = pp_port_id port)))
     \<and> (pn_kind node = KBranch \<longrightarrow>
        2 \<le> length (filter (\<lambda>port. \<exists>e \<in> set (ep_edges plan). pe_source_node_id e = pn_node_id node \<and> pe_source_port_id e = pp_port_id port)
          (pn_output_ports node)))
     \<and> (pn_kind node = KJoin \<longrightarrow>
        (\<exists>e \<in> set (ep_edges plan). pe_target_node_id e = pn_node_id node)
        \<and> (\<forall>e \<in> set (ep_edges plan). pe_target_node_id e = pn_node_id node \<longrightarrow> pe_merge_behavior e \<noteq> None))"

definition plan_ok :: "kind_catalog \<Rightarrow> compiled_plan \<Rightarrow> bool" where
  "plan_ok catalog plan \<longleftrightarrow> header_ok catalog plan
     \<and> (\<forall>node \<in> set (ep_nodes plan). node_ok catalog node \<and> wiring_ok plan node)
     \<and> distinct (map pn_node_id (ep_nodes plan))
     \<and> ep_entry_node_ids plan \<noteq> [] \<and> set (ep_entry_node_ids plan) \<subseteq> pn_node_id ` set (ep_nodes plan)
     \<and> (\<forall>e \<in> set (ep_edges plan). edge_ok plan e) \<and> distinct (map pe_edge_id (ep_edges plan))
     \<and> acyclic (plan_edges plan)
     \<and> (\<exists>node \<in> set (ep_nodes plan). pn_kind node = KTerminal
          \<and> pn_node_id node \<in> (plan_edges plan)\<^sup>* `` set (ep_entry_node_ids plan))"

section \<open>Each check decides its part\<close>

named_theorems plan_checks \<open>what each check of the validation accepts\<close>

lemma trim_nonblank: "trim s \<noteq> [] \<longleftrightarrow> nonblank s"
proof -
  have "trim s = [] \<longleftrightarrow> (\<forall>c \<in> set (dropWhile ascii_whitespace s). ascii_whitespace c)"
    by (simp add: trim_def)
  also have "\<dots> \<longleftrightarrow> (\<forall>c \<in> set s. ascii_whitespace c)"
    by (induction s) auto
  finally show ?thesis
    by (auto simp: nonblank_def)
qed

lemma validate_required_text_ok [plan_checks]: "is_ok (validate_required_text field s) \<longleftrightarrow> nonblank s"
  by (simp add: validate_required_text_def trim_nonblank)

lemma validate_attributes_ok [plan_checks]: "is_ok (validate_attributes scope attrs hot) \<longleftrightarrow> attributes_ok hot attrs"
proof -
  have "is_ok (validate_attribute scope hot p) \<longleftrightarrow> attribute_ok hot p" for p
    by (cases p) (auto simp: validate_attribute_def attribute_ok_def trim_nonblank)
  then show ?thesis
    by (simp add: validate_attributes_def attributes_ok_def list_all_iff)
qed

lemma validate_node_target_ok [plan_checks]: "is_ok (validate_node_target node t) \<longleftrightarrow> target_ok t"
proof -
  have attempts: "(case parse_u32 v of Some n \<Rightarrow> 0 < n | None \<Rightarrow> False) \<longleftrightarrow> (\<exists>n > 0. parse_u32 v = Some n)" for v
    by (auto split: option.splits)
  have target_class: "(trim v = [] \<or> \<not> target_class_reads_as_generation v) \<longleftrightarrow> (nonblank v \<longrightarrow> \<not> target_class_reads_as_generation v)" for v
    using trim_nonblank [of v] by auto
  show ?thesis
    unfolding validate_node_target_def target_ok_def validate_effect_target_attributes_def
    by (auto simp: plan_checks attempts target_class split: option.splits)
qed

lemma validate_port_ok [plan_checks]: "is_ok (validate_port node port direction) \<longleftrightarrow> port_ok direction port"
  by (auto simp: validate_port_def port_ok_def plan_checks)

lemma validate_port_list_ok:
  "validate_port_list node direction ports seen = Inr seen' \<longleftrightarrow>
     list_all (port_ok direction) ports \<and> distinct (map pp_port_id ports) \<and> set (map pp_port_id ports) \<inter> set seen = {}
     \<and> seen' = fold bs_insert (map pp_port_id ports) seen"
proof (induction ports arbitrary: seen)
  case (Cons port ports)
  show ?case
  proof (cases "pp_port_id port \<in> set seen")
    case False
    then show ?thesis
      by (simp add: bind_check_Inr plan_checks Cons.IH) blast
  qed (simp add: bind_check_Inr)
qed auto

lemma set_fold_bs_insert: "set (fold bs_insert xs seen) = set xs \<union> set seen"
  by (induction xs arbitrary: seen) auto

lemma validate_ports_ok [plan_checks]:
  "is_ok (validate_ports node) \<longleftrightarrow> list_all (port_ok InputPort) (pn_input_ports node) \<and> list_all (port_ok OutputPort) (pn_output_ports node)
     \<and> distinct (map pp_port_id (pn_input_ports node @ pn_output_ports node))"
  unfolding is_ok_unit validate_ports_def
  by (simp add: bind_result_Inr validate_port_list_ok set_fold_bs_insert) blast

lemma validate_iterator_policy_ok [plan_checks]:
  "is_ok (validate_iterator_policy node d) \<longleftrightarrow>
     (if kd_iterator_semantics d then \<exists>m. pn_iterator_policy node = Some m \<and> m \<noteq> 0 else pn_iterator_policy node = None)"
  by (simp add: validate_iterator_policy_def split: option.splits)

lemma validate_node_kind_ok [plan_checks]: "is_ok (validate_node_kind node d) \<longleftrightarrow> kind_ok d node"
  unfolding validate_node_kind_def kind_ok_def is_ok_first_failure list.pred_inject is_ok_ensure validate_ports_ok validate_iterator_policy_ok
  by (cases "pn_target node"; cases "pn_credential_binding_ref node"; cases "pn_retry_policy_ref node";
    cases "pn_timeout_policy_ref node"; cases "pn_concurrency_policy_ref node"; simp)

lemma validate_node_shape_ok [plan_checks]: "is_ok (validate_node_shape node catalog) \<longleftrightarrow> node_ok catalog node"
  unfolding validate_node_shape_def node_ok_def
  by (simp add: plan_checks split: option.splits)

section \<open>The indexes hold what their names say\<close>

lemma key_fresh: "f x \<notin> f ` A \<longleftrightarrow> (\<forall>k \<in> A. f k \<noteq> f x)"
  by (metis imageE imageI)

lemma collect_nodes_ok:
  "collect_nodes catalog ns m = Inr m' \<longleftrightarrow>
     (\<forall>n \<in> set ns. node_ok catalog n) \<and> distinct (map pn_node_id ns) \<and> (\<forall>n \<in> set ns. map_of m (pn_node_id n) = None)
     \<and> m' = fold (\<lambda>n. bt_insert (pn_node_id n) n) ns m"
proof (induction ns arbitrary: m)
  case (Cons n ns)
  have later: "(\<forall>k \<in> set ns. ((map_of m)(pn_node_id n \<mapsto> n)) (pn_node_id k) = None)
      \<longleftrightarrow> (\<forall>k \<in> set ns. map_of m (pn_node_id k) = None) \<and> pn_node_id n \<notin> pn_node_id ` set ns"
    unfolding key_fresh by (auto split: if_splits)
  show ?case
    unfolding collect_nodes.simps bind_check_Inr Cons.IH map_of_bt_insert later is_ok_first_failure
    by (auto simp: validate_node_shape_ok)
qed auto

lemma collected_nodes:
  assumes "distinct (map pn_node_id ns)" and "\<forall>n \<in> set ns. map_of m (pn_node_id n) = None" and "bt_ok m"
  shows "bt_ok (fold (\<lambda>n. bt_insert (pn_node_id n) n) ns m)
    \<and> set (fold (\<lambda>n. bt_insert (pn_node_id n) n) ns m) = set m \<union> (\<lambda>n. (pn_node_id n, n)) ` set ns"
  using assms
proof (induction ns arbitrary: m)
  case (Cons n ns)
  have ok: "bt_ok (bt_insert (pn_node_id n) n m)"
    using Cons.prems(3) by simp
  have ins: "set (bt_insert (pn_node_id n) n m) = insert (pn_node_id n, n) (set m)"
  proof -
    have "p \<in> set (bt_insert (pn_node_id n) n m) \<longleftrightarrow> p \<in> insert (pn_node_id n, n) (set m)" for p
      using bt_get_iff [OF ok, of "fst p" "snd p"] bt_get_iff [OF Cons.prems(3), of "fst p" "snd p"] Cons.prems(2)
      by (cases p) (auto split: if_splits)
    then show ?thesis by blast
  qed
  have "\<forall>k \<in> set ns. map_of (bt_insert (pn_node_id n) n m) (pn_node_id k) = None"
    using Cons.prems(1,2) key_fresh [of pn_node_id n "set ns"] by simp
  from Cons.IH [OF _ this ok] Cons.prems(1) ins show ?case
    by auto
qed simp

text \<open>The node map of a plan with distinct node ids.\<close>

definition node_map :: "compiled_plan \<Rightarrow> (node_id, plan_node) btree" where
  "node_map plan = fold (\<lambda>n. bt_insert (pn_node_id n) n) (ep_nodes plan) []"

lemma node_map_ok:
  assumes "distinct (map pn_node_id (ep_nodes plan))"
  shows "bt_ok (node_map plan)" "set (node_map plan) = (\<lambda>n. (pn_node_id n, n)) ` set (ep_nodes plan)"
  using collected_nodes [OF assms, of "[]"] by (simp_all add: node_map_def)

lemma node_map_get:
  assumes "distinct (map pn_node_id (ep_nodes plan))"
  shows "map_of (node_map plan) nid = Some n \<longleftrightarrow> n \<in> set (ep_nodes plan) \<and> pn_node_id n = nid"
  using bt_get_iff [OF node_map_ok(1) [OF assms], of nid n] node_map_ok(2) [OF assms] by auto

lemma node_map_None:
  assumes "distinct (map pn_node_id (ep_nodes plan))"
  shows "map_of (node_map plan) nid = None \<longleftrightarrow> nid \<notin> pn_node_id ` set (ep_nodes plan)"
  using node_map_ok(2) [OF assms] by (auto simp: map_of_eq_None_iff image_image)

lemma validate_edge_endpoint_ok:
  assumes "distinct (map pn_node_id (ep_nodes plan))"
  shows "is_ok (validate_edge_endpoint e (node_map plan) nid pid direction role) \<longleftrightarrow>
    (\<exists>n \<in> set (ep_nodes plan). pn_node_id n = nid \<and> pid \<in> pp_port_id ` set (ports_of n direction))"
proof (cases "map_of (node_map plan) nid")
  case None
  then show ?thesis
    using node_map_None [OF assms, of nid] by (auto simp: validate_edge_endpoint_def)
next
  case (Some n)
  then have n: "n \<in> set (ep_nodes plan)" "pn_node_id n = nid"
    using node_map_get [OF assms] by auto
  have unique: "k = n" if "k \<in> set (ep_nodes plan)" "pn_node_id k = nid" for k
    using node_map_get [OF assms, of nid k] Some that by simp
  have "find_port n pid direction \<noteq> None \<longleftrightarrow> pid \<in> pp_port_id ` set (ports_of n direction)"
    by (auto simp: find_port_def find_None_iff)
  then have "is_ok (validate_edge_endpoint e (node_map plan) nid pid direction role) \<longleftrightarrow> pid \<in> pp_port_id ` set (ports_of n direction)"
    using Some by (auto simp: validate_edge_endpoint_def split: option.splits)
  also have "\<dots> \<longleftrightarrow> (\<exists>n \<in> set (ep_nodes plan). pn_node_id n = nid \<and> pid \<in> pp_port_id ` set (ports_of n direction))"
    using n unique by blast
  finally show ?thesis .
qed

lemma edge_checks_ok:
  assumes "distinct (map pn_node_id (ep_nodes plan))"
  shows "is_ok (validate_edge_fields e)
      \<and> is_ok (validate_edge_endpoint e (node_map plan) (pe_source_node_id e) (pe_source_port_id e) OutputPort role)
      \<and> is_ok (validate_edge_endpoint e (node_map plan) (pe_target_node_id e) (pe_target_port_id e) InputPort role')
    \<longleftrightarrow> edge_ok plan e"
  by (simp add: validate_edge_endpoint_ok [OF assms] validate_edge_fields_def edge_ok_def plan_checks ports_of_def)

lemma collect_edges_ok:
  assumes distinct: "distinct (map pn_node_id (ep_nodes plan))"
  shows "collect_edges (node_map plan) es ix = Inr ix' \<longleftrightarrow>
    (\<forall>e \<in> set es. edge_ok plan e) \<and> distinct (map pe_edge_id es) \<and> (\<forall>e \<in> set es. pe_edge_id e \<notin> set (ei_edge_ids ix))
    \<and> ix' = fold index_edge es ix"
proof (induction es arbitrary: ix)
  case (Cons e es)
  have later: "(\<forall>k \<in> set es. pe_edge_id k \<notin> set (ei_edge_ids (index_edge e ix)))
      \<longleftrightarrow> (\<forall>k \<in> set es. pe_edge_id k \<notin> set (ei_edge_ids ix)) \<and> pe_edge_id e \<notin> pe_edge_id ` set es"
    unfolding key_fresh by (auto simp: index_edge_def)
  have checks: "list_all is_ok
      [validate_edge_fields e, ensure (pe_edge_id e \<notin> set (ei_edge_ids ix)) (DuplicateEdgeId (pe_edge_id e)),
       validate_edge_endpoint e (node_map plan) (pe_source_node_id e) (pe_source_port_id e) OutputPort ''source'',
       validate_edge_endpoint e (node_map plan) (pe_target_node_id e) (pe_target_port_id e) InputPort ''target'']
      \<longleftrightarrow> edge_ok plan e \<and> pe_edge_id e \<notin> set (ei_edge_ids ix)"
    using edge_checks_ok [OF distinct, of e "''source''" "''target''"] by auto
  show ?case
    unfolding collect_edges.simps bind_check_Inr Cons.IH is_ok_first_failure checks later by auto
qed auto

lemma fold_index_ports:
  "set (ei_incoming_by_port (fold index_edge es ix)) = set (ei_incoming_by_port ix) \<union> (\<lambda>e. (pe_target_node_id e, pe_target_port_id e)) ` set es"
  "set (ei_outgoing_by_port (fold index_edge es ix)) = set (ei_outgoing_by_port ix) \<union> (\<lambda>e. (pe_source_node_id e, pe_source_port_id e)) ` set es"
  by (induction es arbitrary: ix) (auto simp: index_edge_def)

lemma children_push: "set (children (bt_push k v m) n) = set (children m n) \<union> (if n = k then {v} else {})"
  by (cases "n = k"; cases "map_of m k") (auto simp: children_def bt_push_def)

lemma fold_index_adjacency:
  "edges_of (ei_adjacency (fold index_edge es ix)) = edges_of (ei_adjacency ix) \<union> (\<lambda>e. (pe_source_node_id e, pe_target_node_id e)) ` set es"
proof (induction es arbitrary: ix)
  case (Cons e es)
  have "edges_of (ei_adjacency (index_edge e ix)) = insert (pe_source_node_id e, pe_target_node_id e) (edges_of (ei_adjacency ix))"
    by (auto simp: edges_of_def index_edge_def children_push split: if_splits)
  then show ?case
    by (simp add: Cons.IH)
qed simp

definition incoming_of :: "edge_index \<Rightarrow> node_id \<Rightarrow> plan_edge list" where
  "incoming_of ix n = (case map_of (ei_incoming_edges_by_node ix) n of Some es \<Rightarrow> es | None \<Rightarrow> [])"

lemma fold_index_incoming:
  "set (incoming_of (fold index_edge es ix) n) = set (incoming_of ix n) \<union> {e \<in> set es. pe_target_node_id e = n}
   \<and> (map_of (ei_incoming_edges_by_node (fold index_edge es ix)) n = None \<longleftrightarrow>
        map_of (ei_incoming_edges_by_node ix) n = None \<and> (\<forall>e \<in> set es. pe_target_node_id e \<noteq> n))"
proof (induction es arbitrary: ix)
  case (Cons e es)
  have "set (incoming_of (index_edge e ix) n) = set (incoming_of ix n) \<union> (if pe_target_node_id e = n then {e} else {})"
    by (auto simp: incoming_of_def index_edge_def bt_push_def split: option.splits)
  moreover have "map_of (ei_incoming_edges_by_node (index_edge e ix)) n = None \<longleftrightarrow>
      map_of (ei_incoming_edges_by_node ix) n = None \<and> pe_target_node_id e \<noteq> n"
    by (auto simp: index_edge_def bt_push_def)
  ultimately show ?case
    by (auto simp: Cons.IH)
qed simp

lemma start_index_empty:
  "set (ei_incoming_by_port (start_index nodes)) = {}" "set (ei_outgoing_by_port (start_index nodes)) = {}"
  "edges_of (ei_adjacency (start_index nodes)) = {}" "incoming_of (start_index nodes) n = []"
  "map_of (ei_incoming_edges_by_node (start_index nodes)) n = None" "ei_edge_ids (start_index nodes) = []"
proof -
  have "children (empty_adjacency nodes) k = []" for k
    by (induction nodes) (auto simp: empty_adjacency_def children_def)
  then show "edges_of (ei_adjacency (start_index nodes)) = {}"
    by (simp add: start_index_def edges_of_def)
qed (simp_all add: start_index_def incoming_of_def)

definition plan_index :: "compiled_plan \<Rightarrow> edge_index" where
  "plan_index plan = fold index_edge (ep_edges plan) (start_index (node_map plan))"

lemma plan_index_facts:
  "set (ei_incoming_by_port (plan_index plan)) = (\<lambda>e. (pe_target_node_id e, pe_target_port_id e)) ` set (ep_edges plan)"
  "set (ei_outgoing_by_port (plan_index plan)) = (\<lambda>e. (pe_source_node_id e, pe_source_port_id e)) ` set (ep_edges plan)"
  "edges_of (ei_adjacency (plan_index plan)) = plan_edges plan"
  "set (incoming_of (plan_index plan) n) = {e \<in> set (ep_edges plan). pe_target_node_id e = n}"
  "map_of (ei_incoming_edges_by_node (plan_index plan)) n = None \<longleftrightarrow> (\<forall>e \<in> set (ep_edges plan). pe_target_node_id e \<noteq> n)"
  using fold_index_incoming [of "ep_edges plan" "start_index (node_map plan)" n]
  by (simp_all add: plan_index_def fold_index_ports fold_index_adjacency start_index_empty plan_edges_def)

section \<open>Validation accepts exactly the well-formed plans\<close>

lemma wiring_checks_ok:
  "is_ok (validate_reachable_required_inputs node (ep_entry_node_ids plan) (reachable_nodes (ep_entry_node_ids plan) (ei_adjacency (plan_index plan)))
       (ei_incoming_by_port (plan_index plan)))
     \<and> is_ok (validate_branch_edges node (ei_outgoing_by_port (plan_index plan)))
     \<and> is_ok (validate_join_edges node (ei_incoming_edges_by_node (plan_index plan)))
   \<longleftrightarrow> wiring_ok plan node"
proof -
  have targets: "(pn_node_id node, pp_port_id port) \<in> set (ei_incoming_by_port (plan_index plan)) \<longleftrightarrow>
      (\<exists>e \<in> set (ep_edges plan). pe_target_node_id e = pn_node_id node \<and> pe_target_port_id e = pp_port_id port)" for port
    by (auto simp: plan_index_facts intro: rev_image_eqI)
  have inputs: "is_ok (validate_reachable_required_inputs node (ep_entry_node_ids plan)
        (reachable_nodes (ep_entry_node_ids plan) (ei_adjacency (plan_index plan))) (ei_incoming_by_port (plan_index plan)))
      \<longleftrightarrow> (pn_node_id node \<notin> set (ep_entry_node_ids plan) \<longrightarrow>
        (\<forall>port \<in> set (pn_input_ports node). pp_required port \<longrightarrow>
           pn_node_id node \<in> (plan_edges plan)\<^sup>* `` set (ep_entry_node_ids plan)
           \<and> (\<exists>e \<in> set (ep_edges plan). pe_target_node_id e = pn_node_id node \<and> pe_target_port_id e = pp_port_id port)))"
    unfolding validate_reachable_required_inputs_def reachable_nodes_iff plan_index_facts(3) targets
    by (auto simp: list_all_iff)
  have ports: "(pn_node_id node, pp_port_id port) \<in> set (ei_outgoing_by_port (plan_index plan)) \<longleftrightarrow>
      (\<exists>e \<in> set (ep_edges plan). pe_source_node_id e = pn_node_id node \<and> pe_source_port_id e = pp_port_id port)" for port
    by (auto simp: plan_index_facts intro: rev_image_eqI)
  have branch: "is_ok (validate_branch_edges node (ei_outgoing_by_port (plan_index plan))) \<longleftrightarrow> (pn_kind node = KBranch \<longrightarrow>
        2 \<le> length (filter (\<lambda>port. \<exists>e \<in> set (ep_edges plan). pe_source_node_id e = pn_node_id node \<and> pe_source_port_id e = pp_port_id port)
          (pn_output_ports node)))"
    by (simp add: validate_branch_edges_def ports)
  have join: "is_ok (validate_join_edges node (ei_incoming_edges_by_node (plan_index plan))) \<longleftrightarrow> (pn_kind node = KJoin \<longrightarrow>
        (\<exists>e \<in> set (ep_edges plan). pe_target_node_id e = pn_node_id node)
        \<and> (\<forall>e \<in> set (ep_edges plan). pe_target_node_id e = pn_node_id node \<longrightarrow> pe_merge_behavior e \<noteq> None))"
  proof (cases "map_of (ei_incoming_edges_by_node (plan_index plan)) (pn_node_id node)")
    case None
    then show ?thesis
      using plan_index_facts(5) [of plan "pn_node_id node"] by (simp add: validate_join_edges_def)
  next
    case (Some es)
    then have "set es = {e \<in> set (ep_edges plan). pe_target_node_id e = pn_node_id node}"
      using plan_index_facts(4) [of plan "pn_node_id node"] by (simp add: incoming_of_def)
    then show ?thesis
      using Some plan_index_facts(5) [of plan "pn_node_id node"] by (auto simp: validate_join_edges_def list_ex_iff)
  qed
  show ?thesis
    unfolding inputs branch join wiring_ok_def by blast
qed

lemma validate_plan_header_ok:
  "is_ok (validate_plan_header plan catalog) \<longleftrightarrow> header_ok catalog plan \<and> ep_entry_node_ids plan \<noteq> []"
  unfolding validate_plan_header_def is_ok_first_failure list_all_append list_all_iff header_ok_def
  by (auto simp: plan_checks)

lemma validate_entries_ok:
  assumes "distinct (map pn_node_id (ep_nodes plan))"
    and "\<forall>node \<in> set (ep_nodes plan). nonblank (pn_node_id node)"
  shows "is_ok (validate_entries (node_map plan) entries) \<longleftrightarrow> set entries \<subseteq> pn_node_id ` set (ep_nodes plan)"
  using assms(2) by (induction entries) (auto simp: validate_entries_def plan_checks node_map_None [OF assms(1)])

lemma validate_graph_ok:
  assumes "distinct (map pn_node_id (ep_nodes plan))"
  shows "is_ok (validate_graph plan (node_map plan) (plan_index plan)) \<longleftrightarrow>
    acyclic (plan_edges plan) \<and> (\<forall>node \<in> set (ep_nodes plan). wiring_ok plan node)
    \<and> (\<exists>node \<in> set (ep_nodes plan). pn_kind node = KTerminal
          \<and> pn_node_id node \<in> (plan_edges plan)\<^sup>* `` set (ep_entry_node_ids plan))"
proof (cases "detect_cycle (ei_adjacency (plan_index plan))")
  case None
  define reachable where "reachable = reachable_nodes (ep_entry_node_ids plan) (ei_adjacency (plan_index plan))"
  have reachable: "set reachable = (plan_edges plan)\<^sup>* `` set (ep_entry_node_ids plan)"
    by (simp add: reachable_def reachable_nodes_iff plan_index_facts)
  have found: "(case n of Some node \<Rightarrow> pn_kind node = KTerminal | None \<Rightarrow> False) \<longleftrightarrow> (\<exists>node. n = Some node \<and> pn_kind node = KTerminal)" for n
    by (cases n) simp_all
  have "list_ex (\<lambda>nid. case map_of (node_map plan) nid of Some node \<Rightarrow> pn_kind node = KTerminal | None \<Rightarrow> False) reachable
      \<longleftrightarrow> (\<exists>nid \<in> set reachable. \<exists>node. map_of (node_map plan) nid = Some node \<and> pn_kind node = KTerminal)"
    unfolding list_ex_iff found ..
  also have "\<dots> \<longleftrightarrow> (\<exists>node \<in> set (ep_nodes plan). pn_kind node = KTerminal \<and> pn_node_id node \<in> set reachable)"
    unfolding node_map_get [OF assms] by blast
  finally have terminal: "list_ex (\<lambda>nid. case map_of (node_map plan) nid of Some node \<Rightarrow> pn_kind node = KTerminal | None \<Rightarrow> False) reachable
      \<longleftrightarrow> (\<exists>node \<in> set (ep_nodes plan). pn_kind node = KTerminal \<and> pn_node_id node \<in> set reachable)" .
  have nodes: "list_all is_ok (concat (map (\<lambda>(_, node).
       [validate_reachable_required_inputs node (ep_entry_node_ids plan) reachable (ei_incoming_by_port (plan_index plan)),
        validate_branch_edges node (ei_outgoing_by_port (plan_index plan)),
        validate_join_edges node (ei_incoming_edges_by_node (plan_index plan))]) (node_map plan)))
      \<longleftrightarrow> (\<forall>p \<in> set (node_map plan). wiring_ok plan (snd p))"
    unfolding wiring_checks_ok [symmetric] reachable_def by (auto simp: list_all_iff)
  have graph: "is_ok (validate_graph plan (node_map plan) (plan_index plan)) \<longleftrightarrow>
      (\<exists>node \<in> set (ep_nodes plan). pn_kind node = KTerminal \<and> pn_node_id node \<in> set reachable)
      \<and> (\<forall>p \<in> set (node_map plan). wiring_ok plan (snd p))"
    unfolding validate_graph_def None option.case Let_def reachable_def [symmetric] is_ok_first_failure list.pred_inject is_ok_ensure
      terminal nodes ..
  show ?thesis
    using None detect_cycle_iff [of "ei_adjacency (plan_index plan)"]
    unfolding graph reachable node_map_ok(2) [OF assms] plan_index_facts(3) by auto
next
  case (Some nid)
  then have "\<not> acyclic (plan_edges plan)"
    using detect_cycle_iff [of "ei_adjacency (plan_index plan)"] by (simp add: plan_index_facts)
  then show ?thesis
    using Some by (simp add: validate_graph_def)
qed

text \<open>
  A config reference is never looked at: giving any nodes of a plan any config references changes nothing, although
  the catalog says which kinds may use one.
\<close>

lemma config_ref_unchecked:
  fixes c :: "plan_node \<Rightarrow> artifact_ref option" and plan :: compiled_plan
  defines "plan' \<equiv> plan\<lparr>ep_nodes := map (\<lambda>n. n\<lparr>pn_config_ref := c n\<rparr>) (ep_nodes plan)\<rparr>"
  shows "plan_ok catalog plan' \<longleftrightarrow> plan_ok catalog plan"
proof -
  have edges: "plan_edges plan' = plan_edges plan"
    by (simp add: plan_edges_def plan'_def)
  have node: "node_ok catalog (n\<lparr>pn_config_ref := x\<rparr>) \<longleftrightarrow> node_ok catalog n" for n x
    by (simp add: node_ok_def kind_ok_def)
  have wiring: "wiring_ok plan' (n\<lparr>pn_config_ref := x\<rparr>) \<longleftrightarrow> wiring_ok plan n" for n x
    unfolding wiring_ok_def edges by (simp add: plan'_def)
  have edge: "edge_ok plan' e \<longleftrightarrow> edge_ok plan e" for e
    unfolding edge_ok_def by (simp add: plan'_def)
  have header: "header_ok catalog plan' \<longleftrightarrow> header_ok catalog plan"
    by (simp add: header_ok_def plan'_def)
  show ?thesis
    unfolding plan_ok_def edges edge header
    by (simp add: plan'_def comp_def image_image wiring [unfolded plan'_def] node)
qed

lemma validation_decides: "is_ok (validate_plan_with_catalog plan catalog) \<longleftrightarrow> plan_ok catalog plan"
proof (cases "header_ok catalog plan \<and> ep_entry_node_ids plan \<noteq> []
    \<and> (\<forall>node \<in> set (ep_nodes plan). node_ok catalog node) \<and> distinct (map pn_node_id (ep_nodes plan))")
  case True
  then have distinct: "distinct (map pn_node_id (ep_nodes plan))" and entries: "ep_entry_node_ids plan \<noteq> []"
    by simp_all
  have "validate_plan_header plan catalog = Inr ()"
    using True validate_plan_header_ok [of plan catalog] by (simp add: is_ok_unit)
  moreover have "collect_nodes catalog (ep_nodes plan) [] = Inr (node_map plan)"
    using True collect_nodes_ok [of catalog "ep_nodes plan" "[]"] by (simp add: node_map_def)
  moreover have "is_ok (validate_entries (node_map plan) (ep_entry_node_ids plan))
      \<longleftrightarrow> set (ep_entry_node_ids plan) \<subseteq> pn_node_id ` set (ep_nodes plan)"
    using True by (intro validate_entries_ok) (simp_all add: node_ok_def)
  moreover have "node_map plan \<noteq> []" if "set (ep_entry_node_ids plan) \<subseteq> pn_node_id ` set (ep_nodes plan)"
    using that entries node_map_ok(2) [OF distinct] by (cases "ep_entry_node_ids plan") auto
  moreover have "collect_edges (node_map plan) (ep_edges plan) (start_index (node_map plan)) = Inr ix \<longleftrightarrow>
      (\<forall>e \<in> set (ep_edges plan). edge_ok plan e) \<and> distinct (map pe_edge_id (ep_edges plan)) \<and> ix = plan_index plan" for ix
    unfolding collect_edges_ok [OF distinct] plan_index_def by (auto simp: start_index_empty)
  ultimately have "validate_plan_with_catalog plan catalog = Inr () \<longleftrightarrow>
      set (ep_entry_node_ids plan) \<subseteq> pn_node_id ` set (ep_nodes plan) \<and> (\<forall>e \<in> set (ep_edges plan). edge_ok plan e)
      \<and> distinct (map pe_edge_id (ep_edges plan)) \<and> is_ok (validate_graph plan (node_map plan) (plan_index plan))"
    unfolding validate_plan_with_catalog_def bind_check_Inr bind_result_Inr by (auto simp: is_ok_unit ensure_def)
  moreover note validate_graph_ok [OF distinct]
  ultimately show ?thesis
    using True unfolding is_ok_unit plan_ok_def by auto
next
  case False
  then have "\<not> plan_ok catalog plan"
    by (auto simp: plan_ok_def)
  moreover have "\<not> (is_ok (validate_plan_header plan catalog) \<and> collect_nodes catalog (ep_nodes plan) [] = Inr nodes)" for nodes
    using False validate_plan_header_ok [of plan catalog] collect_nodes_ok [of catalog "ep_nodes plan" "[]" nodes] by auto
  then have "validate_plan_with_catalog plan catalog \<noteq> Inr ()"
    unfolding validate_plan_with_catalog_def bind_check_Inr bind_result_Inr by blast
  ultimately show ?thesis
    by (simp add: is_ok_unit)
qed

section \<open>Properties\<close>

text \<open>C38: \<open>validate_compiled_execution_plan_with_catalog\<close> accepts exactly the plans that satisfy \<open>plan_ok\<close>. All
  required texts are filled in, attributes and labels are within their bounds and carry no secrets, and the plan asks only
  for capabilities the runtime has. Every node is of an available kind; it has a target exactly if its kind requires one, a
  credential binding or a retry, timeout or concurrency policy only if its kind supports it, a positive iteration bound
  exactly if its kind iterates, as many ports as its kind asks for, and port ids distinct within the node. Every edge leads
  from an output port to an input port of declared nodes; node ids and edge ids are unique; there are entry nodes, all
  declared; the graph is acyclic and a terminal node is reachable from the entries; a node that is not an entry and has
  required inputs is reachable, with all of these connected; a branch has two connected outputs; a join has an incoming
  edge and every edge into it says how it merges. Nothing else is asked: config references, equal payload types at the two
  ends of an edge, and port ids distinct across nodes are not checked.\<close>

theorem plan_validation_exact: "is_ok (validate_plan_with_catalog plan catalog) \<longleftrightarrow> plan_ok catalog plan"
  by (rule validation_decides)

end
