(* ===== verification/Graph_State.thy ===== *)
theory Graph_State
  imports Plan_Typing
begin

text \<open>
  The durable state of one run of a compiled graph (\<open>graph_state.rs\<close>): the state of every node, the selected
  branch paths, the loop instances, the terminal status, and the projection a query returns. Timestamps are
  milliseconds; artifact references are opaque.
\<close>

section \<open>Statuses and reasons\<close>

datatype node_status =
  GPending | GRunnable | GRunning | GWaiting | GCompleted | GSkipped | GFailed | GCancelled | GTerminal

fun node_status_label :: "node_status \<Rightarrow> string" where
  "node_status_label GPending = ''pending''"
| "node_status_label GRunnable = ''runnable''"
| "node_status_label GRunning = ''running''"
| "node_status_label GWaiting = ''waiting''"
| "node_status_label GCompleted = ''completed''"
| "node_status_label GSkipped = ''skipped''"
| "node_status_label GFailed = ''failed''"
| "node_status_label GCancelled = ''cancelled''"
| "node_status_label GTerminal = ''terminal''"

datatype graph_terminal_status = RunCompleted | RunFailed | RunCancelled

fun terminal_status_label :: "graph_terminal_status \<Rightarrow> string" where
  "terminal_status_label RunCompleted = ''completed''"
| "terminal_status_label RunFailed = ''failed''"
| "terminal_status_label RunCancelled = ''cancelled''"

datatype wait_reason =
  WaitDependency | WaitEffect | WaitTimer | WaitHuman | WaitChildWorkflow | WaitSignal | WaitReconciliation

fun wait_reason_label :: "wait_reason \<Rightarrow> string" where
  "wait_reason_label WaitDependency = ''dependency''"
| "wait_reason_label WaitEffect = ''effect''"
| "wait_reason_label WaitTimer = ''timer''"
| "wait_reason_label WaitHuman = ''human''"
| "wait_reason_label WaitChildWorkflow = ''child-workflow''"
| "wait_reason_label WaitSignal = ''signal''"
| "wait_reason_label WaitReconciliation = ''reconciliation''"

section \<open>Nodes, loops and runs\<close>

record graph_node_state =
  gn_node_id :: node_id
  gn_kind :: node_kind
  gn_status :: node_status
  gn_attempt :: u32
  gn_effect_generation :: u32
  gn_dependencies_ready :: bool
  gn_input_refs :: "(port_id, artifact_ref) btree"
  gn_output_refs :: "(port_id, artifact_ref) btree"
  gn_scheduled_effect_ids :: "string list"
  gn_timer_ids :: "string list"
  gn_checkpoint_ids :: "string list"
  gn_wait_reason :: "wait_reason option"
  gn_error_code :: "string option"
  gn_created_at :: u64
  gn_updated_at :: u64
  gn_started_at :: "u64 option"
  gn_completed_at :: "u64 option"

definition node_state_new :: "node_id \<Rightarrow> node_kind \<Rightarrow> u64 \<Rightarrow> graph_node_state" where
  "node_state_new nid kind created_at = \<lparr>gn_node_id = nid, gn_kind = kind, gn_status = GPending, gn_attempt = 0,
     gn_effect_generation = 0, gn_dependencies_ready = False, gn_input_refs = [], gn_output_refs = [],
     gn_scheduled_effect_ids = [], gn_timer_ids = [], gn_checkpoint_ids = [], gn_wait_reason = None, gn_error_code = None,
     gn_created_at = created_at, gn_updated_at = created_at, gn_started_at = None, gn_completed_at = None\<rparr>"

record loop_instance =
  li_node_id :: node_id
  li_iteration_index :: u32
  li_status :: node_status
  li_item_ref :: "artifact_ref option"
  li_output_refs :: "(port_id, artifact_ref) btree"
  li_created_at :: u64
  li_completed_at :: "u64 option"

definition loop_instance_new :: "node_id \<Rightarrow> u32 \<Rightarrow> u64 \<Rightarrow> loop_instance" where
  "loop_instance_new nid i created_at = \<lparr>li_node_id = nid, li_iteration_index = i, li_status = GPending, li_item_ref = None,
     li_output_refs = [], li_created_at = created_at, li_completed_at = None\<rparr>"

record blocked_reason =
  br_code :: string
  br_detail :: "string option"

definition current_graph_schema_version :: u32 where
  "current_graph_schema_version = 2"

record graph_run_state =
  gr_plan_id :: string
  gr_plan_fingerprint :: string
  gr_schema_version :: u32
  gr_node_states :: "(node_id, graph_node_state) btree"
  gr_selected_branch_paths :: "(node_id, edge_id list) btree"
  gr_loop_instances :: "loop_instance list"
  gr_blocked_reason :: "blocked_reason option"
  gr_output_refs :: "(port_id, artifact_ref) btree"
  gr_scheduler_revision :: u64
  gr_last_event_sequence :: u64
  gr_terminal_status :: "graph_terminal_status option"

definition run_state_new :: "string \<Rightarrow> string \<Rightarrow> graph_run_state" where
  "run_state_new plan_id fingerprint = \<lparr>gr_plan_id = plan_id, gr_plan_fingerprint = fingerprint,
     gr_schema_version = current_graph_schema_version, gr_node_states = [], gr_selected_branch_paths = [],
     gr_loop_instances = [], gr_blocked_reason = None, gr_output_refs = [], gr_scheduler_revision = 0,
     gr_last_event_sequence = 0, gr_terminal_status = None\<rparr>"

section \<open>The query projection\<close>

record node_projection =
  np_node_id :: node_id
  np_kind :: node_kind
  np_status :: node_status
  np_wait_reason :: "wait_reason option"
  np_error_code :: "string option"

definition from_node_state :: "graph_node_state \<Rightarrow> node_projection" where
  "from_node_state n = \<lparr>np_node_id = gn_node_id n, np_kind = gn_kind n, np_status = gn_status n,
     np_wait_reason = gn_wait_reason n, np_error_code = gn_error_code n\<rparr>"

record run_projection =
  rp_plan_id :: string
  rp_plan_fingerprint :: string
  rp_graph_schema_version :: u32
  rp_scheduler_revision :: u64
  rp_last_event_sequence :: u64
  rp_terminal_status :: "graph_terminal_status option"
  rp_blocked_reason_code :: "string option"
  rp_node_count :: nat
  rp_runnable_node_count :: nat
  rp_running_node_count :: nat
  rp_waiting_node_count :: nat
  rp_completed_node_count :: nat
  rp_skipped_node_count :: nat
  rp_failed_node_count :: nat
  rp_cancelled_node_count :: nat
  rp_terminal_node_count :: nat
  rp_nodes :: "node_projection list"

definition count_nodes_by_status :: "node_projection list \<Rightarrow> node_status \<Rightarrow> nat" where
  "count_nodes_by_status nodes status = length (filter (\<lambda>n. np_status n = status) nodes)"

definition from_graph_state :: "graph_run_state \<Rightarrow> run_projection" where
  "from_graph_state graph =
     (let nodes = map (\<lambda>(_, n). from_node_state n) (gr_node_states graph)
      in \<lparr>rp_plan_id = gr_plan_id graph, rp_plan_fingerprint = gr_plan_fingerprint graph,
          rp_graph_schema_version = gr_schema_version graph, rp_scheduler_revision = gr_scheduler_revision graph,
          rp_last_event_sequence = gr_last_event_sequence graph, rp_terminal_status = gr_terminal_status graph,
          rp_blocked_reason_code = map_option br_code (gr_blocked_reason graph),
          rp_node_count = length nodes,
          rp_runnable_node_count = count_nodes_by_status nodes GRunnable,
          rp_running_node_count = count_nodes_by_status nodes GRunning,
          rp_waiting_node_count = count_nodes_by_status nodes GWaiting,
          rp_completed_node_count = count_nodes_by_status nodes GCompleted,
          rp_skipped_node_count = count_nodes_by_status nodes GSkipped,
          rp_failed_node_count = count_nodes_by_status nodes GFailed,
          rp_cancelled_node_count = count_nodes_by_status nodes GCancelled,
          rp_terminal_node_count = count_nodes_by_status nodes GTerminal,
          rp_nodes = nodes\<rparr>)"

lemma projection_counts:
  "rp_node_count (from_graph_state g) = count_nodes_by_status (rp_nodes (from_graph_state g)) GPending
     + rp_runnable_node_count (from_graph_state g) + rp_running_node_count (from_graph_state g)
     + rp_waiting_node_count (from_graph_state g) + rp_completed_node_count (from_graph_state g)
     + rp_skipped_node_count (from_graph_state g) + rp_failed_node_count (from_graph_state g)
     + rp_cancelled_node_count (from_graph_state g) + rp_terminal_node_count (from_graph_state g)"
proof -
  have "length ns = count_nodes_by_status ns GPending + count_nodes_by_status ns GRunnable + count_nodes_by_status ns GRunning
      + count_nodes_by_status ns GWaiting + count_nodes_by_status ns GCompleted + count_nodes_by_status ns GSkipped
      + count_nodes_by_status ns GFailed + count_nodes_by_status ns GCancelled + count_nodes_by_status ns GTerminal" for ns
  proof (induction ns)
    case (Cons n ns)
    then show ?case
      by (cases "np_status n") (simp_all add: count_nodes_by_status_def)
  qed (simp add: count_nodes_by_status_def)
  then show ?thesis
    by (simp add: from_graph_state_def Let_def)
qed

end
