(* ===== verification/Graph_Edges.thy ===== *)
theory Graph_Edges
  imports Graph_State
begin

text \<open>
  How the graph scheduler reads a plan and a state (\<open>graph_scheduler.rs\<close>): the checks every operation starts with,
  which edges are satisfied or dead, which pending nodes are ready and which must be skipped.
\<close>

section \<open>Errors\<close>

datatype scheduler_error =
    InvalidCompiledPlan string string
  | PlanStateMismatch string string
  | MissingNodeState node_id
  | UnknownNode node_id
  | InvalidNodeTransition node_id node_status node_status
  | InvalidBranchSelection node_id string
  | InvalidIteratorTransition node_id string
  | TerminalGraph graph_terminal_status
  | EmptyCauseCode node_id
  | UnsupportedSchemaVersion u32 u32

fun scheduler_error_code :: "scheduler_error \<Rightarrow> string" where
  "scheduler_error_code (InvalidCompiledPlan _ _) = ''invalid-compiled-plan''"
| "scheduler_error_code (PlanStateMismatch _ _) = ''graph-plan-state-mismatch''"
| "scheduler_error_code (MissingNodeState _) = ''missing-graph-node-state''"
| "scheduler_error_code (UnknownNode _) = ''unknown-graph-node''"
| "scheduler_error_code (InvalidNodeTransition _ _ _) = ''invalid-graph-node-transition''"
| "scheduler_error_code (InvalidBranchSelection _ _) = ''invalid-branch-selection''"
| "scheduler_error_code (InvalidIteratorTransition _ _) = ''invalid-iterator-transition''"
| "scheduler_error_code (TerminalGraph _) = ''terminal-graph''"
| "scheduler_error_code (EmptyCauseCode _) = ''empty-reconciliation-cause''"
| "scheduler_error_code (UnsupportedSchemaVersion _ _) = ''graph-state-schema-unsupported''"

fun scheduler_error_text :: "scheduler_error \<Rightarrow> string" where
  "scheduler_error_text (InvalidCompiledPlan code reason) = ''compiled graph plan failed validation ('' @ code @ ''): '' @ reason"
| "scheduler_error_text (PlanStateMismatch field reason) =
     ''graph state field '' @ quoted field @ '' does not match plan: '' @ reason"
| "scheduler_error_text (MissingNodeState n) = ''graph state is missing node '' @ quoted n"
| "scheduler_error_text (UnknownNode n) = ''compiled graph does not contain node '' @ quoted n"
| "scheduler_error_text (InvalidNodeTransition n from to) = ''node '' @ quoted n @ '' cannot transition from ''
     @ quoted (node_status_label from) @ '' to '' @ quoted (node_status_label to)"
| "scheduler_error_text (InvalidBranchSelection n reason) = ''branch node '' @ quoted n @ '' has invalid selection: '' @ reason"
| "scheduler_error_text (InvalidIteratorTransition n reason) = ''iterator node '' @ quoted n @ '' has invalid transition: '' @ reason"
| "scheduler_error_text (TerminalGraph status) = ''graph is already terminal with status '' @ quoted (terminal_status_label status)"
| "scheduler_error_text (EmptyCauseCode n) = ''node '' @ quoted n @ '' cannot be parked without a cause code''"
| "scheduler_error_text (UnsupportedSchemaVersion found supported) = ''graph state schema version '' @ show_nat (unat found)
     @ '' is newer than the supported '' @ show_nat (unat supported)"

type_synonym scheduler_check = "(scheduler_error, unit) result"
type_synonym decision = "(scheduler_error, bool) result"

section \<open>The plan as the scheduler indexes it\<close>

definition sorted_nodes :: "compiled_plan \<Rightarrow> plan_node list" where
  "sorted_nodes plan = sort_key pn_node_id (ep_nodes plan)"

definition nodes_by_id :: "compiled_plan \<Rightarrow> (node_id, plan_node) btree" where
  "nodes_by_id plan = bt_collect (map (\<lambda>n. (pn_node_id n, n)) (ep_nodes plan))"

definition incoming_edges_by_target :: "compiled_plan \<Rightarrow> (node_id, plan_edge list) btree" where
  "incoming_edges_by_target plan =
     map (\<lambda>(n, es). (n, sort_key pe_edge_id es)) (fold (\<lambda>e. bt_push (pe_target_node_id e) e) (ep_edges plan) [])"

definition outgoing_edges_by_source :: "compiled_plan \<Rightarrow> (node_id, plan_edge list) btree" where
  "outgoing_edges_by_source plan =
     map (\<lambda>(n, es). (n, sort_key pe_edge_id es)) (fold (\<lambda>e. bt_push (pe_source_node_id e) e) (ep_edges plan) [])"

text \<open>\<open>get(..).unwrap_or_default()\<close>.\<close>

definition edges_at :: "(node_id, plan_edge list) btree \<Rightarrow> node_id \<Rightarrow> plan_edge list" where
  "edges_at m n = (case map_of m n of Some es \<Rightarrow> es | None \<Rightarrow> [])"

section \<open>Checks on the plan and the state\<close>

definition validate_plan :: "compiled_plan \<Rightarrow> scheduler_check" where
  "validate_plan plan = (case validate_compiled_execution_plan plan of
     Inr _ \<Rightarrow> Inr ()
   | Inl e \<Rightarrow> Inl (InvalidCompiledPlan (plan_error_code e) (plan_error_text e)))"

definition state_mismatch :: "string \<Rightarrow> string \<Rightarrow> string \<Rightarrow> scheduler_error" where
  "state_mismatch field in_state in_plan = PlanStateMismatch field (''state has '' @ in_state @ '', plan has '' @ in_plan)"

definition validate_plan_state :: "compiled_plan \<Rightarrow> graph_run_state \<Rightarrow> scheduler_check" where
  "validate_plan_state plan state = first_failure
     ([validate_plan plan,
       ensure (gr_plan_id state = ep_plan_id plan) (state_mismatch ''plan_id'' (gr_plan_id state) (ep_plan_id plan)),
       ensure (gr_plan_fingerprint state = ep_plan_fingerprint plan)
         (state_mismatch ''plan_fingerprint'' (gr_plan_fingerprint state) (ep_plan_fingerprint plan)),
       ensure (gr_schema_version state \<le> current_graph_schema_version)
         (UnsupportedSchemaVersion (gr_schema_version state) current_graph_schema_version)]
      @ map (\<lambda>(n, _). ensure (map_of (gr_node_states state) n \<noteq> None) (MissingNodeState n)) (nodes_by_id plan)
      @ map (\<lambda>(n, _). ensure (map_of (nodes_by_id plan) n \<noteq> None) (UnknownNode n)) (gr_node_states state))"

definition ensure_not_terminal :: "graph_run_state \<Rightarrow> scheduler_check" where
  "ensure_not_terminal state = (case gr_terminal_status state of Some status \<Rightarrow> Inl (TerminalGraph status) | None \<Rightarrow> Inr ())"

definition ensure_known_node :: "compiled_plan \<Rightarrow> node_id \<Rightarrow> (scheduler_error, plan_node) result" where
  "ensure_known_node plan nid =
     (case find (\<lambda>n. pn_node_id n = nid) (ep_nodes plan) of Some n \<Rightarrow> Inr n | None \<Rightarrow> Inl (UnknownNode nid))"

definition ensure_iterator_node :: "compiled_plan \<Rightarrow> node_id \<Rightarrow> (scheduler_error, plan_node) result" where
  "ensure_iterator_node plan nid = bind_result (ensure_known_node plan nid) (\<lambda>n.
     if pn_kind n \<noteq> KIterator then Inl (InvalidIteratorTransition nid ''node is not an iterator'')
     else if pn_iterator_policy n = None
     then Inl (InvalidIteratorTransition nid ''iterator node is missing iterator policy'')
     else Inr n)"

definition node_state_of :: "graph_run_state \<Rightarrow> node_id \<Rightarrow> (scheduler_error, graph_node_state) result" where
  "node_state_of state nid = (case map_of (gr_node_states state) nid of Some ns \<Rightarrow> Inr ns | None \<Rightarrow> Inl (MissingNodeState nid))"

definition ensure_node_status :: "graph_run_state \<Rightarrow> node_id \<Rightarrow> node_status \<Rightarrow> node_status \<Rightarrow> scheduler_check" where
  "ensure_node_status state nid expected next = bind_result (node_state_of state nid) (\<lambda>ns.
     ensure (gn_status ns = expected) (InvalidNodeTransition nid (gn_status ns) next))"

definition ensure_node_wait_reason :: "graph_run_state \<Rightarrow> node_id \<Rightarrow> wait_reason \<Rightarrow> scheduler_check" where
  "ensure_node_wait_reason state nid expected = bind_result (node_state_of state nid) (\<lambda>ns. first_failure
     [ensure (gn_status ns = GWaiting) (InvalidNodeTransition nid (gn_status ns) GCompleted),
      ensure (gn_wait_reason ns = Some expected) (InvalidNodeTransition nid (gn_status ns) GCompleted)])"

section \<open>Edges\<close>

definition edge_is_active :: "graph_run_state \<Rightarrow> plan_node \<Rightarrow> plan_edge \<Rightarrow> bool" where
  "edge_is_active state source_node e \<longleftrightarrow> pn_kind source_node \<noteq> KBranch
     \<or> (case map_of (gr_selected_branch_paths state) (pn_node_id source_node) of
          Some selected \<Rightarrow> pe_edge_id e \<in> set selected | None \<Rightarrow> False)"

definition source_satisfies_dependency :: "graph_run_state \<Rightarrow> plan_node \<Rightarrow> graph_node_state \<Rightarrow> plan_edge \<Rightarrow> bool" where
  "source_satisfies_dependency state source_node source_state e \<longleftrightarrow> edge_is_active state source_node e
     \<and> (gn_status source_state \<in> {GCompleted, GTerminal}
        \<or> pn_kind source_node = KTerminal \<and> gn_status source_state = GCompleted)"

text \<open>The source of an edge: its node in the plan and its state, in the order the lookups fail.\<close>

definition edge_source ::
  "graph_run_state \<Rightarrow> plan_edge \<Rightarrow> (node_id, plan_node) btree \<Rightarrow> (scheduler_error, plan_node \<times> graph_node_state) result"
where
  "edge_source state e nodes = (case map_of nodes (pe_source_node_id e) of
     None \<Rightarrow> Inl (UnknownNode (pe_source_node_id e))
   | Some n \<Rightarrow> bind_result (node_state_of state (pe_source_node_id e)) (\<lambda>ns. Inr (n, ns)))"

definition edge_source_completed :: "graph_run_state \<Rightarrow> plan_edge \<Rightarrow> (node_id, plan_node) btree \<Rightarrow> decision" where
  "edge_source_completed state e nodes = bind_result (edge_source state e nodes) (\<lambda>(n, ns).
     Inr (source_satisfies_dependency state n ns e))"

definition edge_permanently_unsatisfied :: "graph_run_state \<Rightarrow> plan_edge \<Rightarrow> (node_id, plan_node) btree \<Rightarrow> decision" where
  "edge_permanently_unsatisfied state e nodes = bind_result (edge_source state e nodes) (\<lambda>(n, ns).
     Inr (if gn_status ns \<in> {GSkipped, GCancelled} then True
          else if pn_kind n = KBranch
          then (case map_of (gr_selected_branch_paths state) (pn_node_id n) of
                  None \<Rightarrow> gn_status ns \<in> {GCompleted, GTerminal}
                | Some selected \<Rightarrow> pe_edge_id e \<notin> set selected)
          else False))"

text \<open>The short-circuiting folds \<open>try_fold(false, ..)\<close> and \<open>try_fold(true, ..)\<close>.\<close>

fun try_any :: "(plan_edge \<Rightarrow> decision) \<Rightarrow> plan_edge list \<Rightarrow> decision" where
  "try_any f [] = Inr False"
| "try_any f (e # es) = bind_result (f e) (\<lambda>b. if b then Inr True else try_any f es)"

fun try_all :: "(plan_edge \<Rightarrow> decision) \<Rightarrow> plan_edge list \<Rightarrow> decision" where
  "try_all f [] = Inr True"
| "try_all f (e # es) = bind_result (f e) (\<lambda>b. if b then try_all f es else Inr False)"

section \<open>Readiness\<close>

definition target_port_required :: "plan_node \<Rightarrow> plan_edge \<Rightarrow> bool" where
  "target_port_required node e =
     (case find (\<lambda>port. pp_port_id port = pe_target_port_id e) (pn_input_ports node) of
        None \<Rightarrow> True | Some port \<Rightarrow> pp_required port)"

definition required_incoming_edges :: "plan_node \<Rightarrow> (node_id, plan_edge list) btree \<Rightarrow> plan_edge list" where
  "required_incoming_edges node incoming = filter (target_port_required node) (edges_at incoming (pn_node_id node))"

text \<open>
  The loop shared by joins that wait for all and nodes with optional inputs only: every edge has settled, and at least
  one is satisfied. The flag is the running value of \<open>has_completed_source\<close> and \<open>any_satisfied\<close>.
\<close>

fun settled_with_result :: "graph_run_state \<Rightarrow> (node_id, plan_node) btree \<Rightarrow> bool \<Rightarrow> plan_edge list \<Rightarrow> decision" where
  "settled_with_result state nodes any_satisfied [] = Inr any_satisfied"
| "settled_with_result state nodes any_satisfied (e # es) =
     bind_result (edge_source_completed state e nodes) (\<lambda>completed.
       if completed then settled_with_result state nodes True es
       else bind_result (edge_permanently_unsatisfied state e nodes) (\<lambda>dead.
         if dead then settled_with_result state nodes any_satisfied es else Inr False))"

definition join_dependencies_satisfied :: "graph_run_state \<Rightarrow> plan_edge list \<Rightarrow> (node_id, plan_node) btree \<Rightarrow> decision" where
  "join_dependencies_satisfied state required_edges nodes =
     (if list_ex (\<lambda>e. pe_merge_behavior e = Some WaitForAny) required_edges
      then try_any (\<lambda>e. edge_source_completed state e nodes) required_edges
      else settled_with_result state nodes False required_edges)"

definition optional_dependencies_satisfied ::
  "graph_run_state \<Rightarrow> plan_node \<Rightarrow> (node_id, plan_node) btree \<Rightarrow> (node_id, plan_edge list) btree \<Rightarrow> decision"
where
  "optional_dependencies_satisfied state node nodes incoming =
     settled_with_result state nodes False (edges_at incoming (pn_node_id node))"

definition dependencies_satisfied ::
  "compiled_plan \<Rightarrow> graph_run_state \<Rightarrow> plan_node \<Rightarrow> (node_id, plan_node) btree \<Rightarrow> (node_id, plan_edge list) btree \<Rightarrow> decision"
where
  "dependencies_satisfied plan state node nodes incoming =
     (if pn_node_id node \<in> set (ep_entry_node_ids plan) then Inr True
      else let required_edges = required_incoming_edges node incoming
           in if pn_kind node = KJoin then join_dependencies_satisfied state required_edges nodes
              else if required_edges = [] then optional_dependencies_satisfied state node nodes incoming
              else try_all (\<lambda>e. edge_source_completed state e nodes) required_edges)"

section \<open>Skipping\<close>

definition optional_dependencies_blocked ::
  "graph_run_state \<Rightarrow> plan_node \<Rightarrow> (node_id, plan_node) btree \<Rightarrow> (node_id, plan_edge list) btree \<Rightarrow> decision"
where
  "optional_dependencies_blocked state node nodes incoming =
     try_all (\<lambda>e. edge_permanently_unsatisfied state e nodes) (edges_at incoming (pn_node_id node))"

definition node_should_skip ::
  "graph_run_state \<Rightarrow> plan_node \<Rightarrow> (node_id, plan_node) btree \<Rightarrow> (node_id, plan_edge list) btree \<Rightarrow> decision"
where
  "node_should_skip state node nodes incoming =
     (let required_edges = required_incoming_edges node incoming
      in if pn_kind node = KJoin
         then if required_edges = [] then Inr False
              else bind_result (try_any (\<lambda>e. edge_source_completed state e nodes) required_edges) (\<lambda>completed.
                if completed then Inr False
                else try_all (\<lambda>e. edge_permanently_unsatisfied state e nodes) required_edges)
         else if required_edges = [] then optional_dependencies_blocked state node nodes incoming
         else try_any (\<lambda>e. edge_permanently_unsatisfied state e nodes) required_edges)"

section \<open>Loop instances\<close>

definition current_iterator_iteration_index :: "graph_run_state \<Rightarrow> node_id \<Rightarrow> u32 option" where
  "current_iterator_iteration_index state nid =
     (case map li_iteration_index (filter (\<lambda>i. li_node_id i = nid \<and> li_status i \<in> {GPending, GRunning}) (gr_loop_instances state)) of
        [] \<Rightarrow> None | x # xs \<Rightarrow> Some (fold min xs x))"

definition next_iterator_iteration_index :: "graph_run_state \<Rightarrow> node_id \<Rightarrow> u32" where
  "next_iterator_iteration_index state nid =
     (case map li_iteration_index (filter (\<lambda>i. li_node_id i = nid) (gr_loop_instances state)) of
        [] \<Rightarrow> 0 | x # xs \<Rightarrow> sat_add (fold max xs x) 1)"

definition node_status_is_unresolved :: "node_status \<Rightarrow> bool" where
  "node_status_is_unresolved status \<longleftrightarrow> status \<in> {GPending, GRunnable, GRunning, GWaiting}"

end
