(* ===== verification/Graph_Scheduler.thy ===== *)
theory Graph_Scheduler
  imports Graph_Edges
begin

text \<open>
  The operations of the graph scheduler (\<open>AgentGraphScheduler\<close>). Each takes the plan and the durable state and
  returns the state to persist, the nodes it changed and the nodes now runnable, or the error that leaves the caller
  with the old state. \<open>scheduler_revision\<close> and \<open>attempt\<close> are counters that wrap at their width.
\<close>

record scheduler_transition =
  st_state :: graph_run_state
  st_changed_node_ids :: "node_id list"
  st_runnable_node_ids :: "node_id list"

type_synonym scheduled = "(scheduler_error, scheduler_transition) result"

definition runnable_nodes_from_state :: "graph_run_state \<Rightarrow> node_id list" where
  "runnable_nodes_from_state state =
     (if gr_terminal_status state \<noteq> None then []
      else map fst (filter (\<lambda>(_, ns). gn_status ns = GRunnable) (gr_node_states state)))"

definition transition_new :: "graph_run_state \<Rightarrow> node_id list \<Rightarrow> scheduler_transition" where
  "transition_new state changed =
     \<lparr>st_state = state, st_changed_node_ids = changed, st_runnable_node_ids = runnable_nodes_from_state state\<rparr>"

text \<open>\<open>sort\<close> followed by \<open>dedup\<close>.\<close>

definition sort_dedup :: "'a::linorder list \<Rightarrow> 'a list" where
  "sort_dedup xs = remdups_adj (sort xs)"

section \<open>Shared steps\<close>

text \<open>Writing the state of a node the map holds (\<open>get_mut\<close>), and counting a revision.\<close>

definition put_node :: "node_id \<Rightarrow> graph_node_state \<Rightarrow> graph_run_state \<Rightarrow> graph_run_state" where
  "put_node nid ns state = state\<lparr>gr_node_states := bt_insert nid ns (gr_node_states state)\<rparr>"

definition bump_revision :: "graph_run_state \<Rightarrow> graph_run_state" where
  "bump_revision state = state\<lparr>gr_scheduler_revision := gr_scheduler_revision state + 1, gr_blocked_reason := None\<rparr>"

definition transition_node ::
  "graph_run_state \<Rightarrow> node_id \<Rightarrow> node_status \<Rightarrow> node_status \<Rightarrow> timestamp \<Rightarrow> (graph_node_state \<Rightarrow> graph_node_state)
   \<Rightarrow> (scheduler_error, graph_run_state) result"
where
  "transition_node state nid expected next now apply_fields = bind_result (node_state_of state nid) (\<lambda>ns.
     if gn_status ns \<noteq> expected then Inl (InvalidNodeTransition nid (gn_status ns) next)
     else Inr (bump_revision (put_node nid (apply_fields (ns\<lparr>gn_status := next, gn_updated_at := now\<rparr>)) state)))"

definition cancel_node :: "timestamp \<Rightarrow> graph_node_state \<Rightarrow> graph_node_state" where
  "cancel_node now ns = ns\<lparr>gn_status := GCancelled, gn_dependencies_ready := False, gn_updated_at := now,
     gn_completed_at := Some now, gn_wait_reason := None, gn_error_code := None\<rparr>"

definition cancel_unresolved_nodes ::
  "graph_run_state \<Rightarrow> timestamp \<Rightarrow> node_id list \<Rightarrow> graph_run_state \<times> node_id list"
where
  "cancel_unresolved_nodes state now excluded =
     (let hit = (\<lambda>(nid, ns). nid \<notin> set excluded \<and> node_status_is_unresolved (gn_status ns))
      in (state\<lparr>gr_node_states := map (\<lambda>(nid, ns). (nid, if hit (nid, ns) then cancel_node now ns else ns)) (gr_node_states state)\<rparr>,
          map fst (filter hit (gr_node_states state))))"

definition cancel_unresolved_loop_instances :: "graph_run_state \<Rightarrow> timestamp \<Rightarrow> graph_run_state \<times> node_id list" where
  "cancel_unresolved_loop_instances state now =
     (state\<lparr>gr_loop_instances := map (\<lambda>i. if node_status_is_unresolved (li_status i)
          then i\<lparr>li_status := GCancelled, li_completed_at := Some now\<rparr> else i) (gr_loop_instances state)\<rparr>,
      map li_node_id (filter (\<lambda>i. node_status_is_unresolved (li_status i)) (gr_loop_instances state)))"

text \<open>Both cancellations, as every terminal transition but the iterator bound runs them.\<close>

definition cancel_unresolved :: "graph_run_state \<Rightarrow> timestamp \<Rightarrow> node_id list \<Rightarrow> graph_run_state \<times> node_id list" where
  "cancel_unresolved state now excluded =
     (let (s1, nodes) = cancel_unresolved_nodes state now excluded; (s2, loops) = cancel_unresolved_loop_instances s1 now
      in (s2, nodes @ loops))"

definition entry_checks :: "compiled_plan \<Rightarrow> graph_run_state \<Rightarrow> scheduler_check" where
  "entry_checks plan state = first_failure [ensure_not_terminal state, validate_plan_state plan state]"

section \<open>Initial state and readiness\<close>

definition initialize_state :: "compiled_plan \<Rightarrow> timestamp \<Rightarrow> (scheduler_error, graph_run_state) result" where
  "initialize_state plan now = bind_result (validate_plan plan) (\<lambda>_.
     Inr ((run_state_new (ep_plan_id plan) (ep_plan_fingerprint plan))
       \<lparr>gr_node_states := fold (\<lambda>n. bt_insert (pn_node_id n) (node_state_new (pn_node_id n) (pn_kind n) now)) (sorted_nodes plan) []\<rparr>))"

fun collect_ready ::
  "compiled_plan \<Rightarrow> graph_run_state \<Rightarrow> plan_node list \<Rightarrow> (scheduler_error, node_id list) result"
where
  "collect_ready plan state [] = Inr []"
| "collect_ready plan state (node # rest) =
     bind_result (node_state_of state (pn_node_id node)) (\<lambda>ns.
     if gn_status ns \<noteq> GPending then collect_ready plan state rest
     else bind_result (dependencies_satisfied plan state node (nodes_by_id plan) (incoming_edges_by_target plan)) (\<lambda>ready.
          bind_result (collect_ready plan state rest) (\<lambda>ids. Inr (if ready then pn_node_id node # ids else ids))))"

definition compute_ready_nodes :: "compiled_plan \<Rightarrow> graph_run_state \<Rightarrow> (scheduler_error, node_id list) result" where
  "compute_ready_nodes plan state = bind_result (validate_plan_state plan state) (\<lambda>_.
     if gr_terminal_status state \<noteq> None then Inr [] else collect_ready plan state (sorted_nodes plan))"

fun mark_runnable :: "timestamp \<Rightarrow> node_id list \<Rightarrow> graph_run_state \<Rightarrow> (scheduler_error, graph_run_state) result" where
  "mark_runnable now [] state = Inr state"
| "mark_runnable now (nid # rest) state = bind_result (node_state_of state nid) (\<lambda>ns.
     mark_runnable now rest
       (put_node nid (ns\<lparr>gn_status := GRunnable, gn_dependencies_ready := True, gn_updated_at := now\<rparr>) state))"

definition mark_ready_nodes_runnable :: "compiled_plan \<Rightarrow> graph_run_state \<Rightarrow> timestamp \<Rightarrow> scheduled" where
  "mark_ready_nodes_runnable plan state now = bind_result (ensure_not_terminal state) (\<lambda>_.
     bind_result (compute_ready_nodes plan state) (\<lambda>ready.
     bind_result (mark_runnable now ready state) (\<lambda>marked.
     Inr (transition_new (if ready \<noteq> [] then bump_revision marked else marked) ready))))"

section \<open>Running nodes\<close>

definition start_node :: "compiled_plan \<Rightarrow> graph_run_state \<Rightarrow> node_id \<Rightarrow> timestamp \<Rightarrow> scheduled" where
  "start_node plan state nid now = bind_result (entry_checks plan state) (\<lambda>_.
     bind_result (ensure_known_node plan nid) (\<lambda>_.
     bind_result (transition_node state nid GRunnable GRunning now (\<lambda>ns. ns\<lparr>gn_attempt := gn_attempt ns + 1,
         gn_started_at := Some now, gn_wait_reason := None, gn_error_code := None\<rparr>)) (\<lambda>state'.
     Inr (transition_new state' [nid]))))"

definition finish_fields :: "timestamp \<Rightarrow> graph_node_state \<Rightarrow> graph_node_state" where
  "finish_fields now ns = ns\<lparr>gn_completed_at := Some now, gn_wait_reason := None, gn_error_code := None\<rparr>"

definition fail_fields :: "timestamp \<Rightarrow> string \<Rightarrow> graph_node_state \<Rightarrow> graph_node_state" where
  "fail_fields now code ns = ns\<lparr>gn_completed_at := Some now, gn_error_code := Some code, gn_wait_reason := None\<rparr>"

text \<open>The graph ends with a status: everything unresolved except the deciding node is cancelled.\<close>

definition end_graph :: "graph_run_state \<Rightarrow> graph_terminal_status \<Rightarrow> node_id \<Rightarrow> timestamp \<Rightarrow> scheduler_transition" where
  "end_graph state status nid now =
     (let (state', cancelled) = cancel_unresolved (state\<lparr>gr_terminal_status := Some status\<rparr>) now [nid]
      in transition_new state' (sort_dedup (nid # cancelled)))"

definition complete_node :: "compiled_plan \<Rightarrow> graph_run_state \<Rightarrow> node_id \<Rightarrow> timestamp \<Rightarrow> scheduled" where
  "complete_node plan state nid now = bind_result (entry_checks plan state) (\<lambda>_.
     bind_result (ensure_known_node plan nid) (\<lambda>node.
     if pn_kind node = KBranch
     then Inl (InvalidBranchSelection nid ''branch nodes must complete with selected outgoing edge ids'')
     else if pn_kind node = KIterator
     then Inl (InvalidIteratorTransition nid ''iterator nodes must complete through iterator-specific transitions'')
     else let next = (if pn_kind node = KTerminal then GTerminal else GCompleted)
          in bind_result (transition_node state nid GRunning next now (finish_fields now)) (\<lambda>state'.
             Inr (if next = GTerminal then end_graph state' RunCompleted nid now
                  else transition_new state' (sort_dedup [nid])))))"

definition wait_node :: "compiled_plan \<Rightarrow> graph_run_state \<Rightarrow> node_id \<Rightarrow> wait_reason \<Rightarrow> timestamp \<Rightarrow> scheduled" where
  "wait_node plan state nid reason now = bind_result (entry_checks plan state) (\<lambda>_.
     bind_result (ensure_known_node plan nid) (\<lambda>_.
     bind_result (transition_node state nid GRunning GWaiting now (\<lambda>ns. ns\<lparr>gn_wait_reason := Some reason\<rparr>)) (\<lambda>state'.
     Inr (transition_new state' [nid]))))"

definition fail_node :: "compiled_plan \<Rightarrow> graph_run_state \<Rightarrow> node_id \<Rightarrow> string \<Rightarrow> timestamp \<Rightarrow> scheduled" where
  "fail_node plan state nid code now = bind_result (entry_checks plan state) (\<lambda>_.
     bind_result (ensure_known_node plan nid) (\<lambda>_.
     bind_result (transition_node state nid GRunning GFailed now (fail_fields now code)) (\<lambda>state'.
     Inr (end_graph state' RunFailed nid now))))"

definition cancel_graph_run :: "compiled_plan \<Rightarrow> graph_run_state \<Rightarrow> timestamp \<Rightarrow> scheduled" where
  "cancel_graph_run plan state now = bind_result (validate_plan_state plan state) (\<lambda>_.
     case gr_terminal_status state of
       Some RunCancelled \<Rightarrow> Inr (transition_new state [])
     | Some status \<Rightarrow> Inl (TerminalGraph status)
     | None \<Rightarrow>
         (let (state', cancelled) = cancel_unresolved state now []
          in Inr (transition_new (bump_revision (state'\<lparr>gr_terminal_status := Some RunCancelled\<rparr>)) (sort_dedup cancelled))))"

section \<open>Waiting nodes\<close>

definition park_waiting_node ::
  "compiled_plan \<Rightarrow> graph_run_state \<Rightarrow> node_id \<Rightarrow> wait_reason \<Rightarrow> string \<Rightarrow> timestamp \<Rightarrow> scheduled"
where
  "park_waiting_node plan state nid from_reason cause now = bind_result (entry_checks plan state) (\<lambda>_.
     bind_result (ensure_known_node plan nid) (\<lambda>_.
     bind_result (ensure (trim cause \<noteq> []) (EmptyCauseCode nid)) (\<lambda>_.
     bind_result (ensure_node_wait_reason state nid from_reason) (\<lambda>_.
     bind_result (transition_node state nid GWaiting GWaiting now
         (\<lambda>ns. ns\<lparr>gn_wait_reason := Some WaitReconciliation, gn_error_code := Some cause\<rparr>)) (\<lambda>state'.
     Inr (transition_new (state'\<lparr>gr_schema_version := current_graph_schema_version\<rparr>) [nid]))))))"

definition resume_parked_node :: "compiled_plan \<Rightarrow> graph_run_state \<Rightarrow> node_id \<Rightarrow> timestamp \<Rightarrow> scheduled" where
  "resume_parked_node plan state nid now = bind_result (entry_checks plan state) (\<lambda>_.
     bind_result (ensure_known_node plan nid) (\<lambda>_.
     bind_result (ensure_node_wait_reason state nid WaitReconciliation) (\<lambda>_.
     bind_result (transition_node state nid GWaiting GRunning now
         (\<lambda>ns. ns\<lparr>gn_wait_reason := None, gn_error_code := None, gn_effect_generation := sat_add (gn_effect_generation ns) 1\<rparr>)) (\<lambda>state'.
     Inr (transition_new (state'\<lparr>gr_schema_version := current_graph_schema_version\<rparr>) [nid])))))"

definition complete_waiting_node ::
  "compiled_plan \<Rightarrow> graph_run_state \<Rightarrow> node_id \<Rightarrow> wait_reason \<Rightarrow> (port_id, artifact_ref) btree \<Rightarrow> timestamp \<Rightarrow> scheduled"
where
  "complete_waiting_node plan state nid reason output_refs now = bind_result (entry_checks plan state) (\<lambda>_.
     bind_result (ensure_known_node plan nid) (\<lambda>_.
     bind_result (ensure_node_wait_reason state nid reason) (\<lambda>_.
     bind_result (transition_node state nid GWaiting GCompleted now
         (\<lambda>ns. finish_fields now (ns\<lparr>gn_output_refs := fold (\<lambda>(k, v). bt_insert k v) output_refs (gn_output_refs ns)\<rparr>))) (\<lambda>state'.
     Inr (transition_new state' [nid])))))"

definition fail_waiting_node ::
  "compiled_plan \<Rightarrow> graph_run_state \<Rightarrow> node_id \<Rightarrow> wait_reason \<Rightarrow> string \<Rightarrow> timestamp \<Rightarrow> scheduled"
where
  "fail_waiting_node plan state nid reason code now = bind_result (entry_checks plan state) (\<lambda>_.
     bind_result (ensure_known_node plan nid) (\<lambda>_.
     bind_result (ensure_node_wait_reason state nid reason) (\<lambda>_.
     bind_result (transition_node state nid GWaiting GFailed now (fail_fields now code)) (\<lambda>state'.
     Inr (end_graph state' RunFailed nid now)))))"

end
