(* ===== verification/Graph_Branching.thy ===== *)
theory Graph_Branching
  imports Graph_Scheduler
begin

text \<open>
  Branch selection with skip propagation, and bounded iterators (\<open>graph_scheduler.rs\<close>).
\<close>

section \<open>Skip propagation\<close>

text \<open>One pass collects the pending nodes whose inputs can no longer arrive; the pass then marks them skipped.\<close>

fun collect_skips ::
  "compiled_plan \<Rightarrow> graph_run_state \<Rightarrow> plan_node list \<Rightarrow> (scheduler_error, node_id list) result"
where
  "collect_skips plan state [] = Inr []"
| "collect_skips plan state (node # rest) =
     bind_result (node_state_of state (pn_node_id node)) (\<lambda>ns.
     if gn_status ns \<noteq> GPending \<or> pn_node_id node \<in> set (ep_entry_node_ids plan) then collect_skips plan state rest
     else bind_result (node_should_skip state node (nodes_by_id plan) (incoming_edges_by_target plan)) (\<lambda>skip.
          bind_result (collect_skips plan state rest) (\<lambda>ids. Inr (if skip then pn_node_id node # ids else ids))))"

definition skip_fields :: "timestamp \<Rightarrow> graph_node_state \<Rightarrow> graph_node_state" where
  "skip_fields now ns = ns\<lparr>gn_status := GSkipped, gn_dependencies_ready := False, gn_updated_at := now,
     gn_completed_at := Some now, gn_wait_reason := None, gn_error_code := None\<rparr>"

fun apply_skips :: "timestamp \<Rightarrow> node_id list \<Rightarrow> graph_run_state \<Rightarrow> (scheduler_error, graph_run_state \<times> node_id list) result" where
  "apply_skips now [] state = Inr (state, [])"
| "apply_skips now (nid # rest) state = bind_result (node_state_of state nid) (\<lambda>ns.
     if gn_status ns \<noteq> GPending then apply_skips now rest state
     else bind_result (apply_skips now rest (put_node nid (skip_fields now ns) state)) (\<lambda>(state', changed).
          Inr (state', nid # changed)))"

definition status_of :: "graph_run_state \<Rightarrow> node_id \<Rightarrow> node_status option" where
  "status_of state nid = map_option gn_status (map_of (gr_node_states state) nid)"

definition pending_nodes :: "graph_run_state \<Rightarrow> node_id set" where
  "pending_nodes state = {nid. status_of state nid = Some GPending}"

lemma finite_pending: "finite (pending_nodes state)"
proof (rule finite_subset)
  show "pending_nodes state \<subseteq> fst ` set (gr_node_states state)"
    by (force simp: pending_nodes_def status_of_def dest: map_of_SomeD)
qed simp

lemma node_state_of_Inr: "node_state_of state nid = Inr ns \<longleftrightarrow> map_of (gr_node_states state) nid = Some ns"
  by (simp add: node_state_of_def split: option.splits)

lemma status_of_put [simp]: "status_of (put_node nid ns state) k = (if k = nid then Some (gn_status ns) else status_of state k)"
  by (simp add: status_of_def put_node_def)

lemma status_of_bump [simp]: "status_of (bump_revision state) = status_of state"
  by (simp add: fun_eq_iff status_of_def bump_revision_def)

lemma collect_skips_pending:
  "collect_skips plan state ns = Inr ids \<Longrightarrow> set ids \<subseteq> pending_nodes state"
proof (induction ns arbitrary: ids)
  case (Cons n ns)
  from Cons.prems obtain nst where "map_of (gr_node_states state) (pn_node_id n) = Some nst"
    by (auto simp: bind_result_Inr node_state_of_Inr)
  with Cons show ?case
    by (fastforce simp: bind_result_Inr node_state_of_Inr pending_nodes_def status_of_def split: if_splits)
qed simp

lemma apply_skips_status:
  assumes "apply_skips now ids state = Inr (state', changed)"
  shows "status_of state' k = (if k \<in> set ids \<and> status_of state k = Some GPending then Some GSkipped else status_of state k)"
  using assms
proof (induction ids arbitrary: state changed)
  case (Cons nid ids)
  from Cons.prems obtain ns where ns: "map_of (gr_node_states state) nid = Some ns"
    by (auto simp: bind_result_Inr node_state_of_Inr)
  then have status: "status_of state nid = Some (gn_status ns)"
    by (simp add: status_of_def)
  show ?case
  proof (cases "gn_status ns = GPending")
    case True
    with Cons.prems ns obtain c where "apply_skips now ids (put_node nid (skip_fields now ns) state) = Inr (state', c)"
      by (auto simp: bind_result_Inr node_state_of_Inr)
    from Cons.IH [OF this] True status show ?thesis
      by (auto simp: skip_fields_def)
  next
    case False
    with Cons.prems ns have "apply_skips now ids state = Inr (state', changed)"
      by (simp add: bind_result_Inr node_state_of_Inr)
    from Cons.IH [OF this] False status show ?thesis
      by auto
  qed
qed simp

lemma apply_skips_pending:
  "apply_skips now ids state = Inr (state', changed) \<Longrightarrow> pending_nodes state' = pending_nodes state - set ids"
  unfolding pending_nodes_def by (simp add: apply_skips_status) auto

function propagate_loop ::
  "compiled_plan \<Rightarrow> timestamp \<Rightarrow> graph_run_state \<Rightarrow> node_id list \<Rightarrow> (scheduler_error, graph_run_state \<times> node_id list) result"
where
  "propagate_loop plan now state changed =
     (case collect_skips plan state (sorted_nodes plan) of
        Inl e \<Rightarrow> Inl e
      | Inr skipped \<Rightarrow>
          if skipped = [] then Inr (state, changed)
          else (case apply_skips now skipped state of
                  Inl e \<Rightarrow> Inl e
                | Inr (state', c) \<Rightarrow> propagate_loop plan now state' (changed @ c)))"
  by pat_completeness auto
termination
proof (relation "measure (\<lambda>(_, _, state, _). card (pending_nodes state))", goal_cases)
  case (2 plan now state changed skipped p state' c)
  then have pending: "set skipped \<subseteq> pending_nodes state" and left: "pending_nodes state' = pending_nodes state - set skipped"
    using collect_skips_pending apply_skips_pending by auto
  with 2(2) have "pending_nodes state' \<subset> pending_nodes state"
    by (cases skipped) auto
  then show ?case
    by (simp add: psubset_card_mono finite_pending)
qed simp

declare propagate_loop.simps [simp del]

definition propagate_skips ::
  "compiled_plan \<Rightarrow> graph_run_state \<Rightarrow> timestamp \<Rightarrow> (scheduler_error, graph_run_state \<times> node_id list) result"
where
  "propagate_skips plan state now =
     bind_result (propagate_loop plan now state []) (\<lambda>(state', changed). Inr (state', sort_dedup changed))"

section \<open>Branches\<close>

definition validate_branch_selection ::
  "compiled_plan \<Rightarrow> node_id \<Rightarrow> edge_id list \<Rightarrow> (scheduler_error, edge_id list) result"
where
  "validate_branch_selection plan branch selection =
     (let selected = sort_dedup selection;
          valid = map pe_edge_id (edges_at (outgoing_edges_by_source plan) branch)
      in if selected = [] then Inl (InvalidBranchSelection branch ''at least one outgoing edge must be selected'')
         else case find (\<lambda>e. e \<notin> set valid) selected of
                Some e \<Rightarrow> Inl (InvalidBranchSelection branch (''edge '' @ quoted e @ '' is not an outgoing branch edge''))
              | None \<Rightarrow> Inr selected)"

definition complete_branch_node ::
  "compiled_plan \<Rightarrow> graph_run_state \<Rightarrow> node_id \<Rightarrow> edge_id list \<Rightarrow> timestamp \<Rightarrow> scheduled"
where
  "complete_branch_node plan state nid selection now = bind_result (entry_checks plan state) (\<lambda>_.
     bind_result (ensure_known_node plan nid) (\<lambda>node.
     if pn_kind node \<noteq> KBranch then Inl (InvalidBranchSelection nid ''node is not a branch'')
     else
     bind_result (ensure_node_status state nid GRunning GCompleted) (\<lambda>_.
     bind_result (validate_branch_selection plan nid selection) (\<lambda>selected.
     bind_result (node_state_of state nid) (\<lambda>ns.
     bind_result (propagate_skips plan
         (put_node nid (finish_fields now (ns\<lparr>gn_status := GCompleted, gn_updated_at := now\<rparr>))
           (state\<lparr>gr_selected_branch_paths := bt_insert nid selected (gr_selected_branch_paths state)\<rparr>)) now) (\<lambda>(state', skipped).
     Inr (transition_new (bump_revision state') (sort_dedup (nid # skipped)))))))))"

section \<open>Iterators\<close>

definition start_iterator_iteration :: "compiled_plan \<Rightarrow> graph_run_state \<Rightarrow> node_id \<Rightarrow> timestamp \<Rightarrow> scheduled" where
  "start_iterator_iteration plan state nid now = bind_result (entry_checks plan state) (\<lambda>_.
     bind_result (ensure_iterator_node plan nid) (\<lambda>node.
     bind_result (ensure_node_status state nid GRunning GRunning) (\<lambda>_.
     if current_iterator_iteration_index state nid \<noteq> None
     then Inl (InvalidIteratorTransition nid ''an iteration is already active'')
     else
       let index = next_iterator_iteration_index state nid
       in if the (pn_iterator_policy node) \<le> index
          then bind_result (transition_node state nid GRunning GFailed now (fail_fields now ''iterator-bound-exceeded'')) (\<lambda>state'.
               Inr (transition_new (state'\<lparr>gr_terminal_status := Some RunFailed\<rparr>) [nid]))
          else Inr (transition_new
               (bump_revision (state\<lparr>gr_loop_instances := gr_loop_instances state
                  @ [(loop_instance_new nid index now)\<lparr>li_status := GRunning\<rparr>]\<rparr>)) [nid]))))"

text \<open>The first instance a predicate selects is the one \<open>find\<close> returns, and the one updated in place.\<close>

fun update_first :: "('a \<Rightarrow> bool) \<Rightarrow> ('a \<Rightarrow> 'a) \<Rightarrow> 'a list \<Rightarrow> 'a list" where
  "update_first p f [] = []"
| "update_first p f (x # xs) = (if p x then f x # xs else x # update_first p f xs)"

definition complete_iterator_iteration ::
  "compiled_plan \<Rightarrow> graph_run_state \<Rightarrow> node_id \<Rightarrow> u32 \<Rightarrow> timestamp \<Rightarrow> scheduled"
where
  "complete_iterator_iteration plan state nid index now = bind_result (entry_checks plan state) (\<lambda>_.
     bind_result (ensure_iterator_node plan nid) (\<lambda>_.
     bind_result (ensure_node_status state nid GRunning GRunning) (\<lambda>_.
     let is_it = (\<lambda>i. li_node_id i = nid \<and> li_iteration_index i = index)
     in case find is_it (gr_loop_instances state) of
          None \<Rightarrow> Inl (InvalidIteratorTransition nid (''iteration '' @ quoted (show_nat (unat index)) @ '' does not exist''))
        | Some i \<Rightarrow>
            if li_status i \<noteq> GRunning
            then Inl (InvalidIteratorTransition nid (''iteration '' @ quoted (show_nat (unat index)) @ '' is '' @ quoted (node_status_label (li_status i))))
            else Inr (transition_new
              (bump_revision (state\<lparr>gr_loop_instances := update_first is_it
                 (\<lambda>i. i\<lparr>li_status := GCompleted, li_completed_at := Some now\<rparr>) (gr_loop_instances state)\<rparr>)) [nid]))))"

definition complete_iterator_node :: "compiled_plan \<Rightarrow> graph_run_state \<Rightarrow> node_id \<Rightarrow> timestamp \<Rightarrow> scheduled" where
  "complete_iterator_node plan state nid now = bind_result (entry_checks plan state) (\<lambda>_.
     bind_result (ensure_iterator_node plan nid) (\<lambda>node.
     bind_result (ensure_node_status state nid GRunning GCompleted) (\<lambda>_.
     if current_iterator_iteration_index state nid \<noteq> None
     then Inl (InvalidIteratorTransition nid ''cannot complete iterator while an iteration is active'')
     else if the (pn_iterator_policy node) < next_iterator_iteration_index state nid
     then Inl (InvalidIteratorTransition nid ''recorded iterations exceed iterator bound'')
     else bind_result (transition_node state nid GRunning GCompleted now (finish_fields now)) (\<lambda>state'.
          Inr (transition_new state' [nid])))))"

end
