(* ===== verification/Spec2Isabelle.thy ===== *)
theory Spec2Isabelle
  imports Cluster_Membership Self_Fence Coordinator_Store Event_Durability Shutdown_Calls Outbox_Dispatch Budget_Safety Graph_Branching
begin

text \<open>
  A verification of the state-bearing parts of rakka, an actor framework in Rust with clustering, sharding,
  persistence, workflows and agents. Paths below are relative to \<open>src/crates\<close>.

  \<^bold>\<open>The program.\<close> Nodes find each other through discovery, and every node keeps a membership table with a failure
  detector; a node that loses its peers fences itself off. A coordinator, elected by a lease, assigns the shards of each
  entity type to the active members and stores its assignments under a revision check. Entities are event-sourced
  actors that recover from a journal and snapshots. Workflows keep an inbox and an outbox in one durable snapshot, so
  that commands take effect once and messages are retried. Agent runs charge budgets that their parents hold in
  escrow. Agent workflows run a compiled graph, which is validated before it is scheduled. A process ends through a
  coordinated shutdown in ordered phases.

  \<^bold>\<open>Conventions.\<close> \<open>Rakka_Prelude\<close> and \<open>Rakka_Text\<close> hold what the components share. A struct is a \<open>record\<close>, an enum
  a \<open>datatype\<close>, \<open>u16\<close>, \<open>u32\<close> and \<open>u64\<close> are words with wrapping and saturating arithmetic where the source has them, a
  \<open>Result\<close> is a sum with the error on the left. A \<open>BTreeMap\<close> is an association list with ascending keys (\<open>bt_insert\<close>,
  \<open>bt_remove\<close>, \<open>map_of\<close>; the locale \<open>ordered_map\<close> states its laws) and a \<open>BTreeSet\<close> an ascending list. A method that
  changes its object returns the object with the result. An operation that holds a mutex throughout is one step. A clock
  reading is an argument. Strings are their bytes; trimming and case folding act on ASCII only. Code of a user
  (behaviours, dispatchers, shutdown tasks) is a parameter. A store interface is a record of operations whose promises
  are a locale, interpreted on the in-memory store of the source.

  \<^bold>\<open>Cluster\<close> (\<open>rakka-cluster/src\<close>).
  \<^item> \<open>Cluster_Node\<close> (\<open>node.rs\<close>): node ids, addresses, protocol versions. Parsing inverts rendering; the rolling-update
    window is symmetric.
  \<^item> \<open>Cluster_Discovery\<close> (\<open>discovery.rs\<close>): snapshots and the two providers.
  \<^item> \<open>Cluster_Membership\<close> (\<open>membership.rs\<close>): the table, every operation with its events, and the failure detector. A
    table reached by any sequence of operations is well formed; members are marked unreachable and down exactly at their
    timeouts; down is final until removal; events account for every change. A discovery snapshot that fails in the
    middle has already changed the table.
  \<^item> \<open>Self_Fence\<close> (\<open>self_fence.rs\<close>): the detector agrees with a specification over the whole history of observations.

  \<^bold>\<open>Sharding\<close> (\<open>rakka-sharding/src\<close>).
  \<^item> \<open>Sharding_Identity\<close> (\<open>identity.rs\<close>): identities, the FNV-1a hash and the shard of an entity.
  \<^item> \<open>Sharding_Allocation\<close> (\<open>allocation.rs\<close>): both strategies. The locale \<open>lawful_strategy\<close> is what a coordinator relies
    on; both strategies meet it.
  \<^item> \<open>Shard_Coordinator\<close> (\<open>coordinator.rs\<close>) and \<open>Shard_Ownership\<close>: the reconciliation pass, and what it guarantees:
    convergence of the deterministic strategy from any history, an active owner for every entity, plans that replay to
    the new assignments, snapshots that restore.
  \<^item> \<open>Coordinator_Lease\<close> (\<open>coordinator_lease.rs\<close>): exclusion and fencing tokens, and that a release restarts them.
  \<^item> \<open>Coordinator_Store\<close> (\<open>coordinator_store.rs\<close>): compare-and-set writes, their racing, and coordinators that race.
    The locale \<open>coordinator_store\<close> is the store's contract. The store does not itself check that revisions grow.

  \<^bold>\<open>Persistence\<close> (\<open>rakka-persistence/src\<close>).
  \<^item> \<open>Persistence_Store\<close> (\<open>store.rs\<close>, \<open>error.rs\<close>): ids, records, policies, and the locales \<open>state_store\<close>,
    \<open>event_journal\<close> and \<open>snapshot_store\<close> for the three store traits.
  \<^item> \<open>Persistence_Memory\<close> (\<open>memory.rs\<close>): the in-memory stores, which meet these contracts.
  \<^item> \<open>Event_Sourced\<close> (\<open>event_sourced.rs\<close>): recovery, effects with retries, snapshots and retention.
  \<^item> \<open>Event_Recovery\<close> and \<open>Event_Durability\<close>: runs with failures, restarts and crashes between commands, after an append
    and after a snapshot write (not inside the deletions of the retention pass). Recovery replays the full history, for
    any stores that meet their contracts and then for the in-memory ones, if retention keeps at least one snapshot; a
    policy that keeps none loses the history. Sequence numbers wrap at 2^64, so a history holds fewer events than that.

  \<^bold>\<open>Coordinated shutdown\<close> (\<open>rakka-core/src/coordinated_shutdown.rs\<close>).
  \<^item> \<open>Shutdown_Registry\<close> and \<open>Shutdown_Order\<close>: phases, dependencies and tasks; the phase order exists and is sound for
    every registry the public operations build.
  \<^item> \<open>Shutdown_Run\<close>: the run of a plan. A task is a function of its start and its context that gives its duration
    and result, or nothing if it hangs; time passes only while a task is awaited, and a run that waits for ever is
    \<open>None\<close>. The run also records the calls it makes to tasks.
  \<^item> \<open>Shutdown_Calls\<close>: deadlines bound the run, the report agrees with the recorded calls, a shutdown runs once for all
    its callers. A caller's loop is polled with fuel: the number of rounds between two awaits. It serves to show that a
    caller of a cancelled shutdown never returns, for any number of rounds.

  \<^bold>\<open>Workflows\<close> (\<open>rakka-workflow/src\<close>).
  \<^item> \<open>Workflow_Model\<close> (\<open>model.rs\<close>) and \<open>Workflow_Index\<close>: the snapshot with its deduplication indexes, retry delays and
    compaction; the indexes agree with the entries after every operation; compaction is compared with retention windows
    written over natural numbers.
  \<^item> \<open>Durable_Inbox\<close> (\<open>inbox.rs\<close>, \<open>error.rs\<close>), \<open>Inbox_Runs\<close> and \<open>Inbox_Delivery\<close>: any number of inboxes over one store,
    opened again after crashes; each command is accepted at most once.
  \<^item> \<open>Outbox_Dispatch\<close>: a dispatch pass refines a specification over the due entries, and the retry budget is exact.

  \<^bold>\<open>Agent budgets\<close> (\<open>rakka-agent/src\<close>).
  \<^item> \<open>Budget_Ledger\<close> and \<open>Budget_Run\<close> (\<open>budget.rs\<close>): the escrow ledger and the budget of a run.
  \<^item> \<open>Budget_System\<close> and \<open>Budget_Safety\<close>: a scope with its runs as a step relation, with delayed and replayed messages;
    the limit of the scope covers what was charged. Assignments that are refused and settlement across epochs are left
    out.

  \<^bold>\<open>Agent workflow graphs\<close> (\<open>rakka-agent-workflow/src\<close>).
  \<^item> \<open>Plan_Model\<close>, \<open>Plan_Validation\<close>, \<open>Plan_Graph\<close>, \<open>Plan_Check\<close> and \<open>Plan_Typing\<close> (\<open>compiled_plan.rs\<close>): plans, the
    catalog of node kinds, every check with its error and text, the cycle and reachability searches, which terminate,
    and the theorem that validation accepts exactly the plans of a declarative predicate. That predicate says nothing of
    config references, payload types of connected ports or port ids across nodes, because the code does not check them.
  \<^item> \<open>Graph_State\<close> (\<open>graph_state.rs\<close>), \<open>Graph_Edges\<close>, \<open>Graph_Scheduler\<close> and \<open>Graph_Branching\<close> (\<open>graph_scheduler.rs\<close>): the
    state of a run and every operation of the scheduler with its error paths.

  \<^bold>\<open>Not modelled.\<close> The actor runtime, the sharding runtime, remoting, streams and external processes are concurrent
  tasks over an asynchronous library or operating-system and network input and output. The PostgreSQL and etcd crates
  consist of statements for outside services; the in-memory implementations of the same interfaces are modelled.
  HTTP, Kubernetes, the agent-to-agent and tool protocols are wire protocols. The agent loop, its memory, models and
  tools, the knowledge graph and the host of the graph scheduler build on the modelled parts but are not modelled
  themselves. Metrics, codecs, serialization and most display texts are left out everywhere.
\<close>

end
